(* ===== verification/Prelude.thy ===== *)
theory Prelude
  imports Main "HOL-Library.Word"
begin

text \<open>
  What every other theory shares: the machine types of the C code, the failure type of the
  models, C strings as byte lists and the little-endian encoding of 16- and 32-bit words
  with its round trips. Nothing here models a particular function of the repository.
\<close>

unbundle bit_operations_syntax

section \<open>Machine types\<close>

type_synonym byte = "8 word"
type_synonym u16 = "16 word"
type_synonym u32 = "32 word"
type_synonym u64 = "64 word"

named_theorems result_simps \<open>computation rules of the result monad and of cursors\<close>
named_theorems wire_simps \<open>byte-level expansions of encoders\<close>

section \<open>Failing computations\<close>

text \<open>
  \<open>Rejected\<close> is a \<open>FALSE\<close> or \<open>NULL\<close> the C code returns. \<open>Undefined\<close> is a run the C standard
  gives no meaning to: a read outside the buffer, or a union read through the wrong member.
  \<open>Out_of_fuel\<close> belongs to the model only; each fuelled function has a lemma that excludes it.
\<close>

datatype fault = Rejected | Undefined | Out_of_fuel

type_synonym 'a result = "fault + 'a"

definition ok_bind :: "'a result \<Rightarrow> ('a \<Rightarrow> 'b result) \<Rightarrow> 'b result" where
  "ok_bind r f = (case r of Inl e \<Rightarrow> Inl e | Inr x \<Rightarrow> f x)"

lemma ok_bind_Inl [result_simps, simp]: "ok_bind (Inl e) f = Inl e"
  by (simp add: ok_bind_def)

lemma ok_bind_Inr [result_simps, simp]: "ok_bind (Inr x) f = f x"
  by (simp add: ok_bind_def)

lemma ok_bind_eq_Inr: "ok_bind r f = Inr y \<longleftrightarrow> (\<exists>x. r = Inr x \<and> f x = Inr y)"
  by (cases r) auto

lemma ok_bind_eq_Inl: "ok_bind r f = Inl e \<longleftrightarrow> r = Inl e \<or> (\<exists>x. r = Inr x \<and> f x = Inl e)"
  by (cases r) auto

lemma ok_bind_cong [fundef_cong]:
  "r = r' \<Longrightarrow> (\<And>x. r' = Inr x \<Longrightarrow> f x = g x) \<Longrightarrow> ok_bind r f = ok_bind r' g"
  by (cases r') auto

section \<open>Bytes and characters\<close>

definition byte_of_char :: "char \<Rightarrow> byte" where
  "byte_of_char c = of_nat (of_char c)"

definition char_of_byte :: "byte \<Rightarrow> char" where
  "char_of_byte b = char_of (unat b)"

lemma char_of_byte_of_char [simp]: "char_of_byte (byte_of_char c) = c"
  by (simp add: char_of_byte_def byte_of_char_def unat_of_nat)

lemma byte_of_char_of_byte [simp]: "byte_of_char (char_of_byte b) = b"
proof -
  have "unat b < 2 ^ LENGTH(8)" by (rule unsigned_less)
  then have "unat b < 256" by simp
  then show ?thesis by (simp add: char_of_byte_def byte_of_char_def)
qed

lemma byte_of_char_inj [simp]: "byte_of_char c = byte_of_char d \<longleftrightarrow> c = d"
  by (metis char_of_byte_of_char)

definition nul :: char where
  "nul = char_of_byte 0"

lemma byte_of_char_eq_0 [simp]: "byte_of_char c = 0 \<longleftrightarrow> c = nul"
  by (metis byte_of_char_of_byte char_of_byte_of_char nul_def)

text \<open>A C string is a character list without NUL; \<open>cbytes\<close> is its memory image.\<close>

definition is_cstring :: "string \<Rightarrow> bool" where
  "is_cstring s \<longleftrightarrow> nul \<notin> set s"

definition cbytes :: "string \<Rightarrow> byte list" where
  "cbytes s = map byte_of_char s"

definition chars :: "byte list \<Rightarrow> string" where
  "chars bs = map char_of_byte bs"

lemma chars_cbytes [simp]: "chars (cbytes s) = s"
  by (simp add: chars_def cbytes_def comp_def)

lemma cbytes_chars [simp]: "cbytes (chars bs) = bs"
  by (simp add: chars_def cbytes_def comp_def)

lemma length_cbytes [simp]: "length (cbytes s) = length s"
  by (simp add: cbytes_def)

lemma cbytes_append [simp]: "cbytes (s @ t) = cbytes s @ cbytes t"
  by (simp add: cbytes_def)

lemma zero_in_cbytes [simp]: "0 \<in> set (cbytes s) \<longleftrightarrow> \<not> is_cstring s"
  unfolding cbytes_def is_cstring_def set_map image_iff by (metis byte_of_char_eq_0)

section \<open>Little-endian words\<close>

definition le16 :: "u16 \<Rightarrow> byte list" where
  "le16 v = [ucast (v AND 0xFF), ucast (drop_bit 8 v AND 0xFF)]"

definition le32 :: "u32 \<Rightarrow> byte list" where
  "le32 v = [ucast (v AND 0xFF), ucast (drop_bit 8 v AND 0xFF),
             ucast (drop_bit 16 v AND 0xFF), ucast (drop_bit 24 v AND 0xFF)]"

definition of_le16 :: "byte \<Rightarrow> byte \<Rightarrow> u16" where
  "of_le16 a b = ucast a OR push_bit 8 (ucast b)"

definition of_le32 :: "byte \<Rightarrow> byte \<Rightarrow> byte \<Rightarrow> byte \<Rightarrow> u32" where
  "of_le32 a b c d =
     ucast a OR push_bit 8 (ucast b) OR push_bit 16 (ucast c) OR push_bit 24 (ucast d)"

definition of_le64 :: "byte list \<Rightarrow> u64" where
  "of_le64 bs = (\<Sum>i<length bs. push_bit (8 * i) (ucast (bs ! i)))"

lemma length_le16 [simp]: "length (le16 v) = 2"
  by (simp add: le16_def)

lemma length_le32 [simp]: "length (le32 v) = 4"
  by (simp add: le32_def)

lemma bit_255 [simp]: "bit (255 :: 'a :: len word) n \<longleftrightarrow> n < 8 \<and> n < LENGTH('a)"
proof -
  have "(255 :: 'a word) = mask 8" by (simp add: mask_eq_exp_minus_1)
  then show ?thesis by (simp only: bit_mask_iff possible_bit_word) auto
qed

lemma ucast_low_byte: "(ucast (x AND 0xFF) :: byte) = ucast (x :: 'a :: len word)"
proof (rule bit_word_eqI)
  fix n
  have "bit (0xFF :: 'a word) n \<longleftrightarrow> n < 8 \<and> n < LENGTH('a)" by (rule bit_255)
  then show "n < LENGTH(8) \<Longrightarrow> bit (ucast (x AND 0xFF) :: byte) n = bit (ucast x :: byte) n"
    by (simp only: bit_ucast_iff bit_and_iff) (auto dest: bit_imp_le_length)
qed

lemma not_bit_byte [simp]: "8 \<le> n \<Longrightarrow> \<not> bit (b :: byte) n"
  using bit_imp_le_length [of b n] by auto

lemma le16_alt: "le16 v = [ucast v, ucast (drop_bit 8 v)]"
  by (simp only: le16_def ucast_low_byte)

lemma le32_alt: "le32 v = [ucast v, ucast (drop_bit 8 v), ucast (drop_bit 16 v), ucast (drop_bit 24 v)]"
  by (simp only: le32_def ucast_low_byte)

lemma of_le16_bytes [simp]: "of_le16 (ucast v) (ucast (drop_bit 8 v)) = v"
  unfolding of_le16_def by (rule bit_word_eqI) (auto simp: bit_simps)

lemma of_le32_bytes [simp]:
  "of_le32 (ucast v) (ucast (drop_bit 8 v)) (ucast (drop_bit 16 v)) (ucast (drop_bit 24 v)) = v"
  unfolding of_le32_def
proof (rule bit_word_eqI)
  fix n assume "n < LENGTH(32)"
  then consider "n < 8" | "8 \<le> n" "n < 16" | "16 \<le> n" "n < 24" | "24 \<le> n" "n < 32"
    by fastforce
  then show "bit ((ucast (ucast v :: byte) :: u32) OR push_bit 8 (ucast (ucast (drop_bit 8 v) :: byte)) OR
      push_bit 16 (ucast (ucast (drop_bit 16 v) :: byte)) OR
      push_bit 24 (ucast (ucast (drop_bit 24 v) :: byte))) n = bit v n"
    by cases (auto simp: bit_simps)
qed

lemma le16_of_le16 [simp]: "le16 (of_le16 a b) = [a, b]"
  unfolding le16_alt of_le16_def
  by (auto intro!: bit_word_eqI simp: bit_simps dest: bit_imp_le_length)

lemma le32_of_le32 [simp]: "le32 (of_le32 a b c d) = [a, b, c, d]"
  unfolding le32_alt of_le32_def
  by (auto intro!: bit_word_eqI simp: bit_simps dest: bit_imp_le_length)

lemma ucast_u32_u64_u32 [simp]: "(ucast (ucast (t :: u32) :: u64) :: u32) = t"
  by (rule bit_word_eqI) (auto simp: bit_simps)

lemma uint_of_nat_u32: "k < 2 ^ 32 \<Longrightarrow> uint (of_nat k :: u32) = int k"
  by (simp only: unsigned_of_nat take_bit_nat_eq_self) (simp add: take_bit_nat_eq_self)

lemma unat_of_nat_u32: "k < 2 ^ 32 \<Longrightarrow> unat (of_nat k :: u32) = k"
  by (simp add: unat_of_nat)

section \<open>Lists\<close>

lemma takeWhile_append_hit: "P x = False \<Longrightarrow> (\<forall>y \<in> set xs. P y) \<Longrightarrow> takeWhile P (xs @ x # ys) = xs"
  by (simp add: takeWhile_append2)

lemma length_concat_map_const:
  "(\<And>x. x \<in> set xs \<Longrightarrow> length (f x) = n) \<Longrightarrow> length (concat (map f xs)) = n * length xs"
  by (induction xs) auto

end
