(* ===== verification/Cursor.thy ===== *)
theory Cursor
  imports Prelude
begin

text \<open>
  The reading discipline of the binary decoders in server/lib: every \<open>extract\<close> function takes
  a pointer to a data pointer and a pointer to the remaining length, and on success moves both.
  A \<open>cursor\<close> is that pair: \<open>rest\<close> is the memory from the data pointer to the end of the buffer
  that was allocated, \<open>clen\<close> the \<open>gint\<close> the C code counts down. The two can disagree, and then
  a read beyond \<open>rest\<close> is \<open>Undefined\<close>. Two interfaces are stated as locales: \<open>safe_reader\<close>
  (a reader that never leaves the buffer) and \<open>codec\<close> (a reader that inverts a writer).
\<close>

section \<open>Cursors and readers\<close>

record cursor =
  rest :: "byte list"
  clen :: int

type_synonym 'a reader = "cursor \<Rightarrow> ('a \<times> cursor) result"

definition start :: "byte list \<Rightarrow> cursor" where
  "start bs = \<lparr>rest = bs, clen = int (length bs)\<rparr>"

definition advance :: "nat \<Rightarrow> cursor \<Rightarrow> cursor" where
  "advance n c = \<lparr>rest = drop n (rest c), clen = clen c - int n\<rparr>"

definition ret :: "'a \<Rightarrow> 'a reader" where
  "ret x c = Inr (x, c)"

definition reject :: "'a reader" where
  "reject c = Inl Rejected"

definition and_then :: "'a reader \<Rightarrow> ('a \<Rightarrow> 'b reader) \<Rightarrow> 'b reader" where
  "and_then p f c = ok_bind (p c) (\<lambda>(x, c'). f x c')"

text \<open>A guard of the C code: \<open>if (!b) return FALSE;\<close>\<close>

definition require :: "bool \<Rightarrow> unit reader" where
  "require b = (if b then ret () else reject)"

text \<open>The loop \<open>for (i = 0; i < n; i++) if (!p (data, len, &x[i])) return FALSE;\<close>\<close>

fun read_n :: "nat \<Rightarrow> 'a reader \<Rightarrow> 'a list reader" where
  "read_n 0 p = ret []"
| "read_n (Suc n) p = and_then p (\<lambda>x. and_then (read_n n p) (\<lambda>xs. ret (x # xs)))"

text \<open>A copy of \<open>n\<close> bytes from the data pointer, which then moves past them.\<close>

definition read_bytes :: "nat \<Rightarrow> byte list reader" where
  "read_bytes n c =
     (if n \<le> length (rest c) then Inr (take n (rest c), advance n c) else Inl Undefined)"

lemma cursor_eq [simp]: "\<lparr>rest = rest c, clen = clen c\<rparr> = c"
  by simp

lemma rest_advance [simp]: "rest (advance n c) = drop n (rest c)"
  by (simp add: advance_def)

lemma clen_advance [simp]: "clen (advance n c) = clen c - int n"
  by (simp add: advance_def)

lemma advance_0 [simp]: "advance 0 c = c"
  by (simp add: advance_def)

lemma advance_advance [simp]: "advance m (advance n c) = advance (n + m) c"
  by (simp add: advance_def add.commute)

lemma rest_start [simp]: "rest (start bs) = bs"
  by (simp add: start_def)

lemma clen_start [simp]: "clen (start bs) = int (length bs)"
  by (simp add: start_def)

lemma advance_append [result_simps]:
  "n = length bs \<Longrightarrow> advance n \<lparr>rest = bs @ r, clen = l\<rparr> = \<lparr>rest = r, clen = l - int n\<rparr>"
  by (simp add: advance_def)

lemma ret_apply [result_simps]: "ret x c = Inr (x, c)"
  by (simp add: ret_def)

lemma and_then_apply [result_simps]: "and_then p f c = ok_bind (p c) (\<lambda>(x, c'). f x c')"
  by (simp add: and_then_def)

lemma require_apply [result_simps]:
  "require b c = (if b then Inr ((), c) else Inl Rejected)"
  by (simp add: require_def ret_def reject_def)

lemma reject_apply [result_simps]: "reject c = Inl Rejected"
  by (simp add: reject_def)

lemma and_then_eq_Inr:
  "and_then p f c = Inr (y, c') \<longleftrightarrow> (\<exists>x d. p c = Inr (x, d) \<and> f x d = Inr (y, c'))"
  by (simp add: and_then_def ok_bind_eq_Inr split: prod.splits)

lemma and_then_eq_Inl:
  "and_then p f c = Inl e \<longleftrightarrow> p c = Inl e \<or> (\<exists>x d. p c = Inr (x, d) \<and> f x d = Inl e)"
  by (simp add: and_then_def ok_bind_eq_Inl split: prod.splits)

lemma and_then_cong [fundef_cong]:
  "p c = p' c' \<Longrightarrow> (\<And>x d. p' c' = Inr (x, d) \<Longrightarrow> f x d = g x d) \<Longrightarrow> and_then p f c = and_then p' g c'"
  by (auto simp: and_then_def intro!: ok_bind_cong split: prod.splits)

lemma read_n_length: "read_n n p c = Inr (xs, c') \<Longrightarrow> length xs = n"
  by (induction n arbitrary: c c' xs) (auto simp: ret_def and_then_eq_Inr)

section \<open>Readers that stay inside the buffer\<close>

definition bounded :: "cursor \<Rightarrow> bool" where
  "bounded c \<longleftrightarrow> 0 \<le> clen c \<and> clen c \<le> int (length (rest c))"

lemma bounded_start [simp]: "bounded (start bs)"
  by (simp add: bounded_def)

lemma bounded_nat: "bounded c \<Longrightarrow> nat (clen c) \<le> length (rest c)"
  unfolding bounded_def by linarith

lemma bounded_advance: "bounded c \<Longrightarrow> int k \<le> clen c \<Longrightarrow> bounded (advance k c)"
  by (auto simp: bounded_def)

text \<open>
  What the decoders promise their callers. A \<open>forward_reader\<close> that succeeds on a cursor inside its
  buffer has moved it forward by some number of bytes that the length covered. A \<open>safe_reader\<close>
  moreover never reads outside the buffer, whether it succeeds or not.
\<close>

locale forward_reader =
  fixes p :: "'a reader"
  assumes moves_forward: "bounded c \<Longrightarrow> p c = Inr (x, c') \<Longrightarrow> \<exists>k. int k \<le> clen c \<and> c' = advance k c"
begin

lemma stays_bounded: "bounded c \<Longrightarrow> p c = Inr (x, c') \<Longrightarrow> bounded c'"
  using moves_forward bounded_advance by blast

lemma consumes_prefix:
  assumes "bounded c" and "p c = Inr (x, c')"
  shows "\<exists>k. int k \<le> clen c \<and> rest c' = drop k (rest c) \<and> clen c' = clen c - int k"
  using moves_forward [OF assms] by auto

lemma read_n_forward:
  "bounded c \<Longrightarrow> read_n n p c = Inr (xs, c') \<Longrightarrow> \<exists>k. int k \<le> clen c \<and> c' = advance k c"
proof (induction n arbitrary: c xs)
  case 0
  then show ?case by (auto simp: ret_def bounded_def intro: exI [of _ 0])
next
  case (Suc n)
  then obtain x d ys where p: "p c = Inr (x, d)" and r: "read_n n p d = Inr (ys, c')"
    by (auto simp: ret_def and_then_eq_Inr)
  from moves_forward [OF Suc.prems(1) p] obtain k where k: "int k \<le> clen c" "d = advance k c"
    by blast
  from Suc.IH [OF stays_bounded [OF Suc.prems(1) p] r] obtain m
    where m: "int m \<le> clen d" "c' = advance m d" by blast
  from k m show ?case by (auto intro!: exI [of _ "k + m"])
qed

end

locale safe_reader = forward_reader +
  assumes no_undefined: "bounded c \<Longrightarrow> p c \<noteq> Inl Undefined"
begin

lemma and_then_undefined:
  assumes "bounded c" and "and_then p f c = Inl Undefined"
  shows "\<exists>x d. p c = Inr (x, d) \<and> bounded d \<and> f x d = Inl Undefined"
  using assms no_undefined stays_bounded by (auto simp: and_then_eq_Inl)

lemma read_n_undefined: "bounded c \<Longrightarrow> read_n n p c \<noteq> Inl Undefined"
proof (induction n arbitrary: c)
  case (Suc n)
  then show ?case
    by (auto simp: ret_def and_then_eq_Inl no_undefined dest: stays_bounded)
qed (simp add: ret_def)

end

lemma safe_readerI:
  assumes "\<And>c. bounded c \<Longrightarrow> p c \<noteq> Inl Undefined"
    and "\<And>c x c'. bounded c \<Longrightarrow> p c = Inr (x, c') \<Longrightarrow> \<exists>k. int k \<le> clen c \<and> c' = advance k c"
  shows "safe_reader p"
  using assms by unfold_locales blast+

lemma safe_forward: "safe_reader p \<Longrightarrow> forward_reader p"
  by (simp add: safe_reader_def)

lemma forward_and_then:
  assumes p: "forward_reader p" and f: "\<And>x. forward_reader (f x)"
  shows "forward_reader (and_then p f)"
proof
  fix c y c' assume b: "bounded c" and r: "and_then p f c = Inr (y, c')"
  from r obtain x d where p': "p c = Inr (x, d)" and f': "f x d = Inr (y, c')"
    by (auto simp: and_then_eq_Inr)
  from forward_reader.moves_forward [OF p b p'] obtain k where k: "int k \<le> clen c" "d = advance k c"
    by blast
  from forward_reader.moves_forward [OF f forward_reader.stays_bounded [OF p b p'] f'] obtain m
    where "int m \<le> clen d" "c' = advance m d" by blast
  with k show "\<exists>k. int k \<le> clen c \<and> c' = advance k c" by (auto intro!: exI [of _ "k + m"])
qed

text \<open>Closure of the interface under the ways the decoders are put together.\<close>

lemma safe_ret: "safe_reader (ret x)"
  by unfold_locales (auto simp: ret_def bounded_def intro: exI [of _ 0])

lemma safe_reject: "safe_reader reject"
  by unfold_locales (auto simp: reject_def)

lemma safe_require: "safe_reader (require b)"
  by (simp add: require_def safe_ret safe_reject)

lemma safe_and_then:
  assumes p: "safe_reader p" and f: "\<And>x. safe_reader (f x)"
  shows "safe_reader (and_then p f)"
proof (rule safe_readerI)
  fix c assume b: "bounded c"
  show "and_then p f c \<noteq> Inl Undefined"
    using safe_reader.and_then_undefined [OF p b] safe_reader.no_undefined [OF f] by blast
qed (rule forward_reader.moves_forward [OF forward_and_then [OF safe_forward [OF p] safe_forward [OF f]]])

lemma safe_read_n: "safe_reader p \<Longrightarrow> safe_reader (read_n n p)"
  by (rule safe_readerI)
    (auto dest: safe_reader.read_n_undefined forward_reader.read_n_forward [OF safe_forward])

lemma safe_if: "safe_reader p \<Longrightarrow> safe_reader q \<Longrightarrow> safe_reader (if b then p else q)"
  by simp

lemma safe_unit_guard: "safe_reader p \<Longrightarrow> safe_reader (and_then (require b) (\<lambda>_. p))"
  by (intro safe_and_then safe_require)

lemmas safe_intros = safe_ret safe_reject safe_require safe_and_then safe_read_n safe_if

text \<open>
  Fuel of the recursive decoders: \<open>n\<close> is enough for every cursor that covers fewer than \<open>n\<close> bytes.
\<close>

definition enough_fuel :: "nat \<Rightarrow> 'a reader \<Rightarrow> bool" where
  "enough_fuel n p \<longleftrightarrow> (\<forall>c. bounded c \<longrightarrow> clen c < int n \<longrightarrow> p c \<noteq> Inl Out_of_fuel)"

lemma enough_fuelD: "enough_fuel n p \<Longrightarrow> bounded c \<Longrightarrow> clen c < int n \<Longrightarrow> p c \<noteq> Inl Out_of_fuel"
  by (simp add: enough_fuel_def)

text \<open>Readers that never run out of fuel, on any cursor.\<close>

definition no_fuel :: "'a reader \<Rightarrow> bool" where
  "no_fuel p \<longleftrightarrow> (\<forall>c. p c \<noteq> Inl Out_of_fuel)"

lemma no_fuelI: "(\<And>c. p c \<noteq> Inl Out_of_fuel) \<Longrightarrow> no_fuel p"
  by (simp add: no_fuel_def)

lemma no_fuelD: "no_fuel p \<Longrightarrow> p c \<noteq> Inl Out_of_fuel"
  by (simp add: no_fuel_def)

lemma no_fuel_ret: "no_fuel (ret x)"
  by (simp add: no_fuel_def ret_def)

lemma no_fuel_reject: "no_fuel reject"
  by (simp add: no_fuel_def reject_def)

lemma no_fuel_require: "no_fuel (require b)"
  by (simp add: no_fuel_def require_def ret_def reject_def)

lemma no_fuel_if: "no_fuel p \<Longrightarrow> no_fuel q \<Longrightarrow> no_fuel (if b then p else q)"
  by simp

lemma no_fuel_and_then: "no_fuel p \<Longrightarrow> (\<And>x. no_fuel (f x)) \<Longrightarrow> no_fuel (and_then p f)"
  by (simp add: no_fuel_def and_then_eq_Inl)

lemma no_fuel_read_n: "no_fuel p \<Longrightarrow> no_fuel (read_n k p)"
  by (induction k) (auto intro!: no_fuel_ret no_fuel_and_then)

lemma no_fuel_read_bytes: "no_fuel (read_bytes n)"
  by (simp add: no_fuel_def read_bytes_def)

lemmas no_fuel_intros = no_fuel_ret no_fuel_reject no_fuel_require no_fuel_if no_fuel_and_then
  no_fuel_read_n no_fuel_read_bytes

lemma fuel_ret: "enough_fuel n (ret x)"
  by (simp add: enough_fuel_def ret_def)

lemma fuel_reject: "enough_fuel n reject"
  by (simp add: enough_fuel_def reject_def)

lemma fuel_require: "enough_fuel n (require b)"
  by (simp add: enough_fuel_def require_def ret_def reject_def)

lemma fuel_if: "enough_fuel n p \<Longrightarrow> enough_fuel n q \<Longrightarrow> enough_fuel n (if b then p else q)"
  by simp

lemma fuel_and_then_forward:
  assumes s: "forward_reader p" and p: "enough_fuel n p" and f: "\<And>x. enough_fuel n (f x)"
  shows "enough_fuel n (and_then p f)"
  unfolding enough_fuel_def
proof (intro allI impI notI)
  fix c assume b: "bounded c" and n: "clen c < int n" and "and_then p f c = Inl Out_of_fuel"
  then obtain x d where r: "p c = Inr (x, d)" "f x d = Inl Out_of_fuel"
    using enough_fuelD [OF p b n] by (auto simp: and_then_eq_Inl)
  moreover have "clen d \<le> clen c" using forward_reader.moves_forward [OF s b r(1)] by auto
  ultimately show False
    using enough_fuelD [OF f] forward_reader.stays_bounded [OF s b r(1)] n by force
qed

lemmas fuel_and_then = fuel_and_then_forward [OF safe_forward]

lemma fuel_read_n_forward: "forward_reader p \<Longrightarrow> enough_fuel n p \<Longrightarrow> enough_fuel n (read_n k p)"
proof (induction k)
  case (Suc k)
  then have "forward_reader (read_n k p)"
    by unfold_locales (rule forward_reader.read_n_forward)
  with Suc show ?case by (auto intro!: fuel_ret fuel_and_then_forward)
qed (simp add: fuel_ret)

lemma fuel_read_n: "safe_reader p \<Longrightarrow> enough_fuel n p \<Longrightarrow> enough_fuel n (read_n k p)"
  by (induction k) (auto intro!: fuel_ret fuel_and_then safe_read_n)

lemma fuel_no_fuel: "no_fuel p \<Longrightarrow> enough_fuel n p"
  by (simp add: enough_fuel_def no_fuel_def)

lemmas fuel_intros = fuel_ret fuel_reject fuel_require fuel_if fuel_and_then fuel_read_n

section \<open>Writers and the readers that invert them\<close>

text \<open>
  A writer appends to a byte array and fails only where the C code is undefined. \<open>append_all\<close>
  is the loop that appends the elements of an array one after the other.
\<close>

type_synonym 'a writer = "byte list \<Rightarrow> 'a \<Rightarrow> byte list result"

fun append_all :: "'a writer \<Rightarrow> byte list \<Rightarrow> 'a list \<Rightarrow> byte list result" where
  "append_all w ba [] = Inr ba"
| "append_all w ba (x # xs) = ok_bind (w ba x) (\<lambda>ba'. append_all w ba' xs)"

lemma append_all_cong [fundef_cong]:
  "xs = ys \<Longrightarrow> ba = ba' \<Longrightarrow> (\<And>b x. x \<in> set ys \<Longrightarrow> w b x = w' b x) \<Longrightarrow>
   append_all w ba xs = append_all w' ba' ys"
  by (induction xs arbitrary: ba ys ba') (auto intro: ok_bind_cong)

text \<open>
  The contract between a writer and its reader: \<open>wire\<close> is the byte format, \<open>wf\<close> the values the
  format can carry and \<open>norm\<close> what reading gives back for a written value.
\<close>

locale codec =
  fixes app :: "'a writer" and ext :: "'a reader" and wire :: "'a \<Rightarrow> byte list"
    and wf :: "'a \<Rightarrow> bool" and norm :: "'a \<Rightarrow> 'a"
  assumes app_wire: "wf x \<Longrightarrow> app ba x = Inr (ba @ wire x)"
    and ext_wire: "wf x \<Longrightarrow> int (length (wire x)) \<le> n \<Longrightarrow>
      ext \<lparr>rest = wire x @ r, clen = n\<rparr> = Inr (norm x, \<lparr>rest = r, clen = n - int (length (wire x))\<rparr>)"
begin

lemma append_all_wire: "list_all wf xs \<Longrightarrow> append_all app ba xs = Inr (ba @ concat (map wire xs))"
  by (induction xs arbitrary: ba) (auto simp: app_wire)

lemma read_n_wire:
  "list_all wf xs \<Longrightarrow> int (length (concat (map wire xs))) \<le> n \<Longrightarrow>
   read_n (length xs) ext \<lparr>rest = concat (map wire xs) @ r, clen = n\<rparr> =
     Inr (map norm xs, \<lparr>rest = r, clen = n - int (length (concat (map wire xs)))\<rparr>)"
proof (induction xs arbitrary: n)
  case Nil
  then show ?case by (simp add: ret_def)
next
  case (Cons x xs)
  then have "ext \<lparr>rest = wire x @ concat (map wire xs) @ r, clen = n\<rparr> =
      Inr (norm x, \<lparr>rest = concat (map wire xs) @ r, clen = n - int (length (wire x))\<rparr>)"
    by (intro ext_wire) auto
  with Cons show ?case by (simp add: and_then_def ret_def algebra_simps)
qed

lemma roundtrip: "wf x \<Longrightarrow> ok_bind (app [] x) (\<lambda>bs. ext (start (bs @ r))) = Inr (norm x, start r)"
  using ext_wire [of x "int (length (wire x @ r))" r] by (simp add: app_wire start_def)

end

text \<open>
  The same contract for decoders that compare a length field with the remaining length as
  unsigned 32-bit numbers: they invert the writer as long as the remaining length is one that a
  \<open>gint\<close> holds. Every \<open>codec\<close> is such a \<open>gint_codec\<close>.
\<close>

locale gint_codec =
  fixes app :: "'a writer" and ext :: "'a reader" and wire :: "'a \<Rightarrow> byte list"
    and wf :: "'a \<Rightarrow> bool" and norm :: "'a \<Rightarrow> 'a"
  assumes gint_app_wire: "wf x \<Longrightarrow> app ba x = Inr (ba @ wire x)"
    and gint_ext_wire: "wf x \<Longrightarrow> int (length (wire x)) \<le> n \<Longrightarrow> n < 2 ^ 31 \<Longrightarrow>
      ext \<lparr>rest = wire x @ r, clen = n\<rparr> = Inr (norm x, \<lparr>rest = r, clen = n - int (length (wire x))\<rparr>)"
begin

lemma gint_append_all_wire:
  "list_all wf xs \<Longrightarrow> append_all app ba xs = Inr (ba @ concat (map wire xs))"
  by (induction xs arbitrary: ba) (auto simp: gint_app_wire)

lemma gint_read_n_wire:
  "list_all wf xs \<Longrightarrow> int (length (concat (map wire xs))) \<le> n \<Longrightarrow> n < 2 ^ 31 \<Longrightarrow>
   read_n (length xs) ext \<lparr>rest = concat (map wire xs) @ r, clen = n\<rparr> =
     Inr (map norm xs, \<lparr>rest = r, clen = n - int (length (concat (map wire xs)))\<rparr>)"
proof (induction xs arbitrary: n)
  case Nil
  then show ?case by (simp add: ret_def)
next
  case (Cons x xs)
  then have "ext \<lparr>rest = wire x @ concat (map wire xs) @ r, clen = n\<rparr> =
      Inr (norm x, \<lparr>rest = concat (map wire xs) @ r, clen = n - int (length (wire x))\<rparr>)"
    by (intro gint_ext_wire) auto
  with Cons show ?case by (simp add: and_then_def ret_def algebra_simps)
qed

lemma gint_roundtrip:
  "wf x \<Longrightarrow> length (wire x) + length r < 2 ^ 31 \<Longrightarrow>
   ok_bind (app [] x) (\<lambda>bs. ext (start (bs @ r))) = Inr (norm x, start r)"
  using gint_ext_wire [of x "int (length (wire x @ r))" r] by (simp add: gint_app_wire start_def)

end

sublocale codec < gint: gint_codec app ext wire wf norm
  by unfold_locales (simp_all add: app_wire ext_wire)

end
