(* ===== verification/C_Text.thy ===== *)
theory C_Text
  imports Prelude
begin

text \<open>
  The parts of the C library the code prints and reads numbers with: \<open>printf\<close>'s \<open>%d\<close>, \<open>%u\<close>,
  \<open>%0Nd\<close> and \<open>%0Nx\<close> conversions, \<open>strtoul\<close>, \<open>strchr\<close>/\<open>strrchr\<close> and the ASCII character
  classes, in the C locale. The lemmas show that reading inverts printing.
\<close>

section \<open>Character classes\<close>

definition ch_code :: "char \<Rightarrow> nat" where
  "ch_code c = of_char c"

definition isspace :: "char \<Rightarrow> bool" where
  "isspace c \<longleftrightarrow> ch_code c = 32 \<or> (9 \<le> ch_code c \<and> ch_code c \<le> 13)"

definition isdigit :: "char \<Rightarrow> bool" where
  "isdigit c \<longleftrightarrow> 48 \<le> ch_code c \<and> ch_code c \<le> 57"

definition isupper :: "char \<Rightarrow> bool" where
  "isupper c \<longleftrightarrow> 65 \<le> ch_code c \<and> ch_code c \<le> 90"

definition islower :: "char \<Rightarrow> bool" where
  "islower c \<longleftrightarrow> 97 \<le> ch_code c \<and> ch_code c \<le> 122"

definition isalnum :: "char \<Rightarrow> bool" where
  "isalnum c \<longleftrightarrow> isdigit c \<or> isupper c \<or> islower c"

definition tolower :: "char \<Rightarrow> char" where
  "tolower c = (if isupper c then char_of (ch_code c + 32) else c)"

definition toupper :: "char \<Rightarrow> char" where
  "toupper c = (if islower c then char_of (ch_code c - 32) else c)"

definition isxdigit :: "char \<Rightarrow> bool" where
  "isxdigit c \<longleftrightarrow> isdigit c \<or> (97 \<le> ch_code (tolower c) \<and> ch_code (tolower c) \<le> 102)"

text \<open>The value of a digit or letter in a positional numeral, 36 for any other character.\<close>

definition digit_val :: "char \<Rightarrow> nat" where
  "digit_val c =
     (if isdigit c then ch_code c - 48
      else if isupper c then ch_code c - 55
      else if islower c then ch_code c - 87
      else 36)"

section \<open>Searching\<close>

text \<open>\<open>strchr\<close> and \<open>strrchr\<close> as the index of the first and the last occurrence.\<close>

fun strchr :: "string \<Rightarrow> char \<Rightarrow> nat option" where
  "strchr [] c = None"
| "strchr (x # xs) c = (if x = c then Some 0 else map_option Suc (strchr xs c))"

fun strrchr :: "string \<Rightarrow> char \<Rightarrow> nat option" where
  "strrchr [] c = None"
| "strrchr (x # xs) c =
     (case strrchr xs c of Some i \<Rightarrow> Some (Suc i) | None \<Rightarrow> (if x = c then Some 0 else None))"

lemma strchr_None [simp]: "strchr s c = None \<longleftrightarrow> c \<notin> set s"
  by (induction s) auto

lemma strrchr_None [simp]: "strrchr s c = None \<longleftrightarrow> c \<notin> set s"
  by (induction s) (auto split: option.splits)

lemma strchr_SomeD: "strchr s c = Some i \<Longrightarrow> i < length s \<and> s ! i = c \<and> c \<notin> set (take i s)"
  by (induction s arbitrary: i) (auto split: if_splits)

lemma strrchr_SomeD: "strrchr s c = Some i \<Longrightarrow> i < length s \<and> s ! i = c \<and> c \<notin> set (drop (Suc i) s)"
  by (induction s arbitrary: i) (auto split: option.splits if_splits)

lemma strrchr_append_tail: "c \<notin> set t \<Longrightarrow> strrchr (s @ c # t) c = Some (length s)"
  by (induction s) (auto split: option.splits)

text \<open>\<open>strstr\<close>, as the index of the first occurrence.\<close>

fun strstr :: "string \<Rightarrow> string \<Rightarrow> nat option" where
  "strstr [] needle = (if needle = [] then Some 0 else None)"
| "strstr (c # s) needle =
     (if take (length needle) (c # s) = needle then Some 0 else map_option Suc (strstr s needle))"

text \<open>The tokens that calls of \<open>strtok_r\<close> give.\<close>

function strtok :: "string \<Rightarrow> string \<Rightarrow> string list" where
  "strtok delims s = (let t = dropWhile (\<lambda>c. c \<in> set delims) s
     in if t = [] then []
        else takeWhile (\<lambda>c. c \<notin> set delims) t # strtok delims (dropWhile (\<lambda>c. c \<notin> set delims) t))"
  by pat_completeness auto
termination
proof (relation "measure (length \<circ> snd)", goal_cases)
  case (2 delims s t)
  then obtain x u where t: "t = x # u" by (meson neq_Nil_conv)
  then have x: "x \<notin> set delims" using 2(1) hd_dropWhile [of "\<lambda>c. c \<in> set delims" s] by simp
  have "length t \<le> length s" using 2(1) length_dropWhile_le by metis
  moreover have "length (dropWhile (\<lambda>c. c \<notin> set delims) t) \<le> length u"
    using x length_dropWhile_le by (simp add: t)
  ultimately show ?case by (simp add: t)
qed simp

declare strtok.simps [simp del]

section \<open>Printing numbers\<close>

definition digit_char :: "nat \<Rightarrow> char" where
  "digit_char d = (if d < 10 then char_of (48 + d) else char_of (87 + d))"

text \<open>The digits of \<open>n\<close> in base \<open>b\<close>, most significant first; \<open>''0''\<close> for 0.\<close>

function to_base :: "nat \<Rightarrow> nat \<Rightarrow> string" where
  "to_base b n =
     (if b < 2 \<or> n < b then [digit_char n] else to_base b (n div b) @ [digit_char (n mod b)])"
  by pat_completeness auto
termination
  by (relation "measure snd") auto

declare to_base.simps [simp del]

definition pad0 :: "nat \<Rightarrow> string \<Rightarrow> string" where
  "pad0 w s = replicate (w - length s) CHR ''0'' @ s"

definition fmt_u :: "nat \<Rightarrow> string" where
  "fmt_u n = to_base 10 n"

definition fmt_d :: "nat \<Rightarrow> int \<Rightarrow> string" where
  "fmt_d w i = (if i < 0 then CHR ''-'' # pad0 (w - 1) (to_base 10 (nat (- i)))
                else pad0 w (to_base 10 (nat i)))"

definition fmt_x :: "nat \<Rightarrow> nat \<Rightarrow> string" where
  "fmt_x w n = pad0 w (to_base 16 n)"

section \<open>Reading numbers\<close>

definition ULONG_MAX :: nat where
  "ULONG_MAX = 2 ^ 64 - 1"

definition num_of :: "nat \<Rightarrow> string \<Rightarrow> nat" where
  "num_of b s = foldl (\<lambda>a c. a * b + digit_val c) 0 s"

definition is_base :: "nat \<Rightarrow> char \<Rightarrow> bool" where
  "is_base b c \<longleftrightarrow> digit_val c < b"

text \<open>
  \<open>strtoul (s, &end, base)\<close>: white space, an optional sign, for base 16 an optional \<open>0x\<close> that
  is followed by a digit, then the longest run of digits. A value that does not fit is
  \<open>ULONG_MAX\<close>; without digits the result is 0 and \<open>end\<close> is \<open>s\<close>.
\<close>

definition skip_sign :: "string \<Rightarrow> bool \<times> string" where
  "skip_sign s = (case s of
     c # cs \<Rightarrow> (if c = CHR ''-'' then (True, cs) else if c = CHR ''+'' then (False, cs) else (False, s))
   | [] \<Rightarrow> (False, s))"

definition skip_0x :: "nat \<Rightarrow> string \<Rightarrow> string" where
  "skip_0x b s = (case s of
     z # x # d # ds \<Rightarrow>
       (if b = 16 \<and> z = CHR ''0'' \<and> (x = CHR ''x'' \<or> x = CHR ''X'') \<and> is_base b d then d # ds else s)
   | _ \<Rightarrow> s)"

definition strtoul :: "nat \<Rightarrow> string \<Rightarrow> u64 \<times> string" where
  "strtoul b s =
     (let (neg, s1) = skip_sign (dropWhile isspace s);
          s2 = skip_0x b s1;
          ds = takeWhile (is_base b) s2;
          n = num_of b ds
      in if ds = [] then (0, s)
         else (if n > ULONG_MAX then of_nat ULONG_MAX
               else if neg then - of_nat n else of_nat n, dropWhile (is_base b) s2))"

text \<open>
  \<open>strtol (s, &end, 10)\<close>, saturating at the limits of \<open>long\<close>: its value and the text behind the
  number. \<open>atoi\<close> gives its low 32 bits, as does storing it in an \<open>int\<close>.
\<close>

definition strtol :: "string \<Rightarrow> int" where
  "strtol s =
     (let (neg, s1) = skip_sign (dropWhile isspace s);
          n = int (num_of 10 (takeWhile (is_base 10) s1))
      in max (- (2 ^ 63)) (min (2 ^ 63 - 1) (if neg then - n else n)))"

definition strtol_end :: "string \<Rightarrow> string" where
  "strtol_end s =
     (let s1 = snd (skip_sign (dropWhile isspace s))
      in if takeWhile (is_base 10) s1 = [] then s else dropWhile (is_base 10) s1)"

definition int_of_long :: "int \<Rightarrow> int" where
  "int_of_long i = sint (of_int i :: u32)"

definition atoi :: "string \<Rightarrow> int" where
  "atoi s = int_of_long (strtol s)"

section \<open>Reading inverts printing\<close>

lemma ch_code_char_of [simp]: "n < 256 \<Longrightarrow> ch_code (char_of n) = n"
  by (simp add: ch_code_def)

lemma digit_val_char [simp]: "d < 36 \<Longrightarrow> digit_val (digit_char d) = d"
  by (auto simp: digit_val_def digit_char_def isdigit_def isupper_def islower_def)

lemma digit_char_eq_iff: "d < 36 \<Longrightarrow> e < 36 \<Longrightarrow> digit_char d = digit_char e \<longleftrightarrow> d = e"
  by (metis digit_val_char)

lemma digit_val_0 [simp]: "digit_val CHR ''0'' = 0"
  by (simp add: digit_val_def isdigit_def ch_code_def)

lemma num_of_Nil [simp]: "num_of b [] = 0"
  by (simp add: num_of_def)

lemma num_of_snoc [simp]: "num_of b (s @ [c]) = num_of b s * b + digit_val c"
  by (simp add: num_of_def)

lemma num_of_zeros: "num_of b (replicate n CHR ''0'' @ s) = num_of b s"
proof (induction s rule: rev_induct)
  case Nil
  show ?case by (induction n) (auto simp: num_of_def)
next
  case (snoc c s)
  then show ?case by (metis append_assoc num_of_snoc)
qed

lemma to_base_nonempty [simp]: "to_base b n \<noteq> []"
  by (subst to_base.simps) simp

lemma to_base_digits: "2 \<le> b \<Longrightarrow> b \<le> 36 \<Longrightarrow> \<forall>c \<in> set (to_base b n). is_base b c \<and> (\<exists>d < b. c = digit_char d)"
proof (induction b n rule: to_base.induct)
  case (1 b n)
  show ?case
  proof (cases "n < b")
    case True
    with 1 show ?thesis by (subst to_base.simps) (auto simp: is_base_def)
  next
    case False
    with 1 have "\<forall>c \<in> set (to_base b (n div b)). is_base b c \<and> (\<exists>d < b. c = digit_char d)" by simp
    moreover have "n mod b < b" using 1 by simp
    moreover have "n mod b < 36" using 1 \<open>n mod b < b\<close> by linarith
    then have "is_base b (digit_char (n mod b))" using \<open>n mod b < b\<close> by (simp add: is_base_def)
    ultimately show ?thesis
      using 1 \<open>n mod b < b\<close> False by (subst to_base.simps) (auto intro: exI [of _ "n mod b"])
  qed
qed

lemma num_of_to_base: "2 \<le> b \<Longrightarrow> b \<le> 36 \<Longrightarrow> num_of b (to_base b n) = n"
proof (induction b n rule: to_base.induct)
  case (1 b n)
  show ?case
  proof (cases "n < b")
    case True
    with 1 show ?thesis by (subst to_base.simps) (simp add: num_of_def)
  next
    case False
    with 1 have "num_of b (to_base b (n div b)) = n div b" by simp
    moreover have "n mod b < 36" using 1 by (meson less_le_trans mod_less_divisor zero_less_numeral le_trans less_le_trans not_less)
    ultimately show ?thesis using 1 False by (subst to_base.simps) simp
  qed
qed

lemma num_of_pad0 [simp]: "num_of b (pad0 w s) = num_of b s"
  by (simp add: pad0_def num_of_zeros)

lemma is_base_0: "0 < b \<Longrightarrow> is_base b CHR ''0''"
  by (simp add: is_base_def)

lemma set_pad0: "set (pad0 w s) \<subseteq> insert CHR ''0'' (set s)"
  by (auto simp: pad0_def)

lemma length_pad0: "length (pad0 w s) = max w (length s)"
  by (simp add: pad0_def)

lemma pad0_nonempty: "s \<noteq> [] \<Longrightarrow> pad0 w s \<noteq> []"
  by (simp add: pad0_def)

lemma digit_char_not_space: "d < 36 \<Longrightarrow> \<not> isspace (digit_char d)"
  by (auto simp: isspace_def digit_char_def)

lemma digit_char_not_sign: "d < 36 \<Longrightarrow> digit_char d \<noteq> CHR ''-'' \<and> digit_char d \<noteq> CHR ''+''"
  by (auto simp: digit_char_def dest!: arg_cong [where f = ch_code]) (auto simp: ch_code_def)

lemma strtoul_digits:
  assumes b: "2 \<le> b" "b \<le> 36" and ds: "ds \<noteq> []" "\<forall>c \<in> set ds. \<exists>d < b. c = digit_char d"
    and r: "r = [] \<or> \<not> is_base b (hd r)" and n: "num_of b ds \<le> ULONG_MAX"
    and no0x: "b = 16 \<longrightarrow> r = [] \<or> (hd r \<noteq> CHR ''x'' \<and> hd r \<noteq> CHR ''X'')"
  shows "strtoul b (ds @ r) = (of_nat (num_of b ds), r)"
proof -
  have base: "\<forall>c \<in> set ds. is_base b c" using b ds(2) by (auto simp: is_base_def)
  obtain c cs where c: "ds = c # cs" using ds(1) by (cases ds) auto
  then obtain d where d: "d < 36" "c = digit_char d" using ds(2) b by (auto intro: less_le_trans)
  have sp: "dropWhile isspace (ds @ r) = ds @ r" using c d digit_char_not_space by simp
  have sg: "skip_sign (ds @ r) = (False, ds @ r)"
    using c d digit_char_not_sign by (simp add: skip_sign_def)
  have nx: "x \<noteq> CHR ''x'' \<and> x \<noteq> CHR ''X''" if "b = 16" "x \<in> set ds" for x
    using that base by (auto simp: is_base_def digit_val_def isdigit_def isupper_def islower_def ch_code_def)
  have ox: "skip_0x b (ds @ r) = ds @ r"
    using c no0x nx by (cases cs; cases r) (auto simp: skip_0x_def split: list.splits)
  have tw: "takeWhile (is_base b) (ds @ r) = ds" "dropWhile (is_base b) (ds @ r) = r"
    using base r by (cases r; auto)+
  show ?thesis
    using ds(1) n by (simp add: strtoul_def sp sg ox tw)
qed

lemma strtoul_pad0:
  assumes "2 \<le> b" "b \<le> 36" "r = [] \<or> \<not> is_base b (hd r)" "n \<le> ULONG_MAX"
    and "b = 16 \<longrightarrow> r = [] \<or> (hd r \<noteq> CHR ''x'' \<and> hd r \<noteq> CHR ''X'')"
  shows "strtoul b (pad0 w (to_base b n) @ r) = (of_nat n, r)"
proof -
  have z: "CHR ''0'' = digit_char 0" by code_simp
  have "\<exists>d < b. c = digit_char d" if "c \<in> set (pad0 w (to_base b n))" for c
  proof (cases "c = CHR ''0''")
    case True
    then show ?thesis using z assms(1) by (intro exI [of _ 0]) auto
  next
    case False
    then have "c \<in> set (to_base b n)" using that set_pad0 [of w "to_base b n"] by blast
    then show ?thesis using to_base_digits [of b n] assms by blast
  qed
  then show ?thesis
    using assms strtoul_digits [of b "pad0 w (to_base b n)" r]
    by (simp add: pad0_nonempty num_of_to_base)
qed

end
