(* ===== verification/Properties.thy ===== *)
theory Properties
  imports C_Text
begin

text \<open>
  The naming of MAPI properties in server/lib/e2k-properties.c: a property name is a namespace
  and a short name, split at the last slash (or the last colon), and the short name of a MAPI
  property is an \<open>x\<close> followed by its proptag in hexadecimal. The cache of known properties in
  that file returns for a name what was computed for the same name before, so the two functions
  are functions of their argument.
\<close>

definition E2K_NS_MAPI_PROPTAG :: string where
  "E2K_NS_MAPI_PROPTAG = ''http://schemas.microsoft.com/mapi/proptag/''"

definition get_div :: "string \<Rightarrow> nat option" where
  "get_div propname = (case strrchr propname CHR ''/'' of
     Some i \<Rightarrow> Some i
   | None \<Rightarrow> strrchr propname CHR '':'')"

text \<open>\<open>get_div (prop) + 1\<close>: without a separator the code forms a pointer from \<open>NULL\<close>.\<close>

definition e2k_prop_property_name :: "string \<Rightarrow> string result" where
  "e2k_prop_property_name prop = (case get_div prop of
     Some i \<Rightarrow> Inr (drop (Suc i) prop)
   | None \<Rightarrow> Inl Undefined)"

text \<open>The proptag that \<open>get_propinfo\<close> records for a name, and \<open>e2k_prop_proptag\<close> returns.\<close>

definition get_propinfo_proptag :: "string \<Rightarrow> u32 result" where
  "get_propinfo_proptag propname = ok_bind (e2k_prop_property_name propname) (\<lambda>short_name.
     Inr (case short_name of
       c # cs \<Rightarrow> (if c = CHR ''x'' then ucast (fst (strtoul 16 cs)) else 0)
     | [] \<Rightarrow> 0))"

definition e2k_prop_proptag :: "string \<Rightarrow> u32 result" where
  "e2k_prop_proptag prop = get_propinfo_proptag prop"

definition e2k_proptag_prop :: "u32 \<Rightarrow> string" where
  "e2k_proptag_prop proptag = E2K_NS_MAPI_PROPTAG @ CHR ''x'' # fmt_x 8 (unat proptag)"

definition E2K_PROPTAG_TYPE :: "u32 \<Rightarrow> u32" where
  "E2K_PROPTAG_TYPE proptag = proptag AND 0xFFFF"

definition E2K_PROPTAG_ID :: "u32 \<Rightarrow> u32" where
  "E2K_PROPTAG_ID proptag = proptag AND 0xFFFF0000"

definition E2K_PT_LONG :: u32 where "E2K_PT_LONG = 0x0003"
definition E2K_PT_BOOLEAN :: u32 where "E2K_PT_BOOLEAN = 0x000b"
definition E2K_PT_STRING8 :: u32 where "E2K_PT_STRING8 = 0x001e"
definition E2K_PT_UNICODE :: u32 where "E2K_PT_UNICODE = 0x001f"
definition E2K_PT_SYSTIME :: u32 where "E2K_PT_SYSTIME = 0x0040"
definition E2K_PT_BINARY :: u32 where "E2K_PT_BINARY = 0x0102"
definition E2K_PT_UNICODE_RULE :: u32 where "E2K_PT_UNICODE_RULE = 0x84b0"

lemmas proptag_consts =
  E2K_PT_LONG_def E2K_PT_BOOLEAN_def E2K_PT_STRING8_def E2K_PT_UNICODE_def
  E2K_PT_SYSTIME_def E2K_PT_BINARY_def E2K_PT_UNICODE_RULE_def

section \<open>The name of a proptag determines the proptag\<close>

lemma slash_not_in_hex: "CHR ''/'' \<notin> set (fmt_x w n)"
proof
  assume "CHR ''/'' \<in> set (fmt_x w n)"
  then have "CHR ''/'' = CHR ''0'' \<or> CHR ''/'' \<in> set (to_base 16 n)"
    using set_pad0 [of w "to_base 16 n"] by (auto simp: fmt_x_def)
  then have "is_base 16 CHR ''/''" using to_base_digits [of 16 n] by auto
  then show False
    by (simp add: is_base_def digit_val_def isdigit_def isupper_def islower_def ch_code_def)
qed

lemma get_div_proptag_prop:
  "get_div (e2k_proptag_prop t) = Some (length E2K_NS_MAPI_PROPTAG - 1)"
proof -
  have "e2k_proptag_prop t = butlast E2K_NS_MAPI_PROPTAG @ CHR ''/'' # CHR ''x'' # fmt_x 8 (unat t)"
    by (simp add: e2k_proptag_prop_def E2K_NS_MAPI_PROPTAG_def)
  moreover have "CHR ''/'' \<notin> set (CHR ''x'' # fmt_x 8 (unat t))"
    using slash_not_in_hex by simp
  ultimately show ?thesis
    by (simp add: get_div_def strrchr_append_tail)
qed

text \<open>
  Naming a MAPI property by its proptag and computing the proptag of the name give the
  proptag back, for every 32-bit proptag.
\<close>

theorem proptag_of_proptag_prop: "e2k_prop_proptag (e2k_proptag_prop t) = Inr t"
proof -
  have "unat t \<le> ULONG_MAX"
    using unsigned_less [of t, where ?'a = nat] by (simp add: ULONG_MAX_def)
  then have "strtoul 16 (fmt_x 8 (unat t)) = (of_nat (unat t), [])"
    using strtoul_pad0 [of 16 "[]" "unat t" 8] by (simp add: fmt_x_def)
  moreover have "e2k_prop_property_name (e2k_proptag_prop t) = Inr (CHR ''x'' # fmt_x 8 (unat t))"
    by (simp add: e2k_prop_property_name_def get_div_proptag_prop)
      (simp add: e2k_proptag_prop_def E2K_NS_MAPI_PROPTAG_def)
  ultimately show ?thesis
    by (simp add: e2k_prop_proptag_def get_propinfo_proptag_def)
qed

end
