(* ===== verification/Times.thy ===== *)
theory Times
  imports C_Text "HOL-Library.Signed_Division"
begin

text \<open>
  Times in server/lib/e2k-utils.c: ISO 8601 time stamps and the two Windows encodings (minutes
  and 100ns intervals since 1601). A \<open>time_t\<close> is an integer, the arithmetic on \<open>unsigned long\<close>,
  \<open>guint32\<close> and \<open>guint64\<close> is kept at its width. \<open>e_mktime_utc\<close> belongs to libedataserver and is
  an argument of the definitions that call it; \<open>gmtime\<close> is the C library's, written out.
\<close>

record tm =
  tm_year :: int
  tm_mon :: int
  tm_mday :: int
  tm_hour :: int
  tm_min :: int
  tm_sec :: int

text \<open>
  The date of a day number (days since 1970-01-01) in the Gregorian calendar: eras of 400 years
  that start on 1 March, their centuries, the 4-year cycles of a century and the years of a
  cycle, the last century and the last year being one day longer.
\<close>

definition year_and_day :: "int \<Rightarrow> int \<times> int" where
  "year_and_day z =
     (let doe = z mod 146097;
          century = min 3 (doe div 36524);
          doc = doe - 36524 * century;
          doq = doc mod 1461;
          yq = min 3 (doq div 365)
      in (400 * (z div 146097) + 100 * century + 4 * (doc div 1461) + yq, doq - 365 * yq))"

definition month_and_day :: "int \<Rightarrow> int \<times> int" where
  "month_and_day doy =
     (let mp = (5 * doy + 2) div 153
      in (if mp < 10 then mp + 3 else mp - 9, doy - (153 * mp + 2) div 5 + 1))"

definition civil_of_days :: "int \<Rightarrow> int \<times> int \<times> int" where
  "civil_of_days days =
     (let (y, doy) = year_and_day (days + 719468); (m, d) = month_and_day doy
      in (if m \<le> 2 then y + 1 else y, m, d))"

definition gmtime :: "int \<Rightarrow> tm" where
  "gmtime t =
     (let (y, m, d) = civil_of_days (t div 86400); s = t mod 86400
      in \<lparr>tm_year = y - 1900, tm_mon = m - 1, tm_mday = d,
          tm_hour = s div 3600, tm_min = s mod 3600 div 60, tm_sec = s mod 60\<rparr>)"

section \<open>Time stamps\<close>

definition e2k_make_timestamp :: "int \<Rightarrow> string" where
  "e2k_make_timestamp when =
     (let tm = gmtime when in
      fmt_d 4 (tm_year tm + 1900) @ ''-'' @ fmt_d 2 (tm_mon tm + 1) @ ''-'' @
      fmt_d 2 (tm_mday tm) @ ''T'' @ fmt_d 2 (tm_hour tm) @ '':'' @
      fmt_d 2 (tm_min tm) @ '':'' @ fmt_d 2 (tm_sec tm) @ ''Z'')"

text \<open>An \<open>unsigned long\<close> stored into an \<open>int\<close> field.\<close>

definition int_of_ulong :: "u64 \<Rightarrow> int" where
  "int_of_ulong v = sint (ucast v :: u32)"

text \<open>
  \<open>if (*timestamp++ != c) return -1;\<close>: \<open>None\<close> is the early return with -1.
\<close>

definition expect :: "char \<Rightarrow> string \<Rightarrow> string option" where
  "expect c s = (case s of x # xs \<Rightarrow> (if x = c then Some xs else None) | [] \<Rightarrow> None)"

definition e2k_parse_timestamp :: "(tm \<Rightarrow> int) \<Rightarrow> string \<Rightarrow> int" where
  "e2k_parse_timestamp e_mktime_utc timestamp =
     (let (year, s) = strtoul 10 timestamp in
      case expect CHR ''-'' s of None \<Rightarrow> -1 | Some s \<Rightarrow>
      let (mon, s) = strtoul 10 s in
      case expect CHR ''-'' s of None \<Rightarrow> -1 | Some s \<Rightarrow>
      let (mday, s) = strtoul 10 s in
      case expect CHR ''T'' s of None \<Rightarrow> -1 | Some s \<Rightarrow>
      let (hour, s) = strtoul 10 s in
      case expect CHR '':'' s of None \<Rightarrow> -1 | Some s \<Rightarrow>
      let (mins, s) = strtoul 10 s in
      case expect CHR '':'' s of None \<Rightarrow> -1 | Some s \<Rightarrow>
      let (sec, s) = strtoul 10 s in
      case s of [] \<Rightarrow> -1 | x # _ \<Rightarrow>
        if x \<noteq> CHR ''.'' \<and> x \<noteq> CHR ''Z'' then -1
        else e_mktime_utc
          \<lparr>tm_year = int_of_ulong (year - 1900), tm_mon = int_of_ulong (mon - 1),
           tm_mday = int_of_ulong mday, tm_hour = int_of_ulong hour,
           tm_min = int_of_ulong mins, tm_sec = int_of_ulong sec\<rparr>)"

definition e2k_rfc822_months :: "string list" where
  "e2k_rfc822_months = [''Jan'', ''Feb'', ''Mar'', ''Apr'', ''May'', ''Jun'',
     ''Jul'', ''Aug'', ''Sep'', ''Oct'', ''Nov'', ''Dec'']"

text \<open>
  \<open>e_localtime_with_offset\<close> of libedataserver, which gives the local time and its offset from UTC in
  seconds, is an argument. \<open>%+05d\<close> prints a sign and at least four digits.
\<close>

definition e2k_make_timestamp_rfc822 :: "(int \<Rightarrow> tm \<times> int) \<Rightarrow> int \<Rightarrow> string" where
  "e2k_make_timestamp_rfc822 e_localtime_with_offset when =
     (let (tm, offset) = e_localtime_with_offset when;
          offset = (offset sdiv 3600) * 100 + (offset sdiv 60) smod 60
      in fmt_d 2 (tm_mday tm) @ '' '' @ e2k_rfc822_months ! nat (tm_mon tm) @ '' '' @
         fmt_d 4 (tm_year tm + 1900) @ '' '' @ fmt_d 2 (tm_hour tm) @ '':'' @ fmt_d 2 (tm_min tm) @ '':'' @
         fmt_d 2 (tm_sec tm) @ '' '' @ (if offset < 0 then ''-'' else ''+'') @ fmt_d 4 \<bar>offset\<bar>)"

section \<open>Windows times\<close>

definition SYSTIME_OFFSET :: u64 where
  "SYSTIME_OFFSET = 194074560"

definition e2k_systime_to_time_t :: "u32 \<Rightarrow> int" where
  "e2k_systime_to_time_t systime = sint ((ucast systime - SYSTIME_OFFSET) * 60)"

definition e2k_systime_from_time_t :: "int \<Rightarrow> u32" where
  "e2k_systime_from_time_t tt = ucast ((of_int (tt sdiv 60) :: u64) + SYSTIME_OFFSET)"

definition e2k_filetime_to_time_t :: "u64 \<Rightarrow> int" where
  "e2k_filetime_to_time_t filetime = sint (filetime div 10000000 - SYSTIME_OFFSET * 60)"

definition e2k_filetime_from_time_t :: "int \<Rightarrow> u64" where
  "e2k_filetime_from_time_t tt = ((of_int tt :: u64) + SYSTIME_OFFSET * 60) * 10000000"

section \<open>Lemmas\<close>

lemma clock_ranges:
  fixes s :: int
  assumes "0 \<le> s" "s < 86400"
  shows "0 \<le> s div 3600" "s div 3600 \<le> 23" "0 \<le> s mod 3600 div 60" "s mod 3600 div 60 \<le> 59"
    "0 \<le> s mod 60" "s mod 60 \<le> 59"
proof -
  show "0 \<le> s div 3600" "0 \<le> s mod 3600 div 60" "0 \<le> s mod 60"
    using assms by (simp_all add: pos_imp_zdiv_nonneg_iff)
  show "s div 3600 \<le> 23" using assms zdiv_mono1 [of s 86399 3600] by simp
  show "s mod 3600 div 60 \<le> 59" using pos_mod_bound [of 3600 s] zdiv_mono1 [of "s mod 3600" 3599 60] by simp
  show "s mod 60 \<le> 59" using pos_mod_bound [of 60 s] by simp
qed

lemma gmtime_clock:
  "tm_hour (gmtime t) = t mod 86400 div 3600"
  "tm_min (gmtime t) = t mod 86400 mod 3600 div 60"
  "tm_sec (gmtime t) = t mod 86400 mod 60"
  unfolding gmtime_def Let_def by (simp_all only: prod.case_eq_if tm.simps)

lemma gmtime_ranges:
  "0 \<le> tm_hour (gmtime t)" "tm_hour (gmtime t) \<le> 23"
  "0 \<le> tm_min (gmtime t)" "tm_min (gmtime t) \<le> 59"
  "0 \<le> tm_sec (gmtime t)" "tm_sec (gmtime t) \<le> 59"
proof -
  have s: "0 \<le> t mod 86400" "t mod 86400 < 86400" by simp_all
  show "0 \<le> tm_hour (gmtime t)" "tm_hour (gmtime t) \<le> 23"
    "0 \<le> tm_min (gmtime t)" "tm_min (gmtime t) \<le> 59"
    "0 \<le> tm_sec (gmtime t)" "tm_sec (gmtime t) \<le> 59"
    unfolding gmtime_clock by (rule clock_ranges [OF s])+
qed

lemma year_and_day_range: "0 \<le> snd (year_and_day z)" "snd (year_and_day z) \<le> 365"
proof -
  define q where "q = (z mod 146097 - 36524 * min 3 (z mod 146097 div 36524)) mod 1461"
  have "snd (year_and_day z) = q - 365 * min 3 (q div 365)"
    by (simp add: year_and_day_def Let_def q_def)
  moreover have "0 \<le> q \<and> q \<le> 1460" by (simp add: q_def)
  moreover have "0 \<le> r - 365 * min 3 (r div 365) \<and> r - 365 * min 3 (r div 365) \<le> 365"
    if "0 \<le> r \<and> r \<le> 1460" for r :: int
  proof (cases "3 \<le> r div 365")
    case True
    then have "1095 \<le> r" by linarith
    with True that show ?thesis by simp
  next
    case False
    have "r - 365 * (r div 365) = r mod 365" by (simp add: minus_mult_div_eq_mod)
    moreover have "0 \<le> r mod 365 \<and> r mod 365 \<le> 365" using pos_mod_bound [of 365 r] by simp
    ultimately show ?thesis using False by simp
  qed
  ultimately show "0 \<le> snd (year_and_day z)" "snd (year_and_day z) \<le> 365" by presburger+
qed

lemma div_bounds:
  fixes x k :: int
  assumes "0 < k"
  shows "k * (x div k) \<le> x" and "x < k * (x div k) + k"
  using assms pos_mod_sign [of k x] pos_mod_bound [of k x] mult_div_mod_eq [of k x] by linarith+

lemma month_and_day_range:
  assumes "0 \<le> doy" "doy \<le> 365"
  shows "1 \<le> fst (month_and_day doy)" "fst (month_and_day doy) \<le> 12"
    "1 \<le> snd (month_and_day doy)" "snd (month_and_day doy) \<le> 31"
proof -
  obtain mp where mp: "mp = (5 * doy + 2) div 153" by simp
  have m: "153 * mp \<le> 5 * doy + 2" "5 * doy + 2 < 153 * mp + 153"
    unfolding mp by (rule div_bounds, simp)+
  have md: "month_and_day doy = (if mp < 10 then mp + 3 else mp - 9, doy - (153 * mp + 2) div 5 + 1)"
    by (simp only: month_and_day_def Let_def mp)
  obtain e where e: "e = (153 * mp + 2) div 5" by simp
  have e': "5 * e \<le> 153 * mp + 2" "153 * mp + 2 < 5 * e + 5"
    unfolding e by (rule div_bounds, simp)+
  have "0 \<le> mp" "mp \<le> 11" using assms m by linarith+
  then show "1 \<le> fst (month_and_day doy)" "fst (month_and_day doy) \<le> 12"
    by (auto simp: md)
  have "e \<le> doy" "doy \<le> e + 30" using m e' by linarith+
  then show "1 \<le> snd (month_and_day doy)" "snd (month_and_day doy) \<le> 31"
    by (simp_all add: md e [symmetric])
qed

lemma civil_ranges:
  assumes "civil_of_days n = (y, m, d)"
  shows "1 \<le> m" "m \<le> 12" "1 \<le> d" "d \<le> 31"
  using assms month_and_day_range [OF year_and_day_range, of "n + 719468"]
  by (auto simp: civil_of_days_def Let_def split: prod.splits)

lemma gmtime_date_ranges:
  "0 \<le> tm_mon (gmtime t)" "tm_mon (gmtime t) \<le> 11" "1 \<le> tm_mday (gmtime t)" "tm_mday (gmtime t) \<le> 31"
proof -
  obtain y m d where "civil_of_days (t div 86400) = (y, m, d)" by (rule prod_cases3)
  with civil_ranges [OF this] show "0 \<le> tm_mon (gmtime t)" "tm_mon (gmtime t) \<le> 11"
    "1 \<le> tm_mday (gmtime t)" "tm_mday (gmtime t) \<le> 31"
    by (simp_all add: gmtime_def Let_def)
qed

lemma strtoul_fmt_d:
  assumes "0 \<le> i" "i < 2 ^ 31" "r = [] \<or> \<not> is_base 10 (hd r)"
  shows "strtoul 10 (fmt_d w i @ r) = (of_int i, r)"
proof -
  have "nat i \<le> ULONG_MAX" using assms by (simp add: ULONG_MAX_def)
  then have "strtoul 10 (pad0 w (to_base 10 (nat i)) @ r) = (of_nat (nat i), r)"
    using assms strtoul_pad0 [of 10 r "nat i" w] by simp
  then show ?thesis using assms by (simp add: fmt_d_def)
qed

lemma int_of_ulong_of_int:
  assumes "- (2 ^ 31) \<le> i" "i < 2 ^ 31"
  shows "int_of_ulong (of_int i) = i"
proof -
  have "sint (of_int i :: u32) = i"
    using assms by (simp add: signed_of_int signed_take_bit_int_eq_self)
  moreover have "(ucast (of_int i :: u64) :: u32) = of_int i"
    by (rule bit_word_eqI) (auto simp: bit_simps)
  ultimately show ?thesis by (simp add: int_of_ulong_def)
qed

lemma not_digit_sep: "\<not> is_base 10 CHR ''-''" "\<not> is_base 10 CHR ''T''" "\<not> is_base 10 CHR '':''"
  "\<not> is_base 10 CHR ''Z''"
  by (simp_all add: is_base_def digit_val_def isdigit_def isupper_def islower_def ch_code_def)

lemma ulong_minus_of_int: "(of_int i :: u64) - numeral k = of_int (i - numeral k)"
  by simp

lemma expect_hit [simp]: "expect c (c # s) = Some s"
  by (simp add: expect_def)

lemma ucast_u64_u32_of_int:
  assumes "0 \<le> k" "k < 2 ^ 32"
  shows "(ucast (ucast (of_int k :: u64) :: u32) :: u64) = of_int k"
proof -
  have a: "(ucast (of_int k :: u64) :: u32) = of_int k"
    by (rule bit_word_eqI) (auto simp: bit_simps)
  have "take_bit 32 k = k" using assms by (simp add: take_bit_int_eq_self)
  then have "(ucast (of_int k :: u32) :: u64) = of_int k"
    using assms by (simp add: unsigned_of_int of_nat_nat)
  then show ?thesis by (simp only: a)
qed

lemma sint_of_int_u64: "- (2 ^ 63) \<le> i \<Longrightarrow> i < 2 ^ 63 \<Longrightarrow> sint (of_int i :: u64) = i"
  by (simp add: signed_of_int signed_take_bit_int_eq_self)

lemma of_nat_mult_div_u64:
  assumes "n * k < 2 ^ 64" "0 < k"
  shows "(of_nat (n * k) :: u64) div of_nat k = of_nat n"
proof (cases "n = 0")
  case False
  then have "k \<le> n * k" by simp
  then have "k < 2 ^ 64" using assms(1) by linarith
  then have "unat (of_nat k :: u64) = k" "unat (of_nat (n * k) :: u64) = n * k"
    using assms(1) unat_of_nat [where 'a = 64, of k] unat_of_nat [where 'a = 64, of "n * k"] by simp_all
  then show ?thesis using assms(2) by (simp add: word_arith_nat_div)
qed simp

section \<open>Properties\<close>

text \<open>
  A time stamp that \<open>e2k_make_timestamp\<close> prints for a time of the years 0 to 9999 is parsed
  by \<open>e2k_parse_timestamp\<close> back to that time, when \<open>e_mktime_utc\<close> inverts \<open>gmtime\<close> at it.
\<close>

theorem parse_make_timestamp:
  assumes year: "0 \<le> tm_year (gmtime t) + 1900" "tm_year (gmtime t) + 1900 \<le> 9999"
    and mktime: "e_mktime_utc (gmtime t) = t"
  shows "e2k_parse_timestamp e_mktime_utc (e2k_make_timestamp t) = t"
proof -
  note r = gmtime_ranges [of t] gmtime_date_ranges [of t]
  note rd = strtoul_fmt_d [where r = "_ # _"] strtoul_fmt_d [where r = "[_]"]
  have fields: "int_of_ulong (of_int (tm_year (gmtime t) + 1900) - 1900) = tm_year (gmtime t)"
    "int_of_ulong (of_int (tm_mon (gmtime t) + 1) - 1) = tm_mon (gmtime t)"
    "int_of_ulong (of_int (tm_mday (gmtime t))) = tm_mday (gmtime t)"
    "int_of_ulong (of_int (tm_hour (gmtime t))) = tm_hour (gmtime t)"
    "int_of_ulong (of_int (tm_min (gmtime t))) = tm_min (gmtime t)"
    "int_of_ulong (of_int (tm_sec (gmtime t))) = tm_sec (gmtime t)"
    using r year by (simp_all add: int_of_ulong_of_int)
  have tm: "\<lparr>tm_year = tm_year (gmtime t), tm_mon = tm_mon (gmtime t), tm_mday = tm_mday (gmtime t),
      tm_hour = tm_hour (gmtime t), tm_min = tm_min (gmtime t), tm_sec = tm_sec (gmtime t)\<rparr> = gmtime t"
    by simp
  have "e2k_parse_timestamp e_mktime_utc (e2k_make_timestamp t) = e_mktime_utc (gmtime t)"
    using r year
    by (simp add: e2k_make_timestamp_def e2k_parse_timestamp_def Let_def rd not_digit_sep fields tm
        del: of_int_add)
  with mktime show ?thesis by simp
qed

theorem parse_make_timestamp_witness:
  "e2k_parse_timestamp (\<lambda>tm. if tm = gmtime 951782400 then 951782400 else -1)
     (e2k_make_timestamp 951782400) = 951782400"
proof -
  have y: "0 \<le> tm_year (gmtime 951782400) + 1900" "tm_year (gmtime 951782400) + 1900 \<le> 9999"
    by code_simp+
  show ?thesis by (rule parse_make_timestamp [OF y]) simp
qed


text \<open>
  Converting a time to minutes since 1601 and back drops the seconds (towards 1970), for
  every time whose minute number fits 32 bits.
\<close>

theorem systime_roundtrip:
  assumes "-194074560 \<le> t sdiv 60" "t sdiv 60 + 194074560 < 2 ^ 32"
  shows "e2k_systime_to_time_t (e2k_systime_from_time_t t) = (t sdiv 60) * 60"
proof -
  define m where "m = t sdiv 60"
  have "(of_int m :: u64) + SYSTIME_OFFSET = of_int (m + 194074560)"
    by (simp add: SYSTIME_OFFSET_def)
  then have "(ucast (e2k_systime_from_time_t t) :: u64) = of_int (m + 194074560)"
    using assms ucast_u64_u32_of_int [of "m + 194074560"]
    by (simp only: e2k_systime_from_time_t_def m_def [symmetric])
  then have "e2k_systime_to_time_t (e2k_systime_from_time_t t) = sint (of_int (m * 60) :: u64)"
    by (simp add: e2k_systime_to_time_t_def SYSTIME_OFFSET_def)
  also have "\<dots> = m * 60"
    using assms by (intro sint_of_int_u64) (simp_all add: m_def [symmetric])
  finally show ?thesis by (simp add: m_def)
qed

theorem systime_roundtrip_witness:
  "e2k_systime_to_time_t (e2k_systime_from_time_t 951782459) = 951782400"
  using systime_roundtrip [of 951782459] by (simp add: signed_divide_int_def)

text \<open>
  A time converted to a Windows FILETIME and back is unchanged, for every time from 1601
  to the end of the FILETIME range.
\<close>

theorem filetime_roundtrip:
  assumes "-11644473600 \<le> t" "(t + 11644473600) * 10000000 < 2 ^ 64"
  shows "e2k_filetime_to_time_t (e2k_filetime_from_time_t t) = t"
proof -
  define n where "n = nat (t + 11644473600)"
  have n: "int n = t + 11644473600" "n * 10000000 < 2 ^ 64"
    using assms by (auto simp: n_def)
  have sum: "(of_int t :: u64) + SYSTIME_OFFSET * 60 = of_nat n"
  proof -
    have "(of_nat n :: u64) = of_int (int n)" by simp
    then show ?thesis by (simp add: SYSTIME_OFFSET_def n(1))
  qed
  have "e2k_filetime_from_time_t t = of_nat (n * 10000000)"
    by (simp add: e2k_filetime_from_time_t_def sum)
  then have "e2k_filetime_to_time_t (e2k_filetime_from_time_t t) = sint (of_nat n - SYSTIME_OFFSET * 60)"
    using of_nat_mult_div_u64 [OF n(2)] by (simp add: e2k_filetime_to_time_t_def)
  also have "of_nat n - SYSTIME_OFFSET * 60 = (of_int t :: u64)"
    using sum by (simp add: diff_eq_eq)
  also have "sint (of_int t :: u64) = t"
    using assms by (intro sint_of_int_u64) simp_all
  finally show ?thesis .
qed

theorem filetime_roundtrip_witness:
  "e2k_filetime_to_time_t (e2k_filetime_from_time_t (-5)) = -5"
  by (rule filetime_roundtrip) simp_all

end
