(* ===== verification/Rule_Codec.thy ===== *)
theory Rule_Codec
  imports Cursor Properties Times
begin

text \<open>
  The primitives of server/lib/e2k-rule.c that read and write the binary form of server-side
  rules: bytes, little-endian words, strings, UTF-16 strings, binary blobs, proptags and
  property values. Writers append to a byte array, readers move a cursor. GLib's conversions
  between UTF-8 and UTF-16 are an argument (\<open>utf_conv\<close>); a 16-bit unit has the host's byte
  order in the code and is little-endian here. Each pair is shown to form a \<open>codec\<close> and each
  reader to be a \<open>safe_reader\<close>.
\<close>

section \<open>Data\<close>

record rule_prop =
  rp_name :: string
  rp_proptag :: u32

datatype e2k_prop_type =
    PT_UNKNOWN | PT_STRING | PT_BINARY | PT_STRING_ARRAY | PT_BINARY_ARRAY | PT_XML
  | PT_INT | PT_INT_ARRAY | PT_BOOL | PT_FLOAT | PT_DATE

text \<open>
  The \<open>gpointer\<close> of a property value: a string, a byte array, or an integer stored in the
  pointer itself, \<open>PInt 0\<close> being \<open>NULL\<close>.
\<close>

datatype pvalue = PInt u32 | PStr string | PBin "byte list"

record propvalue =
  pv_prop :: rule_prop
  pv_type :: e2k_prop_type
  pv_value :: pvalue

record utf_conv =
  utf8_to_utf16 :: "string \<Rightarrow> u16 list option"
  utf16_to_utf8 :: "u16 list \<Rightarrow> string option"

definition e2k_rule_prop_set :: "string \<Rightarrow> rule_prop result" where
  "e2k_rule_prop_set propname = ok_bind (e2k_prop_proptag propname) (\<lambda>tag.
     Inr \<lparr>rp_name = propname, rp_proptag = tag\<rparr>)"

section \<open>Words, bytes and strings\<close>

definition e2k_rule_write_uint32 :: "u32 \<Rightarrow> byte list" where
  "e2k_rule_write_uint32 val = le32 val"

definition e2k_rule_append_uint32 :: "byte list \<Rightarrow> u32 \<Rightarrow> byte list" where
  "e2k_rule_append_uint32 ba val = ba @ e2k_rule_write_uint32 val"

definition e2k_rule_read_uint32 :: "byte list \<Rightarrow> u32 result" where
  "e2k_rule_read_uint32 ptr = (case ptr of
     a # b # c # d # _ \<Rightarrow> Inr (of_le32 a b c d)
   | _ \<Rightarrow> Inl Undefined)"

definition e2k_rule_extract_uint32 :: "u32 reader" where
  "e2k_rule_extract_uint32 c =
     (if clen c < 4 then Inl Rejected
      else ok_bind (e2k_rule_read_uint32 (rest c)) (\<lambda>v. Inr (v, advance 4 c)))"

definition e2k_rule_write_uint16 :: "u16 \<Rightarrow> byte list" where
  "e2k_rule_write_uint16 val = le16 val"

definition e2k_rule_append_uint16 :: "byte list \<Rightarrow> u16 \<Rightarrow> byte list" where
  "e2k_rule_append_uint16 ba val = ba @ e2k_rule_write_uint16 val"

definition e2k_rule_read_uint16 :: "byte list \<Rightarrow> u16 result" where
  "e2k_rule_read_uint16 ptr = (case ptr of a # b # _ \<Rightarrow> Inr (of_le16 a b) | _ \<Rightarrow> Inl Undefined)"

definition e2k_rule_extract_uint16 :: "u16 reader" where
  "e2k_rule_extract_uint16 c =
     (if clen c < 2 then Inl Rejected
      else ok_bind (e2k_rule_read_uint16 (rest c)) (\<lambda>v. Inr (v, advance 2 c)))"

definition e2k_rule_append_byte :: "byte list \<Rightarrow> byte \<Rightarrow> byte list" where
  "e2k_rule_append_byte ba val = ba @ [val]"

definition e2k_rule_extract_byte :: "byte reader" where
  "e2k_rule_extract_byte c =
     (if clen c < 1 then Inl Rejected
      else (case rest c of b # _ \<Rightarrow> Inr (b, advance 1 c) | [] \<Rightarrow> Inl Undefined))"

definition e2k_rule_append_string :: "byte list \<Rightarrow> string \<Rightarrow> byte list" where
  "e2k_rule_append_string ba str = ba @ cbytes str @ [0]"

text \<open>The loop over \<open>slen\<close>: the bytes from \<open>slen\<close> on and how many of them the length covers.\<close>

fun string_scan :: "byte list \<Rightarrow> nat \<Rightarrow> nat result" where
  "string_scan bs 0 = Inl Rejected"
| "string_scan [] (Suc n) = Inl Undefined"
| "string_scan (b # bs) (Suc n) =
     (if b = 0 then Inr 0 else ok_bind (string_scan bs n) (\<lambda>k. Inr (Suc k)))"

definition e2k_rule_extract_string :: "string reader" where
  "e2k_rule_extract_string c =
     ok_bind (string_scan (rest c) (nat (clen c))) (\<lambda>slen.
       Inr (chars (take slen (rest c)), advance (Suc slen) c))"

definition e2k_rule_append_unicode :: "utf_conv \<Rightarrow> byte list \<Rightarrow> string \<Rightarrow> byte list" where
  "e2k_rule_append_unicode G ba str = (case utf8_to_utf16 G str of
     None \<Rightarrow> ba
   | Some utf16 \<Rightarrow> e2k_rule_append_uint16
       (foldl e2k_rule_append_uint16 ba (takeWhile (\<lambda>u. u \<noteq> 0) utf16)) 0)"

text \<open>
  The loop of \<open>e2k_rule_extract_unicode\<close>: the bytes from \<open>*ptr\<close> on and \<open>end - *ptr\<close>. The result
  is the units before the terminator.
\<close>

fun unicode_scan :: "byte list \<Rightarrow> nat \<Rightarrow> u16 list result" where
  "unicode_scan (a # b # bs) (Suc (Suc n)) =
     (if a = 0 \<and> b = 0 then Inr []
      else ok_bind (unicode_scan bs n) (\<lambda>us. Inr (of_le16 a b # us)))"
| "unicode_scan bs (Suc (Suc n)) = Inl Undefined"
| "unicode_scan bs n = Inl Rejected"

definition e2k_rule_extract_unicode :: "utf_conv \<Rightarrow> pvalue reader" where
  "e2k_rule_extract_unicode G c =
     ok_bind (unicode_scan (rest c) (nat (clen c))) (\<lambda>utf16.
       Inr (case utf16_to_utf8 G utf16 of Some s \<Rightarrow> PStr s | None \<Rightarrow> PInt 0,
            advance (2 * length utf16 + 2) c))"

definition e2k_rule_append_binary :: "byte list \<Rightarrow> byte list \<Rightarrow> byte list" where
  "e2k_rule_append_binary ba data = e2k_rule_append_uint16 ba (of_nat (length data)) @ data"

definition e2k_rule_extract_binary :: "byte list reader" where
  "e2k_rule_extract_binary =
     and_then e2k_rule_extract_uint16 (\<lambda>datalen c.
       if clen c < int (unat datalen) then Inl Rejected else read_bytes (unat datalen) c)"

section \<open>Proptags and property values\<close>

definition is_string_tag :: "u32 \<Rightarrow> bool" where
  "is_string_tag t \<longleftrightarrow> E2K_PROPTAG_TYPE t = E2K_PT_STRING8 \<or> E2K_PROPTAG_TYPE t = E2K_PT_UNICODE"

definition e2k_rule_append_proptag :: "byte list \<Rightarrow> rule_prop \<Rightarrow> byte list" where
  "e2k_rule_append_proptag ba prop =
     (let proptag = rp_proptag prop;
          proptag = (if is_string_tag proptag then E2K_PROPTAG_ID proptag OR E2K_PT_UNICODE_RULE
                     else proptag)
      in e2k_rule_append_uint32 ba proptag)"

definition e2k_rule_extract_proptag :: "rule_prop reader" where
  "e2k_rule_extract_proptag =
     and_then e2k_rule_extract_uint32 (\<lambda>t.
       let proptag = (if E2K_PROPTAG_TYPE t = E2K_PT_UNICODE_RULE
                      then E2K_PROPTAG_ID t OR E2K_PT_UNICODE else t)
       in ret \<lparr>rp_name = e2k_proptag_prop proptag, rp_proptag = proptag\<rparr>)"

definition e2k_rule_append_propvalue :: "utf_conv \<Rightarrow> propvalue writer" where
  "e2k_rule_append_propvalue G ba pv =
     (if rp_proptag (pv_prop pv) = 0 then Inr ba
      else
        let ba = e2k_rule_append_proptag ba (pv_prop pv);
            ty = E2K_PROPTAG_TYPE (rp_proptag (pv_prop pv))
        in if ty = E2K_PT_UNICODE \<or> ty = E2K_PT_STRING8 then
             (case pv_value pv of
                PStr s \<Rightarrow> Inr (e2k_rule_append_unicode G ba s)
              | PInt w \<Rightarrow> (if w = 0 then Inr ba else Inl Undefined)
              | PBin _ \<Rightarrow> Inl Undefined)
           else if ty = E2K_PT_BINARY then
             (case pv_value pv of PBin d \<Rightarrow> Inr (e2k_rule_append_binary ba d) | _ \<Rightarrow> Inl Undefined)
           else if ty = E2K_PT_LONG then
             (case pv_value pv of PInt w \<Rightarrow> Inr (e2k_rule_append_uint32 ba w) | _ \<Rightarrow> Inl Undefined)
           else if ty = E2K_PT_BOOLEAN then
             (case pv_value pv of PInt w \<Rightarrow> Inr (e2k_rule_append_byte ba (ucast w)) | _ \<Rightarrow> Inl Undefined)
           else Inr ba)"

definition extract_systime :: "pvalue reader" where
  "extract_systime c =
     (if clen c < 8 then Inl Rejected
      else ok_bind (read_bytes 8 c) (\<lambda>(bs, c').
        Inr (PStr (e2k_make_timestamp (e2k_filetime_to_time_t (of_le64 bs))), c')))"

definition e2k_rule_extract_propvalue :: "utf_conv \<Rightarrow> propvalue reader" where
  "e2k_rule_extract_propvalue G =
     and_then e2k_rule_extract_proptag (\<lambda>prop.
       let ty = E2K_PROPTAG_TYPE (rp_proptag prop);
           done = (\<lambda>pt v. ret \<lparr>pv_prop = prop, pv_type = pt, pv_value = v\<rparr>)
       in if ty = E2K_PT_UNICODE \<or> ty = E2K_PT_STRING8 then
            and_then (e2k_rule_extract_unicode G) (done PT_STRING)
          else if ty = E2K_PT_BINARY then
            and_then e2k_rule_extract_binary (\<lambda>d. done PT_BINARY (PBin d))
          else if ty = E2K_PT_SYSTIME then and_then extract_systime (done PT_DATE)
          else if ty = E2K_PT_LONG then
            and_then e2k_rule_extract_uint32 (\<lambda>w. done PT_INT (PInt w))
          else if ty = E2K_PT_BOOLEAN then
            and_then e2k_rule_extract_byte (\<lambda>b. done PT_BOOL (PInt (ucast b)))
          else reject)"

section \<open>The readers stay inside the buffer\<close>

lemma bounded_take_cases:
  "bounded c \<Longrightarrow> int n \<le> clen c \<Longrightarrow> n \<le> length (rest c)"
  by (simp add: bounded_def)

lemma safe_uint32: "safe_reader e2k_rule_extract_uint32"
proof
  fix c assume b: "bounded c"
  have r: "\<exists>v. e2k_rule_read_uint32 (rest c) = Inr v" if "\<not> clen c < 4"
  proof -
    have "4 \<le> length (rest c)" using that b by (simp add: bounded_def)
    then show ?thesis
      by (auto simp: e2k_rule_read_uint32_def numeral_eq_Suc Suc_le_length_iff)
  qed
  then show "e2k_rule_extract_uint32 c \<noteq> Inl Undefined"
    by (auto simp: e2k_rule_extract_uint32_def)
  fix x c' assume "e2k_rule_extract_uint32 c = Inr (x, c')"
  then show "\<exists>k. int k \<le> clen c \<and> c' = advance k c"
    using r by (auto simp: e2k_rule_extract_uint32_def split: if_splits intro!: exI [of _ 4])
qed

lemma safe_uint16: "safe_reader e2k_rule_extract_uint16"
proof
  fix c assume b: "bounded c"
  have r: "\<exists>v. e2k_rule_read_uint16 (rest c) = Inr v" if "\<not> clen c < 2"
  proof -
    have "2 \<le> length (rest c)" using that b by (simp add: bounded_def)
    then show ?thesis
      by (auto simp: e2k_rule_read_uint16_def numeral_eq_Suc Suc_le_length_iff)
  qed
  then show "e2k_rule_extract_uint16 c \<noteq> Inl Undefined"
    by (auto simp: e2k_rule_extract_uint16_def)
  fix x c' assume "e2k_rule_extract_uint16 c = Inr (x, c')"
  then show "\<exists>k. int k \<le> clen c \<and> c' = advance k c"
    using r by (auto simp: e2k_rule_extract_uint16_def split: if_splits intro!: exI [of _ 2])
qed

lemma safe_byte: "safe_reader e2k_rule_extract_byte"
  by unfold_locales
    (auto simp: e2k_rule_extract_byte_def bounded_def split: if_splits list.splits intro!: exI [of _ 1])

lemma string_scan_bound: "string_scan bs n = Inr k \<Longrightarrow> k < n"
  by (induction bs n arbitrary: k rule: string_scan.induct) (auto simp: ok_bind_eq_Inr split: if_splits)

lemma string_scan_defined: "n \<le> length bs \<Longrightarrow> string_scan bs n \<noteq> Inl Undefined"
  by (induction bs n rule: string_scan.induct) (auto simp: ok_bind_eq_Inl)

lemma safe_string: "safe_reader e2k_rule_extract_string"
proof
  fix c assume b: "bounded c"
  then have "nat (clen c) \<le> length (rest c)" by (rule bounded_nat)
  then show "e2k_rule_extract_string c \<noteq> Inl Undefined"
    using string_scan_defined by (auto simp: e2k_rule_extract_string_def ok_bind_eq_Inl)
  fix x c' assume "e2k_rule_extract_string c = Inr (x, c')"
  then obtain k where "string_scan (rest c) (nat (clen c)) = Inr k" "c' = advance (Suc k) c"
    by (auto simp: e2k_rule_extract_string_def ok_bind_eq_Inr)
  then show "\<exists>k. int k \<le> clen c \<and> c' = advance k c"
    using string_scan_bound [of "rest c" "nat (clen c)" k] by (auto intro!: exI [of _ "Suc k"])
qed

lemma unicode_scan_bound: "unicode_scan bs n = Inr us \<Longrightarrow> 2 * length us + 2 \<le> n"
  by (induction bs n arbitrary: us rule: unicode_scan.induct) (auto simp: ok_bind_eq_Inr split: if_splits)

lemma unicode_scan_defined: "n \<le> length bs \<Longrightarrow> unicode_scan bs n \<noteq> Inl Undefined"
  by (induction bs n rule: unicode_scan.induct) (auto simp: ok_bind_eq_Inl)

lemma safe_unicode: "safe_reader (e2k_rule_extract_unicode G)"
proof
  fix c assume b: "bounded c"
  then have "nat (clen c) \<le> length (rest c)" by (rule bounded_nat)
  then show "e2k_rule_extract_unicode G c \<noteq> Inl Undefined"
    using unicode_scan_defined by (auto simp: e2k_rule_extract_unicode_def ok_bind_eq_Inl)
  fix x c' assume "e2k_rule_extract_unicode G c = Inr (x, c')"
  then obtain us where "unicode_scan (rest c) (nat (clen c)) = Inr us" "c' = advance (2 * length us + 2) c"
    by (auto simp: e2k_rule_extract_unicode_def ok_bind_eq_Inr)
  then show "\<exists>k. int k \<le> clen c \<and> c' = advance k c"
    using unicode_scan_bound [of "rest c" "nat (clen c)" us] by (intro exI [of _ "2 * length us + 2"]) auto
qed

lemma safe_read_bytes: "safe_reader (\<lambda>c. if clen c < int n then Inl Rejected else read_bytes n c)"
  by unfold_locales (auto simp: read_bytes_def bounded_def split: if_splits intro!: exI [of _ n])

lemma safe_binary: "safe_reader e2k_rule_extract_binary"
  unfolding e2k_rule_extract_binary_def
  by (intro safe_and_then safe_uint16 safe_read_bytes)

lemma safe_proptag: "safe_reader e2k_rule_extract_proptag"
  unfolding e2k_rule_extract_proptag_def Let_def
  by (intro safe_and_then safe_uint32 safe_ret)

lemma safe_systime: "safe_reader extract_systime"
  by unfold_locales
    (auto simp: extract_systime_def read_bytes_def bounded_def split: if_splits intro!: exI [of _ 8])

lemma safe_propvalue: "safe_reader (e2k_rule_extract_propvalue G)"
  unfolding e2k_rule_extract_propvalue_def Let_def
  by (intro safe_intros safe_proptag safe_unicode safe_binary safe_systime safe_uint32 safe_byte)

text \<open>None of them needs fuel.\<close>

lemma fuel_uint32: "no_fuel e2k_rule_extract_uint32"
  by (rule no_fuelI)
    (auto simp: e2k_rule_extract_uint32_def e2k_rule_read_uint32_def ok_bind_eq_Inl split: list.splits)

lemma fuel_uint16: "no_fuel e2k_rule_extract_uint16"
  by (rule no_fuelI)
    (auto simp: e2k_rule_extract_uint16_def e2k_rule_read_uint16_def ok_bind_eq_Inl split: list.splits)

lemma fuel_byte: "no_fuel e2k_rule_extract_byte"
  by (rule no_fuelI) (auto simp: e2k_rule_extract_byte_def split: list.splits)

lemma string_scan_fuel: "string_scan bs n \<noteq> Inl Out_of_fuel"
  by (induction bs n rule: string_scan.induct) (auto simp: ok_bind_eq_Inl)

lemma fuel_string: "no_fuel e2k_rule_extract_string"
  by (rule no_fuelI) (simp add: e2k_rule_extract_string_def ok_bind_eq_Inl string_scan_fuel)

lemma unicode_scan_fuel: "unicode_scan bs n \<noteq> Inl Out_of_fuel"
  by (induction bs n rule: unicode_scan.induct) (auto simp: ok_bind_eq_Inl)

lemma fuel_unicode: "no_fuel (e2k_rule_extract_unicode G)"
  by (rule no_fuelI) (simp add: e2k_rule_extract_unicode_def ok_bind_eq_Inl unicode_scan_fuel)

lemma fuel_read_bytes: "no_fuel (\<lambda>c. if clen c < int k then Inl Rejected else read_bytes k c)"
  by (rule no_fuelI) (simp add: read_bytes_def)

lemma fuel_binary: "no_fuel e2k_rule_extract_binary"
  unfolding e2k_rule_extract_binary_def
  by (intro no_fuel_and_then fuel_uint16 fuel_read_bytes)

lemma fuel_proptag: "no_fuel e2k_rule_extract_proptag"
  unfolding e2k_rule_extract_proptag_def Let_def
  by (intro no_fuel_intros fuel_uint32)

lemma fuel_systime: "no_fuel extract_systime"
  by (rule no_fuelI) (simp add: extract_systime_def read_bytes_def ok_bind_eq_Inl)

lemma fuel_propvalue: "no_fuel (e2k_rule_extract_propvalue G)"
  unfolding e2k_rule_extract_propvalue_def Let_def
  by (intro no_fuel_intros fuel_proptag
      fuel_unicode fuel_binary fuel_systime fuel_uint32 fuel_byte)

lemmas safe_primitives = safe_uint32 safe_uint16 safe_byte safe_string safe_unicode safe_binary
  safe_proptag safe_propvalue
lemmas fuel_primitives = fuel_uint32 fuel_uint16 fuel_byte fuel_string fuel_unicode fuel_binary
  fuel_proptag fuel_propvalue
lemmas enough_primitives = fuel_primitives [THEN fuel_no_fuel]

section \<open>The wire format\<close>

text \<open>
  The bytes of each kind of value, the values the format can carry and what reading one back
  gives: a string tag is written with the type \<open>0x84b0\<close> and read back as \<open>PT_UNICODE\<close>.
\<close>

definition wire_string :: "string \<Rightarrow> byte list" where
  "wire_string s = cbytes s @ [0]"

definition utf_ok :: "utf_conv \<Rightarrow> string \<Rightarrow> bool" where
  "utf_ok G s \<longleftrightarrow> (case utf8_to_utf16 G s of
     Some us \<Rightarrow> 0 \<notin> set us \<and> utf16_to_utf8 G us = Some s
   | None \<Rightarrow> False)"

definition wire_unicode :: "utf_conv \<Rightarrow> string \<Rightarrow> byte list" where
  "wire_unicode G s = concat (map le16 (the (utf8_to_utf16 G s))) @ [0, 0]"

definition wire_binary :: "byte list \<Rightarrow> byte list" where
  "wire_binary d = le16 (of_nat (length d)) @ d"

definition wire_proptag :: "rule_prop \<Rightarrow> byte list" where
  "wire_proptag p = le32 (if is_string_tag (rp_proptag p)
     then E2K_PROPTAG_ID (rp_proptag p) OR E2K_PT_UNICODE_RULE else rp_proptag p)"

definition canon_tag :: "u32 \<Rightarrow> u32" where
  "canon_tag t = (if is_string_tag t then E2K_PROPTAG_ID t OR E2K_PT_UNICODE else t)"

definition wf_prop :: "rule_prop \<Rightarrow> bool" where
  "wf_prop p \<longleftrightarrow> E2K_PROPTAG_TYPE (rp_proptag p) \<noteq> E2K_PT_UNICODE_RULE"

definition canon_prop :: "rule_prop \<Rightarrow> rule_prop" where
  "canon_prop p = \<lparr>rp_name = e2k_proptag_prop (canon_tag (rp_proptag p)), rp_proptag = canon_tag (rp_proptag p)\<rparr>"

definition pv_tag_type :: "propvalue \<Rightarrow> u32" where
  "pv_tag_type pv = E2K_PROPTAG_TYPE (rp_proptag (pv_prop pv))"

definition wire_value :: "utf_conv \<Rightarrow> pvalue \<Rightarrow> u32 \<Rightarrow> byte list" where
  "wire_value G v ty = (case v of
     PStr s \<Rightarrow> wire_unicode G s
   | PBin d \<Rightarrow> wire_binary d
   | PInt w \<Rightarrow> (if ty = E2K_PT_LONG then le32 w else [ucast w]))"

definition wire_propvalue :: "utf_conv \<Rightarrow> propvalue \<Rightarrow> byte list" where
  "wire_propvalue G pv = wire_proptag (pv_prop pv) @ wire_value G (pv_value pv) (pv_tag_type pv)"

text \<open>The tag type and the value agree, and the value fits its field.\<close>

definition wf_propvalue :: "utf_conv \<Rightarrow> propvalue \<Rightarrow> bool" where
  "wf_propvalue G pv \<longleftrightarrow> (case pv_value pv of
     PStr s \<Rightarrow> is_string_tag (rp_proptag (pv_prop pv)) \<and> utf_ok G s
   | PBin d \<Rightarrow> pv_tag_type pv = E2K_PT_BINARY \<and> length d < 65536
   | PInt w \<Rightarrow> pv_tag_type pv = E2K_PT_LONG \<or> pv_tag_type pv = E2K_PT_BOOLEAN \<and> w < 256)"

definition canon_type :: "u32 \<Rightarrow> e2k_prop_type" where
  "canon_type ty =
     (if ty = E2K_PT_UNICODE \<or> ty = E2K_PT_STRING8 then PT_STRING
      else if ty = E2K_PT_BINARY then PT_BINARY
      else if ty = E2K_PT_LONG then PT_INT
      else PT_BOOL)"

definition canon_propvalue :: "propvalue \<Rightarrow> propvalue" where
  "canon_propvalue pv =
     \<lparr>pv_prop = canon_prop (pv_prop pv), pv_type = canon_type (pv_tag_type pv), pv_value = pv_value pv\<rparr>"

lemma tag_type_or: "c AND 0xFFFF = c \<Longrightarrow> E2K_PROPTAG_TYPE (E2K_PROPTAG_ID t OR c) = c"
  by (simp add: E2K_PROPTAG_TYPE_def E2K_PROPTAG_ID_def bit.conj_disj_distrib2 and.assoc)

lemma tag_id_or: "c AND 0xFFFF0000 = 0 \<Longrightarrow> E2K_PROPTAG_ID (E2K_PROPTAG_ID t OR c) = E2K_PROPTAG_ID t"
  by (simp add: E2K_PROPTAG_ID_def bit.conj_disj_distrib2 and.assoc)

lemma rule_tag_type [simp]: "E2K_PROPTAG_TYPE (E2K_PROPTAG_ID t OR E2K_PT_UNICODE_RULE) = E2K_PT_UNICODE_RULE"
  by (rule tag_type_or) (simp add: E2K_PT_UNICODE_RULE_def)

lemma rule_tag_id [simp]: "E2K_PROPTAG_ID (E2K_PROPTAG_ID t OR E2K_PT_UNICODE_RULE) = E2K_PROPTAG_ID t"
  by (rule tag_id_or) (simp add: E2K_PT_UNICODE_RULE_def)

lemma unicode_tag_type [simp]: "E2K_PROPTAG_TYPE (E2K_PROPTAG_ID t OR E2K_PT_UNICODE) = E2K_PT_UNICODE"
  by (rule tag_type_or) (simp add: E2K_PT_UNICODE_def)

lemma canon_tag_type: "E2K_PROPTAG_TYPE (canon_tag t) = (if is_string_tag t then E2K_PT_UNICODE else E2K_PROPTAG_TYPE t)"
  by (simp add: canon_tag_def)

lemma tag_type_distinct [simp]:
  "E2K_PT_UNICODE \<noteq> E2K_PT_STRING8" "E2K_PT_UNICODE \<noteq> E2K_PT_BINARY" "E2K_PT_UNICODE \<noteq> E2K_PT_LONG"
  "E2K_PT_UNICODE \<noteq> E2K_PT_BOOLEAN" "E2K_PT_BINARY \<noteq> E2K_PT_STRING8" "E2K_PT_BINARY \<noteq> E2K_PT_UNICODE"
  "E2K_PT_LONG \<noteq> E2K_PT_STRING8" "E2K_PT_LONG \<noteq> E2K_PT_UNICODE" "E2K_PT_LONG \<noteq> E2K_PT_BINARY"
  "E2K_PT_BOOLEAN \<noteq> E2K_PT_STRING8" "E2K_PT_BOOLEAN \<noteq> E2K_PT_UNICODE" "E2K_PT_BOOLEAN \<noteq> E2K_PT_BINARY"
  "E2K_PT_BOOLEAN \<noteq> E2K_PT_LONG" "E2K_PT_LONG \<noteq> E2K_PT_BOOLEAN"
  "E2K_PT_STRING8 \<noteq> E2K_PT_BINARY" "E2K_PT_STRING8 \<noteq> E2K_PT_LONG" "E2K_PT_STRING8 \<noteq> E2K_PT_BOOLEAN"
  "E2K_PT_UNICODE \<noteq> E2K_PT_UNICODE_RULE" "E2K_PT_STRING8 \<noteq> E2K_PT_UNICODE_RULE"
  "E2K_PT_BINARY \<noteq> E2K_PT_UNICODE_RULE" "E2K_PT_LONG \<noteq> E2K_PT_UNICODE_RULE"
  "E2K_PT_BOOLEAN \<noteq> E2K_PT_UNICODE_RULE"
  "E2K_PT_BINARY \<noteq> E2K_PT_SYSTIME" "E2K_PT_LONG \<noteq> E2K_PT_SYSTIME" "E2K_PT_BOOLEAN \<noteq> E2K_PT_SYSTIME"
  by (simp_all add: proptag_consts)

lemma tag_nonzero: "E2K_PROPTAG_TYPE t = c \<Longrightarrow> c \<noteq> 0 \<Longrightarrow> t \<noteq> 0"
  by (auto simp: E2K_PROPTAG_TYPE_def)

lemma tag_type_nonzero [simp]:
  "E2K_PT_UNICODE \<noteq> 0" "E2K_PT_STRING8 \<noteq> 0" "E2K_PT_BINARY \<noteq> 0" "E2K_PT_LONG \<noteq> 0" "E2K_PT_BOOLEAN \<noteq> 0"
  by (simp_all add: proptag_consts)

section \<open>Writers and readers form codecs\<close>

lemma extract_uint32_wire [result_simps]:
  "4 \<le> n \<Longrightarrow> e2k_rule_extract_uint32 \<lparr>rest = le32 v @ r, clen = n\<rparr> = Inr (v, \<lparr>rest = r, clen = n - 4\<rparr>)"
  by (simp add: e2k_rule_extract_uint32_def e2k_rule_read_uint32_def le32_alt advance_def)

lemma extract_uint16_wire [result_simps]:
  "2 \<le> n \<Longrightarrow> e2k_rule_extract_uint16 \<lparr>rest = le16 v @ r, clen = n\<rparr> = Inr (v, \<lparr>rest = r, clen = n - 2\<rparr>)"
  by (simp add: e2k_rule_extract_uint16_def e2k_rule_read_uint16_def le16_alt advance_def)

lemma extract_byte_wire [result_simps]:
  "1 \<le> n \<Longrightarrow> e2k_rule_extract_byte \<lparr>rest = b # r, clen = n\<rparr> = Inr (b, \<lparr>rest = r, clen = n - 1\<rparr>)"
  by (simp add: e2k_rule_extract_byte_def advance_def)

lemma read_bytes_wire [result_simps]:
  "n = length bs \<Longrightarrow> read_bytes n \<lparr>rest = bs @ r, clen = l\<rparr> = Inr (bs, \<lparr>rest = r, clen = l - int n\<rparr>)"
  by (simp add: read_bytes_def advance_def)

interpretation uint32_codec: codec "\<lambda>ba v. Inr (e2k_rule_append_uint32 ba v)" e2k_rule_extract_uint32
    le32 "\<lambda>_. True" "\<lambda>v. v"
  by unfold_locales
    (simp_all add: e2k_rule_append_uint32_def e2k_rule_write_uint32_def result_simps)

interpretation uint16_codec: codec "\<lambda>ba v. Inr (e2k_rule_append_uint16 ba v)" e2k_rule_extract_uint16
    le16 "\<lambda>_. True" "\<lambda>v. v"
  by unfold_locales
    (simp_all add: e2k_rule_append_uint16_def e2k_rule_write_uint16_def result_simps)

lemma string_scan_wire:
  "0 \<notin> set bs \<Longrightarrow> length bs < n \<Longrightarrow> string_scan (bs @ 0 # r) n = Inr (length bs)"
proof (induction bs arbitrary: n)
  case Nil
  then show ?case by (cases n) auto
next
  case (Cons b bs)
  then show ?case by (cases n) auto
qed

interpretation string_codec: codec "\<lambda>ba v. Inr (e2k_rule_append_string ba v)" e2k_rule_extract_string
    wire_string is_cstring "\<lambda>v. v"
proof
  fix s :: string and n :: int and r assume "is_cstring s" "int (length (wire_string s)) \<le> n"
  then have "string_scan (cbytes s @ 0 # r) (nat n) = Inr (length s)"
    using string_scan_wire [of "cbytes s" "nat n" r] by (simp add: wire_string_def)
  then show "e2k_rule_extract_string \<lparr>rest = wire_string s @ r, clen = n\<rparr> =
      Inr (s, \<lparr>rest = r, clen = n - int (length (wire_string s))\<rparr>)"
    by (simp add: e2k_rule_extract_string_def wire_string_def advance_def)
qed (simp add: e2k_rule_append_string_def wire_string_def)

lemma append_units:
  "foldl e2k_rule_append_uint16 ba us = ba @ concat (map le16 us)"
  by (induction us arbitrary: ba) (auto simp: e2k_rule_append_uint16_def e2k_rule_write_uint16_def)

lemma le16_eq_0: "le16 u = [0, 0] \<longleftrightarrow> u = 0"
proof
  assume "le16 u = [0, 0]"
  then have "(ucast u :: byte) = 0" "(ucast (drop_bit 8 u) :: byte) = 0" by (simp_all add: le16_alt)
  then show "u = 0" using of_le16_bytes [of u] by (simp only: of_le16_def) simp
qed (simp add: le16_alt)

lemma append_uint16_wire: "e2k_rule_append_uint16 ba u = ba @ le16 u"
  by (simp add: e2k_rule_append_uint16_def e2k_rule_write_uint16_def)

lemma le16_zero: "le16 0 = [0, 0]"
  by (simp add: le16_eq_0)

lemma unicode_scan_wire:
  "0 \<notin> set us \<Longrightarrow> 2 * length us + 2 \<le> n \<Longrightarrow> unicode_scan (concat (map le16 us) @ 0 # 0 # r) n = Inr us"
proof (induction us arbitrary: n)
  case Nil
  then obtain m where "n = Suc (Suc m)" by (metis add_2_eq_Suc le_Suc_ex list.size(3) mult_0_right add_0)
  then show ?case by simp
next
  case (Cons u us)
  then obtain m where m: "n = Suc (Suc m)" by (metis add_2_eq_Suc add.commute le_Suc_ex add.assoc)
  have nz: "\<not> ((ucast u :: byte) = 0 \<and> (ucast (drop_bit 8 u) :: byte) = 0)"
    using Cons.prems(1) le16_eq_0 [of u] by (simp add: le16_alt)
  have "unicode_scan (concat (map le16 us) @ 0 # 0 # r) m = Inr us"
    using Cons m by auto
  moreover have "concat (map le16 (u # us)) @ 0 # 0 # r =
      ucast u # ucast (drop_bit 8 u) # concat (map le16 us) @ 0 # 0 # r"
    using le16_alt [of u] by simp
  ultimately show ?case using nz m by (simp only: unicode_scan.simps ok_bind_Inr of_le16_bytes if_False)
qed

lemma length_wire_unicode:
  "utf8_to_utf16 G s = Some us \<Longrightarrow> length (wire_unicode G s) = 2 * length us + 2"
  using length_concat_map_const [of us le16 2] by (simp add: wire_unicode_def)

lemma append_unicode_wire:
  "utf_ok G s \<Longrightarrow> e2k_rule_append_unicode G ba s = ba @ wire_unicode G s"
proof -
  assume "utf_ok G s"
  then obtain us where us: "utf8_to_utf16 G s = Some us" "0 \<notin> set us"
    by (auto simp: utf_ok_def split: option.splits)
  then have "\<forall>u \<in> set us. u \<noteq> 0" by blast
  then show "e2k_rule_append_unicode G ba s = ba @ wire_unicode G s"
    by (simp add: e2k_rule_append_unicode_def wire_unicode_def us(1) append_units append_uint16_wire
        le16_zero takeWhile_eq_all_conv [THEN iffD2])
qed

lemma extract_unicode_wire [result_simps]:
  assumes "utf_ok G s" "int (length (wire_unicode G s)) \<le> n"
  shows "e2k_rule_extract_unicode G \<lparr>rest = wire_unicode G s @ r, clen = n\<rparr> =
    Inr (PStr s, \<lparr>rest = r, clen = n - int (length (wire_unicode G s))\<rparr>)"
proof -
  obtain us where us: "utf8_to_utf16 G s = Some us" "0 \<notin> set us" "utf16_to_utf8 G us = Some s"
    using assms(1) by (auto simp: utf_ok_def split: option.splits)
  have len: "length (wire_unicode G s) = 2 * length us + 2" by (rule length_wire_unicode [OF us(1)])
  have "wire_unicode G s @ r = concat (map le16 us) @ 0 # 0 # r" by (simp add: wire_unicode_def us(1))
  then have "unicode_scan (wire_unicode G s @ r) (nat n) = Inr us"
    using unicode_scan_wire [OF us(2), of "nat n" r] assms(2) len by simp
  then show ?thesis by (simp add: e2k_rule_extract_unicode_def us(3) advance_def len)
qed

lemma extract_binary_wire [result_simps]:
  assumes "length d < 65536" "int (length (wire_binary d)) \<le> n"
  shows "e2k_rule_extract_binary \<lparr>rest = wire_binary d @ r, clen = n\<rparr> =
    Inr (d, \<lparr>rest = r, clen = n - int (length (wire_binary d))\<rparr>)"
proof -
  have "unat (of_nat (length d) :: u16) = length d" using assms(1) by (simp add: unat_of_nat)
  moreover from this have "uint (of_nat (length d) :: u16) = int (length d)"
    by (simp only: uint_nat)
  ultimately show ?thesis
    using assms(2) by (simp add: e2k_rule_extract_binary_def wire_binary_def and_then_apply result_simps)
qed

interpretation binary_codec: codec "\<lambda>ba v. Inr (e2k_rule_append_binary ba v)" e2k_rule_extract_binary
    wire_binary "\<lambda>d. length d < 65536" "\<lambda>v. v"
proof
  fix d :: "byte list" and n r assume "length d < 65536" "int (length (wire_binary d)) \<le> n"
  then show "e2k_rule_extract_binary \<lparr>rest = wire_binary d @ r, clen = n\<rparr> =
      Inr (d, \<lparr>rest = r, clen = n - int (length (wire_binary d))\<rparr>)"
    by (rule extract_binary_wire)
qed (simp add: e2k_rule_append_binary_def e2k_rule_append_uint16_def e2k_rule_write_uint16_def
    wire_binary_def)

interpretation proptag_codec: codec "\<lambda>ba v. Inr (e2k_rule_append_proptag ba v)" e2k_rule_extract_proptag
    wire_proptag wf_prop canon_prop
  by unfold_locales
    (simp_all add: e2k_rule_append_proptag_def e2k_rule_extract_proptag_def wire_proptag_def
      wf_prop_def canon_prop_def canon_tag_def e2k_rule_append_uint32_def e2k_rule_write_uint32_def
      Let_def result_simps)

lemma length_wire_proptag [simp]: "length (wire_proptag p) = 4"
  by (simp add: wire_proptag_def)

lemma is_string_tag_wf: "is_string_tag (rp_proptag p) \<Longrightarrow> wf_prop p"
  by (auto simp: is_string_tag_def wf_prop_def)

lemmas extract_proptag_wire = proptag_codec.ext_wire

lemma append_uint32_wire: "e2k_rule_append_uint32 ba v = ba @ le32 v"
  by (simp add: e2k_rule_append_uint32_def e2k_rule_write_uint32_def)

lemma append_binary_wire: "e2k_rule_append_binary ba d = ba @ wire_binary d"
  by (simp add: e2k_rule_append_binary_def append_uint16_wire wire_binary_def)

lemma append_proptag_wire: "e2k_rule_append_proptag ba p = ba @ wire_proptag p"
  by (simp add: e2k_rule_append_proptag_def append_uint32_wire wire_proptag_def)

lemma append_byte_wire: "e2k_rule_append_byte ba b = ba @ [b]"
  by (simp add: e2k_rule_append_byte_def)

lemma append_string_wire: "e2k_rule_append_string ba s = ba @ wire_string s"
  by (simp add: e2k_rule_append_string_def wire_string_def)

lemmas append_wires = append_uint32_wire append_uint16_wire append_binary_wire append_proptag_wire
  append_byte_wire append_string_wire

text \<open>The cases of a well-formed property value, with the tag type each forces.\<close>

lemma wf_propvalue_cases:
  assumes "wf_propvalue G pv"
  obtains s where "pv_value pv = PStr s" "is_string_tag (rp_proptag (pv_prop pv))" "utf_ok G s"
  | d where "pv_value pv = PBin d" "pv_tag_type pv = E2K_PT_BINARY" "length d < 65536"
  | w where "pv_value pv = PInt w" "pv_tag_type pv = E2K_PT_LONG"
  | w where "pv_value pv = PInt w" "pv_tag_type pv = E2K_PT_BOOLEAN" "w < 256"
  using assms unfolding wf_propvalue_def by (cases "pv_value pv") auto

lemma tag_type_0 [simp]: "E2K_PROPTAG_TYPE 0 = 0"
  by (simp add: E2K_PROPTAG_TYPE_def)

lemma wf_propvalue_type:
  "wf_propvalue G pv \<Longrightarrow>
   pv_tag_type pv \<in> {E2K_PT_UNICODE, E2K_PT_STRING8, E2K_PT_BINARY, E2K_PT_LONG, E2K_PT_BOOLEAN}"
  by (cases rule: wf_propvalue_cases) (auto simp: is_string_tag_def pv_tag_type_def)

lemma wf_propvalue_nonzero: "wf_propvalue G pv \<Longrightarrow> rp_proptag (pv_prop pv) \<noteq> 0"
  using wf_propvalue_type [of G pv] by (auto simp: pv_tag_type_def)

lemma wf_propvalue_prop: "wf_propvalue G pv \<Longrightarrow> wf_prop (pv_prop pv)"
  using wf_propvalue_type [of G pv] by (auto simp: pv_tag_type_def wf_prop_def)

lemma append_propvalue_wire:
  assumes "wf_propvalue G pv"
  shows "e2k_rule_append_propvalue G ba pv = Inr (ba @ wire_propvalue G pv)"
  using assms wf_propvalue_nonzero [OF assms]
  by (cases rule: wf_propvalue_cases)
    (auto simp: e2k_rule_append_propvalue_def wire_propvalue_def wire_value_def is_string_tag_def
      pv_tag_type_def append_wires append_unicode_wire)

lemma canon_prop_type:
  "E2K_PROPTAG_TYPE (rp_proptag (canon_prop p)) =
     (if is_string_tag (rp_proptag p) then E2K_PT_UNICODE else E2K_PROPTAG_TYPE (rp_proptag p))"
  by (simp add: canon_prop_def canon_tag_type)

lemma small_byte: "w < 256 \<Longrightarrow> (ucast (ucast (w :: u32) :: byte) :: u32) = w"
  by (rule word_unat_eq_iff [THEN iffD2]) (simp add: unsigned_ucast_eq unsigned_take_bit_eq take_bit_nat_eq_self word_less_nat_alt)

lemma extract_propvalue_wire:
  assumes wf: "wf_propvalue G pv" and n: "int (length (wire_propvalue G pv)) \<le> n"
  shows "e2k_rule_extract_propvalue G \<lparr>rest = wire_propvalue G pv @ r, clen = n\<rparr> =
    Inr (canon_propvalue pv, \<lparr>rest = r, clen = n - int (length (wire_propvalue G pv))\<rparr>)"
proof -
  let ?v = "wire_value G (pv_value pv) (pv_tag_type pv)"
  have "e2k_rule_extract_proptag \<lparr>rest = wire_proptag (pv_prop pv) @ ?v @ r, clen = n\<rparr> =
      Inr (canon_prop (pv_prop pv), \<lparr>rest = ?v @ r, clen = n - 4\<rparr>)"
    using extract_proptag_wire [OF wf_propvalue_prop [OF wf], of n "?v @ r"] n
    by (simp add: wire_propvalue_def)
  with wf n show ?thesis
    by (cases rule: wf_propvalue_cases)
      (auto simp: e2k_rule_extract_propvalue_def wire_propvalue_def wire_value_def result_simps
        canon_prop_type pv_tag_type_def is_string_tag_def canon_propvalue_def canon_type_def small_byte)
qed

interpretation propvalue_codec: codec "e2k_rule_append_propvalue G" "e2k_rule_extract_propvalue G"
    "wire_propvalue G" "wf_propvalue G" canon_propvalue for G
  by (rule codec.intro; rule append_propvalue_wire extract_propvalue_wire)

interpretation propvalue_reader: safe_reader "e2k_rule_extract_propvalue G" for G
  by (rule safe_propvalue)

section \<open>Properties\<close>

text \<open>
  Writing a property value and reading it back gives the value, with its proptag in
  canonical form, and leaves exactly the bytes that followed. This holds for every value whose
  kind agrees with its tag and that fits the 16-bit length field, and for every pair of UTF
  conversions that round-trip on the string.
\<close>

theorem propvalue_roundtrip:
  assumes "wf_propvalue G pv"
  shows "ok_bind (e2k_rule_append_propvalue G [] pv) (\<lambda>bs. e2k_rule_extract_propvalue G (start (bs @ r))) =
    Inr (canon_propvalue pv, start r)"
  using assms by (rule propvalue_codec.roundtrip)

definition sample_utf :: utf_conv where
  "sample_utf = \<lparr>utf8_to_utf16 = (\<lambda>s. Some (map (\<lambda>c. ucast (byte_of_char c)) s)),
                 utf16_to_utf8 = (\<lambda>us. Some (map (\<lambda>u. char_of_byte (ucast u)) us))\<rparr>"

definition sample_pv :: propvalue where
  "sample_pv = \<lparr>pv_prop = \<lparr>rp_name = ''subject'', rp_proptag = 0x0037001E\<rparr>, pv_type = PT_STRING,
                pv_value = PStr ''hi''\<rparr>"

lemma sample_utf_ok: "is_cstring s \<Longrightarrow> utf_ok sample_utf s"
proof -
  have u: "(ucast (ucast (b :: byte) :: u16) :: byte) = b" for b
    by (rule bit_word_eqI) (auto simp: bit_simps)
  have z: "(ucast (b :: byte) :: u16) = 0 \<longleftrightarrow> b = 0" for b by (metis u ucast_0)
  assume "is_cstring s"
  then show "utf_ok sample_utf s"
    by (auto simp: utf_ok_def sample_utf_def comp_def u z is_cstring_def dest: sym [of 0])
qed

lemma sample_hi: "is_cstring ''hi''"
  by (simp add: is_cstring_def nul_def char_of_byte_def char_of_def)

lemma sample_pv_wf: "wf_propvalue sample_utf sample_pv"
  by (simp add: sample_pv_def wf_propvalue_def is_string_tag_def E2K_PROPTAG_TYPE_def proptag_consts
      sample_utf_ok sample_hi)

lemma propvalue_roundtrip_witness:
  "ok_bind (e2k_rule_append_propvalue sample_utf [] sample_pv)
     (\<lambda>bs. e2k_rule_extract_propvalue sample_utf (start (bs @ [7]))) =
   Inr (canon_propvalue sample_pv, start [7])"
  by (rule propvalue_roundtrip [OF sample_pv_wf])

text \<open>
  The decoder of a property value, given a length that does not exceed the buffer, never
  reads outside it, whatever the bytes are, and when it succeeds it has moved forward by a
  number of bytes that the length covered.
\<close>

theorem propvalue_extract_safe:
  assumes "bounded c"
  shows "e2k_rule_extract_propvalue G c \<noteq> Inl Undefined \<and>
    (\<forall>pv c'. e2k_rule_extract_propvalue G c = Inr (pv, c') \<longrightarrow>
       (\<exists>k. int k \<le> clen c \<and> rest c' = drop k (rest c) \<and> clen c' = clen c - int k))"
  using propvalue_reader.no_undefined [OF assms] propvalue_reader.consumes_prefix [OF assms] by blast

lemma propvalue_extract_safe_witness:
  "e2k_rule_extract_propvalue sample_utf (start [0x1F, 0, 0x37, 0, 104]) \<noteq> Inl Undefined"
  using propvalue_extract_safe [of "start [0x1F, 0, 0x37, 0, 104]" sample_utf] by simp

end
