(* ===== verification/Restriction.thy ===== *)
theory Restriction
  imports Rule_Codec
begin

text \<open>
  Restrictions, the conditions of server-side rules and of WebDAV searches:
  server/lib/e2k-restriction.c without its SQL export (theory Sql). The constructors, the
  recursive binary decoder with fuel for its recursion, and the binary encoder. The lemmas show
  that the decoder stays inside the buffer and that fuel for one call per byte is enough, and
  that it inverts the encoder on every restriction the format supports. Reference counts are
  not modelled: a restriction is a value here.
\<close>

section \<open>Data and constructors\<close>

datatype e2k_restriction =
    RnAnd "e2k_restriction list"
  | RnOr "e2k_restriction list"
  | RnNot e2k_restriction
  | RnContent (fuzzy_level: u32) (content_pv: propvalue)
  | RnProperty (relop: u32) (property_pv: propvalue)
  | RnCompareProps u32 rule_prop rule_prop
  | RnBitmask u32 rule_prop u32
  | RnSize u32 rule_prop u32
  | RnExist rule_prop
  | RnSub rule_prop e2k_restriction
  | RnComment "propvalue list" e2k_restriction

definition E2K_RELOP_LT :: u32 where "E2K_RELOP_LT = 0"
definition E2K_RELOP_LE :: u32 where "E2K_RELOP_LE = 1"
definition E2K_RELOP_GT :: u32 where "E2K_RELOP_GT = 2"
definition E2K_RELOP_GE :: u32 where "E2K_RELOP_GE = 3"
definition E2K_RELOP_EQ :: u32 where "E2K_RELOP_EQ = 4"
definition E2K_RELOP_NE :: u32 where "E2K_RELOP_NE = 5"
definition E2K_RELOP_RE :: u32 where "E2K_RELOP_RE = 6"
definition E2K_BMR_EQZ :: u32 where "E2K_BMR_EQZ = 0"
definition E2K_BMR_NEZ :: u32 where "E2K_BMR_NEZ = 1"
definition E2K_FL_FULLSTRING :: u32 where "E2K_FL_FULLSTRING = 0"
definition E2K_FL_SUBSTRING :: u32 where "E2K_FL_SUBSTRING = 1"
definition E2K_FL_PREFIX :: u32 where "E2K_FL_PREFIX = 2"
definition E2K_FL_SUFFIX :: u32 where "E2K_FL_SUFFIX = 3"
definition E2K_FL_IGNORECASE :: u32 where "E2K_FL_IGNORECASE = 0x10000"

definition E2K_FL_MATCH_TYPE :: "u32 \<Rightarrow> u32" where
  "E2K_FL_MATCH_TYPE fl = fl AND 0x3"

lemmas restriction_consts = E2K_RELOP_LT_def E2K_RELOP_LE_def E2K_RELOP_GT_def E2K_RELOP_GE_def
  E2K_RELOP_EQ_def E2K_RELOP_NE_def E2K_RELOP_RE_def E2K_BMR_EQZ_def E2K_BMR_NEZ_def
  E2K_FL_FULLSTRING_def E2K_FL_SUBSTRING_def E2K_FL_PREFIX_def E2K_FL_SUFFIX_def
  E2K_FL_IGNORECASE_def

text \<open>
  \<open>conjoin\<close> takes the array of operands, \<open>conjoinv\<close> the non-\<open>NULL\<close> prefix of its variable
  arguments, here a list of pointers.
\<close>

definition e2k_restriction_and :: "e2k_restriction list \<Rightarrow> e2k_restriction" where
  "e2k_restriction_and rns = RnAnd rns"

definition e2k_restriction_or :: "e2k_restriction list \<Rightarrow> e2k_restriction" where
  "e2k_restriction_or rns = RnOr rns"

fun va_operands :: "e2k_restriction option list \<Rightarrow> e2k_restriction list" where
  "va_operands (Some rn # ap) = rn # va_operands ap"
| "va_operands _ = []"

definition e2k_restriction_andv :: "e2k_restriction option list \<Rightarrow> e2k_restriction" where
  "e2k_restriction_andv ap = RnAnd (va_operands ap)"

definition e2k_restriction_orv :: "e2k_restriction option list \<Rightarrow> e2k_restriction" where
  "e2k_restriction_orv ap = RnOr (va_operands ap)"

definition e2k_restriction_not :: "e2k_restriction \<Rightarrow> e2k_restriction" where
  "e2k_restriction_not rn = RnNot rn"

definition e2k_restriction_content :: "string \<Rightarrow> u32 \<Rightarrow> string \<Rightarrow> e2k_restriction result" where
  "e2k_restriction_content propname fuzzy val = ok_bind (e2k_rule_prop_set propname) (\<lambda>p.
     Inr (RnContent fuzzy \<lparr>pv_prop = p, pv_type = PT_STRING, pv_value = PStr val\<rparr>))"

definition e2k_restriction_prop_bool :: "string \<Rightarrow> u32 \<Rightarrow> bool \<Rightarrow> e2k_restriction result" where
  "e2k_restriction_prop_bool propname op val = ok_bind (e2k_rule_prop_set propname) (\<lambda>p.
     Inr (RnProperty op \<lparr>pv_prop = p, pv_type = PT_BOOL, pv_value = PInt (if val then 1 else 0)\<rparr>))"

definition e2k_restriction_prop_int :: "string \<Rightarrow> u32 \<Rightarrow> u32 \<Rightarrow> e2k_restriction result" where
  "e2k_restriction_prop_int propname op val = ok_bind (e2k_rule_prop_set propname) (\<lambda>p.
     Inr (RnProperty op \<lparr>pv_prop = p, pv_type = PT_INT, pv_value = PInt val\<rparr>))"

definition e2k_restriction_prop_date :: "string \<Rightarrow> u32 \<Rightarrow> string \<Rightarrow> e2k_restriction result" where
  "e2k_restriction_prop_date propname op val = ok_bind (e2k_rule_prop_set propname) (\<lambda>p.
     Inr (RnProperty op \<lparr>pv_prop = p, pv_type = PT_DATE, pv_value = PStr val\<rparr>))"

definition e2k_restriction_prop_string :: "string \<Rightarrow> u32 \<Rightarrow> string \<Rightarrow> e2k_restriction result" where
  "e2k_restriction_prop_string propname op val = ok_bind (e2k_rule_prop_set propname) (\<lambda>p.
     Inr (RnProperty op \<lparr>pv_prop = p, pv_type = PT_STRING, pv_value = PStr val\<rparr>))"

definition e2k_restriction_prop_binary :: "string \<Rightarrow> u32 \<Rightarrow> byte list \<Rightarrow> e2k_restriction result" where
  "e2k_restriction_prop_binary propname op data = ok_bind (e2k_rule_prop_set propname) (\<lambda>p.
     Inr (RnProperty op \<lparr>pv_prop = p, pv_type = PT_BINARY, pv_value = PBin data\<rparr>))"

definition e2k_restriction_compare :: "string \<Rightarrow> u32 \<Rightarrow> string \<Rightarrow> e2k_restriction result" where
  "e2k_restriction_compare propname1 op propname2 = ok_bind (e2k_rule_prop_set propname1) (\<lambda>p1.
     ok_bind (e2k_rule_prop_set propname2) (\<lambda>p2. Inr (RnCompareProps op p1 p2)))"

definition e2k_restriction_bitmask :: "string \<Rightarrow> u32 \<Rightarrow> u32 \<Rightarrow> e2k_restriction result" where
  "e2k_restriction_bitmask propname bitop msk = ok_bind (e2k_rule_prop_set propname) (\<lambda>p.
     Inr (RnBitmask bitop p msk))"

definition e2k_restriction_size :: "string \<Rightarrow> u32 \<Rightarrow> u32 \<Rightarrow> e2k_restriction result" where
  "e2k_restriction_size propname op sz = ok_bind (e2k_rule_prop_set propname) (\<lambda>p.
     Inr (RnSize op p sz))"

definition e2k_restriction_exist :: "string \<Rightarrow> e2k_restriction result" where
  "e2k_restriction_exist propname = ok_bind (e2k_rule_prop_set propname) (\<lambda>p. Inr (RnExist p))"

definition e2k_restriction_sub :: "string \<Rightarrow> e2k_restriction \<Rightarrow> e2k_restriction result" where
  "e2k_restriction_sub subtable rn = ok_bind (e2k_rule_prop_set subtable) (\<lambda>p. Inr (RnSub p rn))"

section \<open>The decoder\<close>

definition read_type :: "byte reader" where
  "read_type c =
     (if clen c = 0 then Inl Rejected
      else (case rest c of t # _ \<Rightarrow> Inr (t, advance 1 c) | [] \<Rightarrow> Inl Undefined))"

text \<open>The switch over the type byte, with \<open>ext\<close> for the recursive calls.\<close>

definition restriction_body :: "utf_conv \<Rightarrow> e2k_restriction reader \<Rightarrow> byte \<Rightarrow> e2k_restriction reader" where
  "restriction_body G ext type =
    (if type = 0 \<or> type = 1 then
       and_then e2k_rule_extract_uint16 (\<lambda>nrns.
       and_then (read_n (unat nrns) ext) (\<lambda>rns.
         ret (if type = 0 then RnAnd rns else RnOr rns)))
     else if type = 2 then
       and_then ext (\<lambda>subrn. ret (e2k_restriction_not subrn))
     else if type = 3 then
       and_then e2k_rule_extract_uint32 (\<lambda>fuzzy.
       and_then e2k_rule_extract_proptag (\<lambda>prop.
       and_then (e2k_rule_extract_propvalue G) (\<lambda>pv.
         ret (RnContent fuzzy (pv\<lparr>pv_prop := prop\<rparr>)))))
     else if type = 4 then
       and_then e2k_rule_extract_byte (\<lambda>op.
       and_then e2k_rule_extract_proptag (\<lambda>prop.
       and_then (e2k_rule_extract_propvalue G) (\<lambda>pv.
         ret (RnProperty (ucast op) (pv\<lparr>pv_prop := prop\<rparr>)))))
     else if type = 5 then reject
     else if type = 6 then
       and_then e2k_rule_extract_byte (\<lambda>bitop.
       and_then e2k_rule_extract_proptag (\<lambda>prop.
       and_then e2k_rule_extract_uint32 (\<lambda>msk.
         ret (RnBitmask (ucast bitop) prop msk))))
     else if type = 7 then reject
     else if type = 8 then
       and_then e2k_rule_extract_proptag (\<lambda>prop. ret (RnExist prop))
     else if type = 9 then
       and_then e2k_rule_extract_proptag (\<lambda>subtable.
       and_then ext (\<lambda>subrn. ret (RnSub subtable subrn)))
     else if type = 10 then
       and_then e2k_rule_extract_byte (\<lambda>nprops.
       and_then (read_n (unat nprops) (e2k_rule_extract_propvalue G)) (\<lambda>props.
       and_then e2k_rule_extract_byte (\<lambda>dummy.
       and_then (require (dummy = 1)) (\<lambda>_.
       and_then ext (\<lambda>rn. ret (RnComment props rn))))))
     else reject)"

text \<open>Fuel bounds the depth of the recursion; every level consumes its type byte.\<close>

fun extract_restriction :: "utf_conv \<Rightarrow> nat \<Rightarrow> e2k_restriction reader" where
  "extract_restriction G 0 = (\<lambda>c. Inl Out_of_fuel)"
| "extract_restriction G (Suc f) = and_then read_type (restriction_body G (extract_restriction G f))"

text \<open>
  \<open>e2k_restriction_extract\<close>: the guard \<open>rnlen > *len\<close> compares as unsigned. \<open>None\<close> is the
  \<open>NULL\<close> restriction.
\<close>

definition read_zeros :: "unit reader" where
  "read_zeros c =
     (if clen c < 2 then Inl Rejected
      else (case rest c of
          a # b # _ \<Rightarrow> if a \<noteq> 0 \<or> b \<noteq> 0 then Inl Rejected else Inr ((), advance 2 c)
        | _ \<Rightarrow> Inl Undefined))"

definition e2k_restriction_extract :: "utf_conv \<Rightarrow> e2k_restriction option reader" where
  "e2k_restriction_extract G = and_then e2k_rule_extract_uint32 (\<lambda>rnlen c.
     if uint rnlen > clen c mod 2 ^ 32 then Inl Rejected
     else if rnlen = 1 \<and> rest c = [] then Inl Undefined
     else if rnlen = 1 \<and> hd (rest c) = 0xFF then Inr (None, advance 1 c)
     else and_then read_zeros (\<lambda>_.
          and_then (extract_restriction G (Suc (nat (clen c)))) (\<lambda>rn. ret (Some rn))) c)"

section \<open>The encoder\<close>

fun append_restriction :: "utf_conv \<Rightarrow> e2k_restriction writer" where
  "append_restriction G ba (RnAnd rns) =
     append_all (\<lambda>b rn. append_restriction G b rn)
       (e2k_rule_append_uint16 (e2k_rule_append_byte ba 0) (of_nat (length rns))) rns"
| "append_restriction G ba (RnOr rns) =
     append_all (\<lambda>b rn. append_restriction G b rn)
       (e2k_rule_append_uint16 (e2k_rule_append_byte ba 1) (of_nat (length rns))) rns"
| "append_restriction G ba (RnNot rn) = append_restriction G (e2k_rule_append_byte ba 2) rn"
| "append_restriction G ba (RnContent fuzzy pv) =
     e2k_rule_append_propvalue G
       (e2k_rule_append_proptag (e2k_rule_append_uint32 (e2k_rule_append_byte ba 3) fuzzy) (pv_prop pv)) pv"
| "append_restriction G ba (RnProperty op pv) =
     e2k_rule_append_propvalue G
       (e2k_rule_append_proptag (e2k_rule_append_byte (e2k_rule_append_byte ba 4) (ucast op)) (pv_prop pv)) pv"
| "append_restriction G ba (RnCompareProps op p1 p2) = Inr (e2k_rule_append_byte ba 5)"
| "append_restriction G ba (RnBitmask bitop p msk) =
     Inr (e2k_rule_append_uint32
       (e2k_rule_append_proptag (e2k_rule_append_byte (e2k_rule_append_byte ba 6) (ucast bitop)) p) msk)"
| "append_restriction G ba (RnSize op p sz) = Inr (e2k_rule_append_byte ba 7)"
| "append_restriction G ba (RnExist p) = Inr (e2k_rule_append_proptag (e2k_rule_append_byte ba 8) p)"
| "append_restriction G ba (RnSub subtable rn) =
     append_restriction G (e2k_rule_append_proptag (e2k_rule_append_byte ba 9) subtable) rn"
| "append_restriction G ba (RnComment props rn) =
     ok_bind (append_all (e2k_rule_append_propvalue G)
         (e2k_rule_append_byte (e2k_rule_append_byte ba 10) (of_nat (length props))) props) (\<lambda>ba'.
       append_restriction G (e2k_rule_append_byte ba' 1) rn)"

text \<open>\<open>write_at\<close> is \<open>e2k_rule_write_uint32 (ba->data + off, v)\<close>.\<close>

definition write_at :: "byte list \<Rightarrow> nat \<Rightarrow> u32 \<Rightarrow> byte list" where
  "write_at ba off v = take off ba @ e2k_rule_write_uint32 v @ drop (off + 4) ba"

definition e2k_restriction_append :: "utf_conv \<Rightarrow> e2k_restriction option writer" where
  "e2k_restriction_append G ba rno = (case rno of
     None \<Rightarrow> Inr (e2k_rule_append_byte (e2k_rule_append_uint32 ba 1) 0xFF)
   | Some rn \<Rightarrow>
       let rnlen_offset = length ba;
           ba = e2k_rule_append_uint16 (e2k_rule_append_uint32 ba 0) 0
       in ok_bind (append_restriction G ba rn) (\<lambda>ba'.
            let rnlen = length ba' - rnlen_offset - 4
            in Inr (write_at ba' rnlen_offset (of_nat rnlen))))"

section \<open>Safety and termination of the decoder\<close>

lemma safe_read_type: "safe_reader read_type"
  by unfold_locales
    (auto simp: read_type_def bounded_def split: if_splits list.splits intro!: exI [of _ 1])

lemma fuel_read_type: "no_fuel read_type"
  by (rule no_fuelI) (auto simp: read_type_def split: list.splits)

lemma safe_read_zeros: "safe_reader read_zeros"
  by unfold_locales
    (auto simp: read_zeros_def bounded_def split: if_splits list.splits intro!: exI [of _ 2])

lemma fuel_read_zeros: "no_fuel read_zeros"
  by (rule no_fuelI) (auto simp: read_zeros_def split: list.splits)

lemma safe_body: "safe_reader ext \<Longrightarrow> safe_reader (restriction_body G ext type)"
  unfolding restriction_body_def by (intro safe_intros safe_primitives)

lemma safe_restriction: "safe_reader (extract_restriction G f)"
proof (induction f)
  case 0
  then show ?case by unfold_locales auto
next
  case (Suc f)
  then show ?case by (simp add: safe_and_then safe_read_type safe_body)
qed

lemma fuel_body: "safe_reader ext \<Longrightarrow> enough_fuel n ext \<Longrightarrow> enough_fuel n (restriction_body G ext type)"
  unfolding restriction_body_def
  by (intro fuel_intros enough_primitives safe_intros safe_primitives)

lemma read_type_shrinks: "read_type c = Inr (t, d) \<Longrightarrow> clen d = clen c - 1"
  by (auto simp: read_type_def split: if_splits list.splits)

lemma fuel_restriction: "enough_fuel (Suc f) (extract_restriction G (Suc f))"
proof (induction f)
  case 0
  show ?case unfolding enough_fuel_def
    by (auto simp: bounded_def and_then_def read_type_def)
next
  case (Suc f)
  show ?case
    unfolding enough_fuel_def
  proof (intro allI impI notI)
    fix c assume b: "bounded c" and n: "clen c < int (Suc (Suc f))"
      and r: "extract_restriction G (Suc (Suc f)) c = Inl Out_of_fuel"
    obtain t d where t: "read_type c = Inr (t, d)"
      and k: "restriction_body G (extract_restriction G (Suc f)) t d = Inl Out_of_fuel"
      using r no_fuelD [OF fuel_read_type] by (auto simp: and_then_eq_Inl)
    have "bounded d" "clen d < int (Suc f)"
      using forward_reader.stays_bounded [OF safe_forward [OF safe_read_type] b t] read_type_shrinks [OF t] n by auto
    then show False using enough_fuelD [OF fuel_body [OF safe_restriction Suc.IH]] k by blast
  qed
qed

lemma restriction_tail_safe:
  "safe_reader (and_then read_zeros (\<lambda>_. and_then (extract_restriction G f) (\<lambda>rn. ret (Some rn))))"
  by (intro safe_intros safe_read_zeros safe_restriction)

lemma safe_restriction_extract: "safe_reader (e2k_restriction_extract G)"
  unfolding e2k_restriction_extract_def
proof (rule safe_and_then [OF safe_uint32], rule safe_readerI)
  fix rnlen c assume b: "bounded c"
  let ?tail = "and_then read_zeros (\<lambda>_.
      and_then (extract_restriction G (Suc (nat (clen c)))) (\<lambda>rn. ret (Some rn)))"
  let ?r = "if clen c mod 2 ^ 32 < uint rnlen then Inl Rejected
      else if rnlen = 1 \<and> rest c = [] then Inl Undefined
      else if rnlen = 1 \<and> hd (rest c) = 255 then Inr (None, advance 1 c) else ?tail c"
  have ne: "1 \<le> clen c" if "rnlen = 1" "\<not> clen c mod 2 ^ 32 < uint rnlen"
  proof (rule ccontr)
    assume "\<not> 1 \<le> clen c"
    with b have "clen c = 0" by (simp add: bounded_def)
    with that show False by simp
  qed
  then show "?r \<noteq> Inl Undefined"
    using b safe_reader.no_undefined [OF restriction_tail_safe b]
    by (auto simp: bounded_def simp del: extract_restriction.simps)
  fix x c' assume "?r = Inr (x, c')"
  then show "\<exists>k. int k \<le> clen c \<and> c' = advance k c"
    using ne forward_reader.moves_forward [OF safe_forward [OF restriction_tail_safe] b]
    by (auto split: if_splits intro: exI [of _ 1] simp del: extract_restriction.simps)
qed

lemma fuel_restriction_extract: "enough_fuel n (e2k_restriction_extract G)"
  unfolding e2k_restriction_extract_def
proof (rule fuel_and_then [OF safe_uint32 fuel_no_fuel [OF fuel_uint32]], unfold enough_fuel_def, intro allI impI)
  fix rnlen c assume b: "bounded c"
  let ?f = "Suc (nat (clen c))"
  have "enough_fuel ?f (and_then read_zeros (\<lambda>_. and_then (extract_restriction G ?f) (\<lambda>rn. ret (Some rn))))"
    by (intro fuel_and_then safe_read_zeros fuel_no_fuel [OF fuel_read_zeros] safe_restriction fuel_restriction fuel_ret)
  then have "and_then read_zeros (\<lambda>_. and_then (extract_restriction G ?f) (\<lambda>rn. ret (Some rn))) c
      \<noteq> Inl Out_of_fuel"
    using b by (rule enough_fuelD) (use b in \<open>simp add: bounded_def\<close>)
  then show "(if clen c mod 2 ^ 32 < uint rnlen then Inl Rejected
      else if rnlen = 1 \<and> rest c = [] then Inl Undefined
      else if rnlen = 1 \<and> hd (rest c) = 255 then Inr (None, advance 1 c)
      else and_then read_zeros (\<lambda>_. and_then (extract_restriction G ?f) (\<lambda>rn. ret (Some rn))) c)
      \<noteq> Inl Out_of_fuel"
    by simp
qed

section \<open>The format and the round trip\<close>

text \<open>
  The bytes of a restriction, the restrictions the format carries, and what is read back. A
  comparison of two properties and a size restriction are not carried: the code writes their
  type byte only and refuses to read it.
\<close>

fun wire_rn :: "utf_conv \<Rightarrow> e2k_restriction \<Rightarrow> byte list" where
  "wire_rn G (RnAnd rns) = 0 # le16 (of_nat (length rns)) @ concat (map (wire_rn G) rns)"
| "wire_rn G (RnOr rns) = 1 # le16 (of_nat (length rns)) @ concat (map (wire_rn G) rns)"
| "wire_rn G (RnNot rn) = 2 # wire_rn G rn"
| "wire_rn G (RnContent fuzzy pv) = 3 # le32 fuzzy @ wire_proptag (pv_prop pv) @ wire_propvalue G pv"
| "wire_rn G (RnProperty op pv) = 4 # ucast op # wire_proptag (pv_prop pv) @ wire_propvalue G pv"
| "wire_rn G (RnCompareProps op p1 p2) = [5]"
| "wire_rn G (RnBitmask bitop p m) = 6 # ucast bitop # wire_proptag p @ le32 m"
| "wire_rn G (RnSize op p sz) = [7]"
| "wire_rn G (RnExist p) = 8 # wire_proptag p"
| "wire_rn G (RnSub p rn) = 9 # wire_proptag p @ wire_rn G rn"
| "wire_rn G (RnComment props rn) =
     10 # of_nat (length props) # concat (map (wire_propvalue G) props) @ 1 # wire_rn G rn"

fun wf_rn :: "utf_conv \<Rightarrow> e2k_restriction \<Rightarrow> bool" where
  "wf_rn G (RnAnd rns) \<longleftrightarrow> length rns < 65536 \<and> (\<forall>rn \<in> set rns. wf_rn G rn)"
| "wf_rn G (RnOr rns) \<longleftrightarrow> length rns < 65536 \<and> (\<forall>rn \<in> set rns. wf_rn G rn)"
| "wf_rn G (RnNot rn) \<longleftrightarrow> wf_rn G rn"
| "wf_rn G (RnContent fuzzy pv) \<longleftrightarrow> wf_propvalue G pv"
| "wf_rn G (RnProperty op pv) \<longleftrightarrow> op < 256 \<and> wf_propvalue G pv"
| "wf_rn G (RnCompareProps op p1 p2) \<longleftrightarrow> False"
| "wf_rn G (RnBitmask bitop p m) \<longleftrightarrow> bitop < 256 \<and> wf_prop p"
| "wf_rn G (RnSize op p sz) \<longleftrightarrow> False"
| "wf_rn G (RnExist p) \<longleftrightarrow> wf_prop p"
| "wf_rn G (RnSub p rn) \<longleftrightarrow> wf_prop p \<and> wf_rn G rn"
| "wf_rn G (RnComment props rn) \<longleftrightarrow> length props < 256 \<and> list_all (wf_propvalue G) props \<and> wf_rn G rn"

fun canon_rn :: "e2k_restriction \<Rightarrow> e2k_restriction" where
  "canon_rn (RnAnd rns) = RnAnd (map canon_rn rns)"
| "canon_rn (RnOr rns) = RnOr (map canon_rn rns)"
| "canon_rn (RnNot rn) = RnNot (canon_rn rn)"
| "canon_rn (RnContent fuzzy pv) = RnContent fuzzy (canon_propvalue pv)"
| "canon_rn (RnProperty op pv) = RnProperty op (canon_propvalue pv)"
| "canon_rn (RnCompareProps op p1 p2) = RnCompareProps op (canon_prop p1) (canon_prop p2)"
| "canon_rn (RnBitmask bitop p m) = RnBitmask bitop (canon_prop p) m"
| "canon_rn (RnSize op p sz) = RnSize op (canon_prop p) sz"
| "canon_rn (RnExist p) = RnExist (canon_prop p)"
| "canon_rn (RnSub p rn) = RnSub (canon_prop p) (canon_rn rn)"
| "canon_rn (RnComment props rn) = RnComment (map canon_propvalue props) (canon_rn rn)"

lemma append_all_wires:
  "(\<And>b x. x \<in> set xs \<Longrightarrow> w b x = Inr (b @ f x)) \<Longrightarrow> append_all w ba xs = Inr (ba @ concat (map f xs))"
  by (induction xs arbitrary: ba) auto

lemma append_restriction_wire: "wf_rn G rn \<Longrightarrow> append_restriction G ba rn = Inr (ba @ wire_rn G rn)"
proof (induction G ba rn rule: append_restriction.induct)
  case (1 G ba rns)
  then show ?case by (simp add: append_all_wires [where f = "wire_rn G"] append_wires)
next
  case (2 G ba rns)
  then show ?case by (simp add: append_all_wires [where f = "wire_rn G"] append_wires)
qed (simp_all add: append_wires append_propvalue_wire propvalue_codec.append_all_wire)

text \<open>Readers of the fields, on a cursor that starts with the field's bytes.\<close>

lemma extract_proptag_field [result_simps]:
  "wf_prop p \<Longrightarrow> 4 \<le> n \<Longrightarrow> e2k_rule_extract_proptag \<lparr>rest = wire_proptag p @ r, clen = n\<rparr> =
     Inr (canon_prop p, \<lparr>rest = r, clen = n - 4\<rparr>)"
  using extract_proptag_wire [of p n r] by simp

lemmas extract_propvalue_field [result_simps] = propvalue_codec.ext_wire

lemma read_type_wire [result_simps]:
  "n \<noteq> 0 \<Longrightarrow> read_type \<lparr>rest = t # r, clen = n\<rparr> = Inr (t, \<lparr>rest = r, clen = n - 1\<rparr>)"
  by (simp add: read_type_def advance_def)

lemma read_zeros_wire [result_simps]:
  "2 \<le> n \<Longrightarrow> read_zeros \<lparr>rest = 0 # 0 # r, clen = n\<rparr> = Inr ((), \<lparr>rest = r, clen = n - 2\<rparr>)"
  by (simp add: read_zeros_def advance_def)

lemma extract_proptag_of_value [result_simps]:
  "wf_propvalue G pv \<Longrightarrow> 4 \<le> n \<Longrightarrow>
   e2k_rule_extract_proptag \<lparr>rest = wire_proptag (pv_prop pv) @ wire_propvalue G pv @ r, clen = n\<rparr> =
     Inr (canon_prop (pv_prop pv), \<lparr>rest = wire_propvalue G pv @ r, clen = n - 4\<rparr>)"
  by (rule extract_proptag_field [OF wf_propvalue_prop])

lemma unat_count_u16: "k < 65536 \<Longrightarrow> unat (of_nat k :: u16) = k"
  by (simp add: unat_of_nat)

lemma uint_count_u16: "k < 65536 \<Longrightarrow> uint (of_nat k :: u16) = int k"
  by (simp only: uint_nat unat_count_u16)

lemma unat_count_byte: "k < 256 \<Longrightarrow> unat (of_nat k :: byte) = k"
  by (simp add: unat_of_nat)

lemma canon_propvalue_prop: "(canon_propvalue pv)\<lparr>pv_prop := canon_prop (pv_prop pv)\<rparr> = canon_propvalue pv"
  by (simp add: canon_propvalue_def)

text \<open>One level of the decoder, given that the recursive calls decode smaller restrictions.\<close>

definition small_rn :: "utf_conv \<Rightarrow> nat \<Rightarrow> e2k_restriction \<Rightarrow> bool" where
  "small_rn G f rn \<longleftrightarrow> wf_rn G rn \<and> length (wire_rn G rn) < f"

lemma length_concat_le: "x \<in> set xs \<Longrightarrow> length (f x) \<le> length (concat (map f xs))"
  by (induction xs) auto

lemma extract_restriction_step:
  assumes IH: "codec (append_restriction G) (extract_restriction G f) (wire_rn G) (small_rn G f) canon_rn"
    and s: "small_rn G (Suc f) rn" and n: "int (length (wire_rn G rn)) \<le> n"
  shows "extract_restriction G (Suc f) \<lparr>rest = wire_rn G rn @ r, clen = n\<rparr> =
    Inr (canon_rn rn, \<lparr>rest = r, clen = n - int (length (wire_rn G rn))\<rparr>)"
proof -
  have all: "list_all (small_rn G f) rns" if "\<forall>rn \<in> set rns. wf_rn G rn"
    "length (concat (map (wire_rn G) rns)) < f" for rns
    using that length_concat_le [of _ rns "wire_rn G"] by (fastforce simp: list_all_iff small_rn_def)
  note sub = codec.ext_wire [OF IH] and subs = codec.read_n_wire [OF IH all]
  show ?thesis
    using s n
    by (cases rn)
      (auto simp: small_rn_def restriction_body_def result_simps sub subs unat_count_u16 unat_count_byte
        propvalue_codec.read_n_wire canon_propvalue_prop small_byte e2k_restriction_not_def)
qed


text \<open>For every fuel the decoder inverts the encoder on the restrictions shorter than the fuel.\<close>

lemma restriction_codec_fuel:
  "codec (append_restriction G) (extract_restriction G f) (wire_rn G) (small_rn G f) canon_rn"
proof (induction f)
  case 0
  then show ?case by unfold_locales (auto simp: small_rn_def)
next
  case (Suc f)
  show ?case
  proof
    fix rn ba assume "small_rn G (Suc f) rn"
    then show "append_restriction G ba rn = Inr (ba @ wire_rn G rn)"
      by (simp add: small_rn_def append_restriction_wire)
  next
    fix rn n r assume "small_rn G (Suc f) rn" "int (length (wire_rn G rn)) \<le> n"
    then show "extract_restriction G (Suc f) \<lparr>rest = wire_rn G rn @ r, clen = n\<rparr> =
        Inr (canon_rn rn, \<lparr>rest = r, clen = n - int (length (wire_rn G rn))\<rparr>)"
      by (rule extract_restriction_step [OF Suc.IH])
  qed
qed

text \<open>The framed form, with its 32-bit length and the two zero bytes.\<close>

definition wire_rno :: "utf_conv \<Rightarrow> e2k_restriction option \<Rightarrow> byte list" where
  "wire_rno G rno = (case rno of
     None \<Rightarrow> le32 1 @ [0xFF]
   | Some rn \<Rightarrow> le32 (of_nat (length (wire_rn G rn) + 2)) @ 0 # 0 # wire_rn G rn)"

definition wf_rno :: "utf_conv \<Rightarrow> e2k_restriction option \<Rightarrow> bool" where
  "wf_rno G rno \<longleftrightarrow> (case rno of
     None \<Rightarrow> True
   | Some rn \<Rightarrow> wf_rn G rn \<and> length (wire_rn G rn) + 2 < 2 ^ 31)"

lemma wire_rn_nonempty: "1 \<le> length (wire_rn G rn)"
  by (cases rn) auto

lemma write_at_append [simp]: "length old = 4 \<Longrightarrow> write_at (ba @ old @ xs) (length ba) v = ba @ le32 v @ xs"
  by (simp add: write_at_def e2k_rule_write_uint32_def)

lemma append_rno_wire:
  assumes "wf_rno G rno" shows "e2k_restriction_append G ba rno = Inr (ba @ wire_rno G rno)"
proof (cases rno)
  case None
  then show ?thesis by (simp add: e2k_restriction_append_def wire_rno_def append_wires)
next
  case (Some rn)
  with assms show ?thesis
    by (simp add: e2k_restriction_append_def wire_rno_def wf_rno_def append_wires le16_zero
        append_restriction_wire Let_def)
qed

lemma extract_rno_wire:
  assumes wf: "wf_rno G rno" and n: "int (length (wire_rno G rno)) \<le> n" "n < 2 ^ 31"
  shows "e2k_restriction_extract G \<lparr>rest = wire_rno G rno @ r, clen = n\<rparr> =
    Inr (map_option canon_rn rno, \<lparr>rest = r, clen = n - int (length (wire_rno G rno))\<rparr>)"
proof (cases rno)
  case None
  with n show ?thesis
    by (simp add: e2k_restriction_extract_def wire_rno_def result_simps advance_def)
next
  case (Some rn)
  let ?m = "length (wire_rn G rn)"
  have m: "?m + 2 < 2 ^ 31" "wf_rn G rn" using wf Some by (auto simp: wf_rno_def)
  have u: "uint (of_nat (?m + 2) :: u32) = int (?m + 2)" using m(1) by (intro uint_of_nat_u32) simp
  have ne: "(of_nat (?m + 2) :: u32) \<noteq> 1"
  proof
    assume "(of_nat (?m + 2) :: u32) = 1"
    with u have "uint (1 :: u32) = int (?m + 2)" by (simp only:)
    then show False by simp
  qed
  have k: "int ?m + 6 \<le> n" using n Some by (simp add: wire_rno_def)
  have "extract_restriction G (Suc (nat (n - 4))) \<lparr>rest = wire_rn G rn @ r, clen = n - 6\<rparr> =
      Inr (canon_rn rn, \<lparr>rest = r, clen = n - 6 - int ?m\<rparr>)"
    by (rule codec.ext_wire [OF restriction_codec_fuel]) (use m k in \<open>auto simp: small_rn_def\<close>)
  then show ?thesis
    using k n(2) u ne
    by (simp add: Some e2k_restriction_extract_def wire_rno_def result_simps
        del: extract_restriction.simps of_nat_add)
qed

interpretation restriction_codec: codec "append_restriction G" "extract_restriction G f" "wire_rn G"
    "small_rn G f" canon_rn for G f
  by (rule restriction_codec_fuel)

interpretation rno_codec: gint_codec "e2k_restriction_append G" "e2k_restriction_extract G" "wire_rno G"
    "wf_rno G" "map_option canon_rn" for G
  by (rule gint_codec.intro; rule append_rno_wire extract_rno_wire)

interpretation restriction_reader: safe_reader "e2k_restriction_extract G" for G
  by (rule safe_restriction_extract)

text \<open>A decoded restriction is encoded to the bytes it came from.\<close>

lemma is_string_canon [simp]: "is_string_tag (canon_tag t) = is_string_tag t"
  by (auto simp: is_string_tag_def canon_tag_def)

lemma canon_tag_id: "E2K_PROPTAG_ID (E2K_PROPTAG_ID t OR E2K_PT_UNICODE) = E2K_PROPTAG_ID t"
  by (rule tag_id_or) (simp add: E2K_PT_UNICODE_def)

lemma wire_canon_prop: "wire_proptag (canon_prop p) = wire_proptag p"
  by (simp add: wire_proptag_def canon_prop_def) (simp add: canon_tag_def canon_tag_id)

lemma wire_canon_propvalue: "wf_propvalue G pv \<Longrightarrow> wire_propvalue G (canon_propvalue pv) = wire_propvalue G pv"
  by (cases rule: wf_propvalue_cases [of G pv])
    (auto simp: wire_propvalue_def canon_propvalue_def wire_canon_prop wire_value_def pv_tag_type_def
      canon_prop_type is_string_tag_def)

lemma canon_value_prop: "pv_prop (canon_propvalue pv) = canon_prop (pv_prop pv)"
  by (simp add: canon_propvalue_def)

lemma wire_canon_rn: "wf_rn G rn \<Longrightarrow> wire_rn G (canon_rn rn) = wire_rn G rn"
proof (induction rn rule: canon_rn.induct)
  case (1 rns)
  then have "map (wire_rn G \<circ> canon_rn) rns = map (wire_rn G) rns" by simp
  then show ?case by (simp add: comp_def cong: map_cong)
next
  case (2 rns)
  then have "map (wire_rn G \<circ> canon_rn) rns = map (wire_rn G) rns" by simp
  then show ?case by (simp add: comp_def cong: map_cong)
next
  case (11 props rn)
  then have "map (wire_propvalue G \<circ> canon_propvalue) props = map (wire_propvalue G) props"
    by (auto simp: list_all_iff wire_canon_propvalue)
  with 11 show ?case by (simp add: comp_def cong: map_cong)
qed (auto simp: wire_canon_propvalue canon_value_prop wire_canon_prop)

lemma wf_canon_prop: "wf_prop p \<Longrightarrow> wf_prop (canon_prop p)"
  by (simp add: wf_prop_def canon_prop_type)

lemma wf_canon_propvalue: "wf_propvalue G pv \<Longrightarrow> wf_propvalue G (canon_propvalue pv)"
  by (cases rule: wf_propvalue_cases [of G pv])
    (auto simp: wf_propvalue_def canon_propvalue_def pv_tag_type_def canon_prop_type is_string_tag_def
      intro: tag_type_distinct)

lemma wf_canon_rn: "wf_rn G rn \<Longrightarrow> wf_rn G (canon_rn rn)"
  by (induction rn rule: canon_rn.induct)
    (auto simp: wf_canon_propvalue wf_canon_prop list_all_iff)

section \<open>Properties\<close>

text \<open>
  C9. Decoding an encoded restriction, \<open>NULL\<close> included, gives the restriction back with its
  proptags in canonical form, for every restriction that the format carries, at any nesting
  depth, and leaves the bytes that follow. The decoder needs no more fuel than it is given.
\<close>

theorem restriction_roundtrip:
  assumes "wf_rno G rno" "length (wire_rno G rno) + length r < 2 ^ 31"
  shows "ok_bind (e2k_restriction_append G [] rno) (\<lambda>bs. e2k_restriction_extract G (start (bs @ r))) =
    Inr (map_option canon_rn rno, start r)"
  using assms by (rule rno_codec.gint_roundtrip)

definition sample_rn :: e2k_restriction where
  "sample_rn = RnAnd [RnContent E2K_FL_SUBSTRING sample_pv,
     RnNot (RnExist \<lparr>rp_name = ''x'', rp_proptag = 0x00370003\<rparr>), RnComment [sample_pv] (RnOr [])]"

lemma sample_rn_wf: "wf_rno sample_utf (Some sample_rn)"
proof -
  have "wf_rn sample_utf sample_rn"
    by (simp add: sample_rn_def sample_pv_wf wf_prop_def E2K_PROPTAG_TYPE_def proptag_consts)
  then show ?thesis
    by (simp add: wf_rno_def sample_rn_def wire_propvalue_def sample_pv_def wire_value_def
        wire_unicode_def sample_utf_def)
qed

lemma restriction_roundtrip_witness:
  "ok_bind (e2k_restriction_append sample_utf [] (Some sample_rn))
     (\<lambda>bs. e2k_restriction_extract sample_utf (start (bs @ [1, 2]))) =
   Inr (Some (canon_rn sample_rn), start [1, 2])"
proof -
  have "length (wire_rno sample_utf (Some sample_rn)) + length [1::byte, 2] < 2 ^ 31"
    by (simp add: wire_rno_def sample_rn_def wire_propvalue_def sample_pv_def wire_value_def
        wire_unicode_def sample_utf_def)
  from restriction_roundtrip [OF sample_rn_wf this] show ?thesis by simp
qed

text \<open>
  C31. Decoding a restriction from any bytes terminates and stays inside the buffer: the outcome
  is a restriction or a rejection, never an undefined read nor exhausted fuel, and a successful
  decoder has consumed a prefix that the length covered.
\<close>

theorem restriction_extract_safe:
  assumes "bounded c"
  shows "e2k_restriction_extract G c \<noteq> Inl Undefined \<and> e2k_restriction_extract G c \<noteq> Inl Out_of_fuel \<and>
    (\<forall>rno c'. e2k_restriction_extract G c = Inr (rno, c') \<longrightarrow>
       (\<exists>k. int k \<le> clen c \<and> rest c' = drop k (rest c) \<and> clen c' = clen c - int k))"
  using restriction_reader.no_undefined [OF assms] restriction_reader.consumes_prefix [OF assms]
    enough_fuelD [OF fuel_restriction_extract assms, of "Suc (nat (clen c))"] by fastforce

lemma restriction_extract_safe_witness:
  "e2k_restriction_extract sample_utf (start [3, 0, 0, 0, 0, 0, 2, 2]) \<noteq> Inl Undefined"
  using restriction_extract_safe [of "start [3, 0, 0, 0, 0, 0, 2, 2]" sample_utf] by simp

text \<open>
  Saving a restriction that was loaded writes the bytes it was loaded from, and loading it
  again changes nothing: canonical restrictions stay in the format.
\<close>

theorem restriction_resave:
  assumes "wf_rn G rn"
  shows "append_restriction G ba (canon_rn rn) = append_restriction G ba rn"
  using assms by (simp add: append_restriction_wire wire_canon_rn wf_canon_rn)

lemma restriction_resave_witness:
  "append_restriction sample_utf [] (canon_rn sample_rn) = append_restriction sample_utf [] sample_rn"
  by (rule restriction_resave) (use sample_rn_wf in \<open>simp add: wf_rno_def\<close>)

text \<open>
  The decoder of a property restriction keeps the first proptag and the value of the
  second, without comparing their types. A rule that names a string property and holds a binary
  value is accepted, and saving it reads the byte array as a string, which is undefined.
\<close>

theorem restriction_tag_confusion:
  "\<exists>rn. extract_restriction G 1 (start [4, 4, 0x1E, 0, 0x37, 0, 0x02, 1, 0x37, 0, 0, 0]) = Inr (rn, start []) \<and>
        append_restriction G [] rn = Inl Undefined"
  by (simp add: start_def read_type_def advance_def restriction_body_def result_simps
      e2k_rule_extract_byte_def e2k_rule_extract_proptag_def e2k_rule_extract_uint32_def
      e2k_rule_read_uint32_def of_le32_def E2K_PROPTAG_TYPE_def proptag_consts Let_def
      e2k_rule_extract_propvalue_def e2k_rule_extract_binary_def e2k_rule_extract_uint16_def
      e2k_rule_read_uint16_def of_le16_def read_bytes_def e2k_rule_append_propvalue_def)

end
