(* ===== verification/Action.thy ===== *)
theory Action
  imports Restriction
begin

text \<open>
  The actions of server-side rules: server/lib/e2k-action.c without the constructors of address
  list entries and the deallocation functions. An encoded action is a frame: a 16-bit length and
  that many bytes. The decoder reads the frame through a second cursor whose length is the one
  the frame names, without comparing it to what is left of the buffer; the lemmas show that this
  is the only way in which it can read outside the buffer.
\<close>

section \<open>Data and constructors\<close>

type_synonym addr_list = "propvalue list list"

datatype action_data =
    ActMove "byte list" "byte list"
  | ActCopy "byte list" "byte list"
  | ActReply "byte list" "byte list"
  | ActOofReply "byte list" "byte list"
  | ActDefer "byte list"
  | ActBounce u32
  | ActForward addr_list
  | ActDelegate addr_list
  | ActTag propvalue
  | ActDelete
  | ActMarkAsRead

record e2k_action =
  act_flavor :: u32
  act_flags :: u32
  act_data :: action_data

fun action_type :: "action_data \<Rightarrow> byte" where
  "action_type (ActMove _ _) = 1"
| "action_type (ActCopy _ _) = 2"
| "action_type (ActReply _ _) = 3"
| "action_type (ActOofReply _ _) = 4"
| "action_type (ActDefer _) = 5"
| "action_type (ActBounce _) = 6"
| "action_type (ActForward _) = 7"
| "action_type (ActDelegate _) = 8"
| "action_type (ActTag _) = 9"
| "action_type ActDelete = 10"
| "action_type ActMarkAsRead = 11"

definition new_action :: "action_data \<Rightarrow> e2k_action" where
  "new_action d = \<lparr>act_flavor = 0, act_flags = 0, act_data = d\<rparr>"

definition e2k_action_move :: "byte list \<Rightarrow> byte list \<Rightarrow> e2k_action" where
  "e2k_action_move store_entryid folder_source_key = new_action (ActMove store_entryid folder_source_key)"

definition e2k_action_copy :: "byte list \<Rightarrow> byte list \<Rightarrow> e2k_action" where
  "e2k_action_copy store_entryid folder_source_key = new_action (ActCopy store_entryid folder_source_key)"

text \<open>The GUID argument is an array of 16 bytes; \<open>memcpy\<close> copies 16 bytes of it.\<close>

definition e2k_action_reply :: "byte list \<Rightarrow> byte list \<Rightarrow> e2k_action" where
  "e2k_action_reply template_entryid template_guid = new_action (ActReply template_entryid (take 16 template_guid))"

definition e2k_action_oof_reply :: "byte list \<Rightarrow> byte list \<Rightarrow> e2k_action" where
  "e2k_action_oof_reply template_entryid template_guid = new_action (ActOofReply template_entryid (take 16 template_guid))"

definition e2k_action_defer :: "byte list \<Rightarrow> e2k_action" where
  "e2k_action_defer data = new_action (ActDefer data)"

definition e2k_action_bounce :: "u32 \<Rightarrow> e2k_action" where
  "e2k_action_bounce code = new_action (ActBounce code)"

text \<open>\<open>forward_action\<close> returns \<open>NULL\<close> for an empty list.\<close>

definition e2k_action_forward :: "addr_list \<Rightarrow> e2k_action option" where
  "e2k_action_forward lst = (if lst = [] then None else Some (new_action (ActForward lst)))"

definition e2k_action_delegate :: "addr_list \<Rightarrow> e2k_action option" where
  "e2k_action_delegate lst = (if lst = [] then None else Some (new_action (ActDelegate lst)))"

definition e2k_action_tag :: "string \<Rightarrow> e2k_prop_type \<Rightarrow> pvalue \<Rightarrow> e2k_action result" where
  "e2k_action_tag propname ty v = ok_bind (e2k_rule_prop_set propname) (\<lambda>p.
     Inr (new_action (ActTag \<lparr>pv_prop = p, pv_type = ty, pv_value = v\<rparr>)))"

definition e2k_action_delete :: e2k_action where
  "e2k_action_delete = new_action ActDelete"

section \<open>The decoder\<close>

definition XFER_STORE_ENTRYID_PREFIX :: "byte list" where
  "XFER_STORE_ENTRYID_PREFIX =
     [0x00, 0x00, 0x00, 0x00, 0x38, 0xa1, 0xbb, 0x10, 0x05, 0xe5, 0x10, 0x1a, 0xa1, 0xbb, 0x08, 0x00,
      0x2b, 0x2a, 0x56, 0xc2, 0x00, 0x00, 0x45, 0x4d, 0x53, 0x4d, 0x44, 0x42, 0x2e, 0x44, 0x4c, 0x4c,
      0x00, 0x00, 0x00, 0x00]"

definition MAPI_FOLDER :: byte where
  "MAPI_FOLDER = 3"

text \<open>\<open>if (*len < 1 || **data != 1) goto lose; (*len)--; (*data)++;\<close>\<close>

definition read_one :: "unit reader" where
  "read_one = and_then e2k_rule_extract_byte (\<lambda>b. require (b = 1))"

text \<open>
  Move and copy. The type byte in front of the folder's source key is removed by moving \<open>len\<close>
  bytes down from the second one, and \<open>len\<close> stays as it was: the last byte of the key is then the
  byte behind the array, an argument (\<open>slack\<close>) that may depend on the array.
\<close>

definition extract_xfer :: "(byte list \<Rightarrow> byte) \<Rightarrow> (byte list \<times> byte list) reader" where
  "extract_xfer slack =
     and_then read_one (\<lambda>_.
     and_then e2k_rule_extract_binary (\<lambda>store_entryid.
     and_then (require (length store_entryid > length XFER_STORE_ENTRYID_PREFIX \<and>
         take (length XFER_STORE_ENTRYID_PREFIX) store_entryid = XFER_STORE_ENTRYID_PREFIX)) (\<lambda>_.
     and_then e2k_rule_extract_binary (\<lambda>key.
     and_then (require (length key \<ge> 1 \<and> hd key = MAPI_FOLDER)) (\<lambda>_.
       ret (drop (length XFER_STORE_ENTRYID_PREFIX) store_entryid, drop 1 key @ [slack key]))))))"

definition extract_reply :: "(byte list \<times> byte list) reader" where
  "extract_reply c =
     (if clen c \<le> 16 then Inl Rejected
      else ok_bind (read_bytes (nat (clen c - 16)) c) (\<lambda>(entryid, d).
           ok_bind (read_bytes 16 d) (\<lambda>(guid, e). Inr ((entryid, guid), e))))"

definition extract_defer :: "byte list reader" where
  "extract_defer c = read_bytes (nat (clen c)) c"

definition extract_addr_list :: "utf_conv \<Rightarrow> addr_list reader" where
  "extract_addr_list G =
     and_then e2k_rule_extract_uint16 (\<lambda>nentries.
       read_n (unat nentries)
         (and_then read_one (\<lambda>_.
          and_then e2k_rule_extract_uint16 (\<lambda>nvalues.
            read_n (unat nvalues) (e2k_rule_extract_propvalue G)))))"

definition extract_action_data :: "(byte list \<Rightarrow> byte) \<Rightarrow> utf_conv \<Rightarrow> byte \<Rightarrow> action_data reader" where
  "extract_action_data slack G type =
     (if type = 1 then and_then (extract_xfer slack) (\<lambda>(e, k). ret (ActMove e k))
      else if type = 2 then and_then (extract_xfer slack) (\<lambda>(e, k). ret (ActCopy e k))
      else if type = 3 then and_then extract_reply (\<lambda>(e, g). ret (ActReply e g))
      else if type = 4 then and_then extract_reply (\<lambda>(e, g). ret (ActOofReply e g))
      else if type = 5 then and_then extract_defer (\<lambda>d. ret (ActDefer d))
      else if type = 6 then and_then e2k_rule_extract_uint32 (\<lambda>code. ret (ActBounce code))
      else if type = 7 then and_then (extract_addr_list G) (\<lambda>lst. ret (ActForward lst))
      else if type = 8 then and_then (extract_addr_list G) (\<lambda>lst. ret (ActDelegate lst))
      else if type = 9 then and_then (e2k_rule_extract_propvalue G) (\<lambda>pv. ret (ActTag pv))
      else if type = 10 then ret ActDelete
      else reject)"

definition extract_action_body :: "(byte list \<Rightarrow> byte) \<Rightarrow> utf_conv \<Rightarrow> e2k_action reader" where
  "extract_action_body slack G =
     and_then e2k_rule_extract_byte (\<lambda>type.
     and_then e2k_rule_extract_uint32 (\<lambda>flavor.
     and_then e2k_rule_extract_uint32 (\<lambda>flags.
     and_then (extract_action_data slack G type) (\<lambda>d.
       ret \<lparr>act_flavor = flavor, act_flags = flags, act_data = d\<rparr>))))"

definition extract_action :: "(byte list \<Rightarrow> byte) \<Rightarrow> utf_conv \<Rightarrow> e2k_action reader" where
  "extract_action slack G = and_then e2k_rule_extract_uint16 (\<lambda>actlen c.
     ok_bind (extract_action_body slack G \<lparr>rest = rest c, clen = int (unat actlen)\<rparr>) (\<lambda>(act, _).
       Inr (act, advance (unat actlen) c)))"

definition e2k_actions_extract :: "(byte list \<Rightarrow> byte) \<Rightarrow> utf_conv \<Rightarrow> e2k_action list reader" where
  "e2k_actions_extract slack G = and_then e2k_rule_extract_uint32 (\<lambda>actlen c.
     if uint actlen > clen c mod 2 ^ 32 then Inl Rejected
     else and_then e2k_rule_extract_uint16 (\<lambda>nacts. read_n (unat nacts) (extract_action slack G)) c)"

section \<open>The encoder\<close>

definition append_xfer :: "byte list \<Rightarrow> byte list \<Rightarrow> byte list \<Rightarrow> byte list" where
  "append_xfer ba store_entryid folder_source_key =
     (let ba = e2k_rule_append_byte ba 1;
          ba = e2k_rule_append_uint16 ba (of_nat (length store_entryid + length XFER_STORE_ENTRYID_PREFIX));
          ba = ba @ XFER_STORE_ENTRYID_PREFIX @ store_entryid;
          ba = e2k_rule_append_uint16 ba 49
      in ba @ [MAPI_FOLDER] @ folder_source_key)"

definition append_addr_entry :: "utf_conv \<Rightarrow> propvalue list writer" where
  "append_addr_entry G ba entry =
     append_all (e2k_rule_append_propvalue G)
       (e2k_rule_append_uint16 (e2k_rule_append_byte ba 1) (of_nat (length entry))) entry"

definition append_action_data :: "utf_conv \<Rightarrow> action_data writer" where
  "append_action_data G ba d = (case d of
     ActMove e k \<Rightarrow> Inr (append_xfer ba e k)
   | ActCopy e k \<Rightarrow> Inr (append_xfer ba e k)
   | ActReply e g \<Rightarrow> Inr (ba @ e @ g)
   | ActOofReply e g \<Rightarrow> Inr (ba @ e @ g)
   | ActDefer d \<Rightarrow> Inr (ba @ d)
   | ActBounce code \<Rightarrow> Inr (e2k_rule_append_uint32 ba code)
   | ActForward lst \<Rightarrow> append_all (append_addr_entry G) (e2k_rule_append_uint16 ba (of_nat (length lst))) lst
   | ActDelegate lst \<Rightarrow> append_all (append_addr_entry G) (e2k_rule_append_uint16 ba (of_nat (length lst))) lst
   | ActTag pv \<Rightarrow> e2k_rule_append_propvalue G ba pv
   | ActDelete \<Rightarrow> Inr ba
   | ActMarkAsRead \<Rightarrow> Inr ba)"

definition write16_at :: "byte list \<Rightarrow> nat \<Rightarrow> u16 \<Rightarrow> byte list" where
  "write16_at ba off v = take off ba @ e2k_rule_write_uint16 v @ drop (off + 2) ba"

definition append_action :: "utf_conv \<Rightarrow> e2k_action writer" where
  "append_action G ba act =
     (let actlen_offset = length ba;
          ba = e2k_rule_append_uint16 ba 0;
          ba = e2k_rule_append_byte ba (action_type (act_data act));
          ba = e2k_rule_append_uint32 ba (act_flavor act);
          ba = e2k_rule_append_uint32 ba (act_flags act)
      in ok_bind (append_action_data G ba (act_data act)) (\<lambda>ba.
           let actlen = length ba - actlen_offset - 2
           in Inr (write16_at ba actlen_offset (of_nat actlen))))"

definition e2k_actions_append :: "utf_conv \<Rightarrow> e2k_action list writer" where
  "e2k_actions_append G ba actions =
     (let actlen_offset = length ba;
          ba = e2k_rule_append_uint32 ba 0;
          ba = e2k_rule_append_uint16 ba (of_nat (length actions))
      in ok_bind (append_all (append_action G) ba actions) (\<lambda>ba.
           let actlen = length ba - actlen_offset - 4
           in Inr (write_at ba actlen_offset (of_nat actlen))))"

section \<open>Safety\<close>

lemma safe_read_one: "safe_reader read_one"
  unfolding read_one_def by (intro safe_intros safe_byte)

lemma safe_xfer: "safe_reader (extract_xfer slack)"
  unfolding extract_xfer_def by (intro safe_intros safe_read_one safe_binary)

lemma safe_reply: "safe_reader extract_reply"
proof
  fix c assume b: "bounded c"
  then show "extract_reply c \<noteq> Inl Undefined"
    by (auto simp: extract_reply_def read_bytes_def bounded_def)
  fix x c' assume "extract_reply c = Inr (x, c')"
  with b show "\<exists>k. int k \<le> clen c \<and> c' = advance k c"
    by (auto simp: extract_reply_def read_bytes_def bounded_def split: if_splits intro!: exI [of _ "nat (clen c)"])
      (simp add: advance_def nat_diff_distrib)
qed

lemma safe_defer: "safe_reader extract_defer"
  by unfold_locales
    (auto simp: extract_defer_def read_bytes_def bounded_def split: if_splits intro!: exI [of _ "nat (clen _)"])

lemma safe_addr_list: "safe_reader (extract_addr_list G)"
  unfolding extract_addr_list_def by (intro safe_intros safe_primitives safe_read_one)

lemma safe_action_data: "safe_reader (extract_action_data slack G type)"
  unfolding extract_action_data_def case_prod_beta
  by (intro safe_intros safe_primitives safe_xfer safe_reply safe_defer safe_addr_list)

lemma safe_action_body: "safe_reader (extract_action_body slack G)"
  unfolding extract_action_body_def by (intro safe_intros safe_primitives safe_action_data)

lemma no_fuel_read_one: "no_fuel read_one"
  unfolding read_one_def by (intro no_fuel_intros fuel_primitives)

lemma no_fuel_xfer: "no_fuel (extract_xfer slack)"
  unfolding extract_xfer_def by (intro no_fuel_intros fuel_primitives no_fuel_read_one)

lemma no_fuel_reply: "no_fuel extract_reply"
  by (rule no_fuelI) (simp add: extract_reply_def read_bytes_def ok_bind_eq_Inl)

lemma no_fuel_defer: "no_fuel extract_defer"
  by (rule no_fuelI) (simp add: extract_defer_def read_bytes_def)

lemma no_fuel_addr_list: "no_fuel (extract_addr_list G)"
  unfolding extract_addr_list_def by (intro no_fuel_intros fuel_primitives no_fuel_read_one)

lemma no_fuel_action_data: "no_fuel (extract_action_data slack G type)"
  unfolding extract_action_data_def case_prod_beta
  by (intro no_fuel_intros fuel_primitives no_fuel_xfer no_fuel_reply no_fuel_defer no_fuel_addr_list)

lemma no_fuel_action_body: "no_fuel (extract_action_body slack G)"
  unfolding extract_action_body_def by (intro no_fuel_intros fuel_primitives no_fuel_action_data)

lemma no_fuel_action: "no_fuel (extract_action slack G)"
  unfolding extract_action_def
  by (intro no_fuel_and_then fuel_uint16 no_fuelI)
    (simp add: ok_bind_eq_Inl no_fuelD [OF no_fuel_action_body] split: prod.splits)

lemma no_fuel_actions_extract: "no_fuel (e2k_actions_extract slack G)"
  unfolding e2k_actions_extract_def
  by (intro no_fuel_and_then fuel_uint32 no_fuelI)
    (simp add: no_fuelD [OF no_fuel_and_then [OF fuel_uint16 no_fuel_read_n [OF no_fuel_action]]])

text \<open>
  A frame that fits is decoded safely. This is the guard the code lacks: \<open>actlen\<close> at most what is
  left behind the length field.
\<close>

lemma extract_action_fits:
  assumes b: "bounded c" and a: "e2k_rule_extract_uint16 c = Inr (actlen, d)" "int (unat actlen) \<le> clen d"
  shows "extract_action slack G c \<noteq> Inl Undefined"
    and "extract_action slack G c = Inr (act, c') \<Longrightarrow> \<exists>k. int k \<le> clen c \<and> c' = advance k c"
proof -
  obtain k where k: "int k \<le> clen c" "d = advance k c"
    using forward_reader.moves_forward [OF safe_forward [OF safe_uint16] b a(1)] by blast
  have d: "bounded d" by (rule forward_reader.stays_bounded [OF safe_forward [OF safe_uint16] b a(1)])
  then have "bounded \<lparr>rest = rest d, clen = int (unat actlen)\<rparr>"
    using a(2) unfolding bounded_def by simp
  then show "extract_action slack G c \<noteq> Inl Undefined"
    using safe_reader.no_undefined [OF safe_action_body]
    by (auto simp: extract_action_def and_then_def a(1) ok_bind_eq_Inl split: prod.splits)
  assume "extract_action slack G c = Inr (act, c')"
  then have "c' = advance (unat actlen) d"
    by (auto simp: extract_action_def and_then_def a(1) ok_bind_eq_Inr split: prod.splits)
  with k a(2) show "\<exists>k. int k \<le> clen c \<and> c' = advance k c" by (intro exI [of _ "k + unat actlen"]) auto
qed

section \<open>The format and the round trip\<close>

definition wire_xfer :: "byte list \<Rightarrow> byte list \<Rightarrow> byte list" where
  "wire_xfer e k = 1 # wire_binary (XFER_STORE_ENTRYID_PREFIX @ e) @ le16 49 @ MAPI_FOLDER # k"

definition wire_addr_entry :: "utf_conv \<Rightarrow> propvalue list \<Rightarrow> byte list" where
  "wire_addr_entry G entry = 1 # le16 (of_nat (length entry)) @ concat (map (wire_propvalue G) entry)"

definition wire_addr_list :: "utf_conv \<Rightarrow> addr_list \<Rightarrow> byte list" where
  "wire_addr_list G lst = le16 (of_nat (length lst)) @ concat (map (wire_addr_entry G) lst)"

definition wire_action_data :: "utf_conv \<Rightarrow> action_data \<Rightarrow> byte list" where
  "wire_action_data G d = (case d of
     ActMove e k \<Rightarrow> wire_xfer e k | ActCopy e k \<Rightarrow> wire_xfer e k
   | ActReply e g \<Rightarrow> e @ g | ActOofReply e g \<Rightarrow> e @ g
   | ActDefer d \<Rightarrow> d | ActBounce code \<Rightarrow> le32 code
   | ActForward lst \<Rightarrow> wire_addr_list G lst | ActDelegate lst \<Rightarrow> wire_addr_list G lst
   | ActTag pv \<Rightarrow> wire_propvalue G pv | _ \<Rightarrow> [])"

definition wire_body :: "utf_conv \<Rightarrow> e2k_action \<Rightarrow> byte list" where
  "wire_body G act = action_type (act_data act) # le32 (act_flavor act) @ le32 (act_flags act) @
     wire_action_data G (act_data act)"

definition wire_action :: "utf_conv \<Rightarrow> e2k_action \<Rightarrow> byte list" where
  "wire_action G act = le16 (of_nat (length (wire_body G act))) @ wire_body G act"

text \<open>
  The actions the format carries: a non-empty store entry id and a folder key of the 48 bytes
  that the constant 49 in the encoder stands for, a reply template with a 16-byte GUID, and a
  body of less than \<open>2^16\<close> bytes. Marking as read is not carried.
\<close>

definition wf_addr_entry :: "utf_conv \<Rightarrow> propvalue list \<Rightarrow> bool" where
  "wf_addr_entry G entry \<longleftrightarrow> length entry < 65536 \<and> list_all (wf_propvalue G) entry"

definition wf_addr_list :: "utf_conv \<Rightarrow> addr_list \<Rightarrow> bool" where
  "wf_addr_list G lst \<longleftrightarrow> length lst < 65536 \<and> list_all (wf_addr_entry G) lst"

definition wf_xfer :: "byte list \<Rightarrow> byte list \<Rightarrow> bool" where
  "wf_xfer e k \<longleftrightarrow> e \<noteq> [] \<and> length e + 36 < 65536 \<and> length k = 48"

definition wf_action_data :: "utf_conv \<Rightarrow> action_data \<Rightarrow> bool" where
  "wf_action_data G d \<longleftrightarrow> (case d of
     ActMove e k \<Rightarrow> wf_xfer e k | ActCopy e k \<Rightarrow> wf_xfer e k
   | ActReply e g \<Rightarrow> e \<noteq> [] \<and> length g = 16 | ActOofReply e g \<Rightarrow> e \<noteq> [] \<and> length g = 16
   | ActForward lst \<Rightarrow> wf_addr_list G lst | ActDelegate lst \<Rightarrow> wf_addr_list G lst
   | ActTag pv \<Rightarrow> wf_propvalue G pv | ActMarkAsRead \<Rightarrow> False | _ \<Rightarrow> True)"

definition wf_action :: "utf_conv \<Rightarrow> e2k_action \<Rightarrow> bool" where
  "wf_action G act \<longleftrightarrow> wf_action_data G (act_data act) \<and> length (wire_body G act) < 65536"

definition canon_action_data :: "(byte list \<Rightarrow> byte) \<Rightarrow> action_data \<Rightarrow> action_data" where
  "canon_action_data slack d = (case d of
     ActMove e k \<Rightarrow> ActMove e (k @ [slack (MAPI_FOLDER # k)])
   | ActCopy e k \<Rightarrow> ActCopy e (k @ [slack (MAPI_FOLDER # k)])
   | ActForward lst \<Rightarrow> ActForward (map (map canon_propvalue) lst)
   | ActDelegate lst \<Rightarrow> ActDelegate (map (map canon_propvalue) lst)
   | ActTag pv \<Rightarrow> ActTag (canon_propvalue pv)
   | d \<Rightarrow> d)"

definition canon_action :: "(byte list \<Rightarrow> byte) \<Rightarrow> e2k_action \<Rightarrow> e2k_action" where
  "canon_action slack act = act\<lparr>act_data := canon_action_data slack (act_data act)\<rparr>"

lemma length_prefix [simp]: "length XFER_STORE_ENTRYID_PREFIX = 36"
  by (simp add: XFER_STORE_ENTRYID_PREFIX_def)

text \<open>Writers.\<close>

lemma append_addr_entry_wire:
  "wf_addr_entry G entry \<Longrightarrow> append_addr_entry G ba entry = Inr (ba @ wire_addr_entry G entry)"
  by (simp add: append_addr_entry_def wire_addr_entry_def wf_addr_entry_def append_wires
      propvalue_codec.append_all_wire)

lemma append_addr_list_wire:
  "wf_addr_list G lst \<Longrightarrow>
   append_all (append_addr_entry G) (ba @ le16 (of_nat (length lst))) lst = Inr (ba @ wire_addr_list G lst)"
  by (subst append_all_wires [where f = "wire_addr_entry G"])
    (auto simp: wf_addr_list_def wire_addr_list_def append_wires append_addr_entry_wire list_all_iff)

lemma append_action_data_wire:
  "wf_action_data G d \<Longrightarrow> append_action_data G ba d = Inr (ba @ wire_action_data G d)"
  by (cases d)
    (auto simp: append_action_data_def wire_action_data_def wf_action_data_def append_xfer_def wire_xfer_def
      wire_binary_def append_wires append_addr_list_wire append_propvalue_wire Let_def add.commute)

lemma write16_at_append [simp]: "length old = 2 \<Longrightarrow> write16_at (ba @ old @ xs) (length ba) v = ba @ le16 v @ xs"
  by (simp add: write16_at_def e2k_rule_write_uint16_def)

lemma append_action_wire: "wf_action G act \<Longrightarrow> append_action G ba act = Inr (ba @ wire_action G act)"
  by (simp add: append_action_def wf_action_def append_wires append_action_data_wire wire_action_def
      wire_body_def Let_def)

text \<open>Readers, each on a cursor that starts with the bytes of its value.\<close>

lemma read_one_wire [result_simps]:
  "1 \<le> n \<Longrightarrow> read_one \<lparr>rest = 1 # r, clen = n\<rparr> = Inr ((), \<lparr>rest = r, clen = n - 1\<rparr>)"
  by (simp add: read_one_def result_simps)

lemma extract_xfer_wire:
  assumes "wf_xfer e k" "int (length (wire_xfer e k)) \<le> n"
  shows "extract_xfer slack \<lparr>rest = wire_xfer e k @ r, clen = n\<rparr> =
    Inr ((e, k @ [slack (MAPI_FOLDER # k)]), \<lparr>rest = r, clen = n - int (length (wire_xfer e k))\<rparr>)"
proof -
  have l: "length e + 36 < 65536" "length k = 48" "e \<noteq> []" using assms(1) by (auto simp: wf_xfer_def)
  have k: "le16 49 @ MAPI_FOLDER # k = wire_binary (MAPI_FOLDER # k)" using l by (simp add: wire_binary_def)
  have n: "int (length e) + 90 \<le> n" using assms(2) l by (simp add: wire_xfer_def wire_binary_def)
  have e: "e2k_rule_extract_binary \<lparr>rest = wire_binary (XFER_STORE_ENTRYID_PREFIX @ e) @ s, clen = n - 1\<rparr> =
      Inr (XFER_STORE_ENTRYID_PREFIX @ e, \<lparr>rest = s, clen = n - 1 - int (length e + 38)\<rparr>)" for s
    by (subst extract_binary_wire) (use l n in \<open>auto simp: wire_binary_def\<close>)
  have f: "e2k_rule_extract_binary \<lparr>rest = wire_binary (MAPI_FOLDER # k) @ r, clen = m\<rparr> =
      Inr (MAPI_FOLDER # k, \<lparr>rest = r, clen = m - 51\<rparr>)" if "51 \<le> m" for m
    by (subst extract_binary_wire) (use l that in \<open>auto simp: wire_binary_def\<close>)
  have len: "length (wire_xfer e k) = length e + 90" using l by (simp add: wire_xfer_def wire_binary_def)
  show ?thesis
    unfolding len unfolding wire_xfer_def k
    using n l by (simp add: extract_xfer_def result_simps e f)
qed

lemma extract_addr_entry_wire:
  assumes "wf_addr_entry G entry" "int (length (wire_addr_entry G entry)) \<le> n"
  shows "and_then read_one (\<lambda>_. and_then e2k_rule_extract_uint16 (\<lambda>nvalues.
      read_n (unat nvalues) (e2k_rule_extract_propvalue G))) \<lparr>rest = wire_addr_entry G entry @ r, clen = n\<rparr> =
    Inr (map canon_propvalue entry, \<lparr>rest = r, clen = n - int (length (wire_addr_entry G entry))\<rparr>)"
  using assms
  by (simp add: wire_addr_entry_def wf_addr_entry_def result_simps unat_count_u16 propvalue_codec.read_n_wire)

interpretation addr_entry_codec: codec "append_addr_entry G"
    "and_then read_one (\<lambda>_. and_then e2k_rule_extract_uint16 (\<lambda>nvalues.
       read_n (unat nvalues) (e2k_rule_extract_propvalue G)))"
    "wire_addr_entry G" "wf_addr_entry G" "map canon_propvalue" for G
  by (rule codec.intro; rule append_addr_entry_wire extract_addr_entry_wire)

lemma extract_addr_list_wire:
  assumes "wf_addr_list G lst" "int (length (wire_addr_list G lst)) \<le> n"
  shows "extract_addr_list G \<lparr>rest = wire_addr_list G lst @ r, clen = n\<rparr> =
    Inr (map (map canon_propvalue) lst, \<lparr>rest = r, clen = n - int (length (wire_addr_list G lst))\<rparr>)"
proof -
  have "extract_addr_list G \<lparr>rest = wire_addr_list G lst @ r, clen = n\<rparr> =
      read_n (length lst) (and_then read_one (\<lambda>_. and_then e2k_rule_extract_uint16 (\<lambda>nvalues.
        read_n (unat nvalues) (e2k_rule_extract_propvalue G))))
        \<lparr>rest = concat (map (wire_addr_entry G) lst) @ r, clen = n - 2\<rparr>"
    using assms unfolding extract_addr_list_def
    by (subst and_then_apply) (simp add: wire_addr_list_def wf_addr_list_def extract_uint16_wire unat_count_u16)
  also have "\<dots> = Inr (map (map canon_propvalue) lst,
      \<lparr>rest = r, clen = n - 2 - int (length (concat (map (wire_addr_entry G) lst)))\<rparr>)"
    by (rule addr_entry_codec.read_n_wire) (use assms in \<open>simp_all add: wf_addr_list_def wire_addr_list_def\<close>)
  finally show ?thesis by (simp add: wire_addr_list_def)
qed

text \<open>The body is read through a cursor whose length is exactly that of the body.\<close>

lemma extract_action_data_wire:
  assumes "wf_action_data G d"
  shows "\<exists>c. extract_action_data slack G (action_type d)
      \<lparr>rest = wire_action_data G d @ r, clen = int (length (wire_action_data G d))\<rparr> =
    Inr (canon_action_data slack d, c)"
  using assms
  by (cases d)
    (auto simp: extract_action_data_def wire_action_data_def wf_action_data_def canon_action_data_def
      result_simps extract_xfer_wire extract_addr_list_wire extract_reply_def extract_defer_def)

lemma extract_action_body_wire:
  assumes "wf_action G act"
  shows "\<exists>c. extract_action_body slack G \<lparr>rest = wire_body G act @ r, clen = int (length (wire_body G act))\<rparr> =
    Inr (canon_action slack act, c)"
proof -
  obtain c where "extract_action_data slack G (action_type (act_data act))
      \<lparr>rest = wire_action_data G (act_data act) @ r, clen = int (length (wire_action_data G (act_data act)))\<rparr> =
    Inr (canon_action_data slack (act_data act), c)"
    using extract_action_data_wire assms unfolding wf_action_def by blast
  then show ?thesis
    by (simp add: extract_action_body_def wire_body_def result_simps canon_action_def)
qed

lemma extract_action_wire:
  assumes "wf_action G act" "int (length (wire_action G act)) \<le> n"
  shows "extract_action slack G \<lparr>rest = wire_action G act @ r, clen = n\<rparr> =
    Inr (canon_action slack act, \<lparr>rest = r, clen = n - int (length (wire_action G act))\<rparr>)"
proof -
  let ?m = "length (wire_body G act)"
  have m: "unat (of_nat ?m :: u16) = ?m" "uint (of_nat ?m :: u16) = int ?m"
    using assms(1) by (simp_all add: wf_action_def unat_count_u16 uint_count_u16)
  obtain c where "extract_action_body slack G \<lparr>rest = wire_body G act @ r, clen = int ?m\<rparr> =
      Inr (canon_action slack act, c)"
    using extract_action_body_wire [OF assms(1)] by blast
  then show ?thesis
    using assms(2) m unfolding extract_action_def
    by (subst and_then_apply) (simp add: wire_action_def extract_uint16_wire result_simps)
qed

interpretation action_codec: codec "append_action G" "extract_action slack G" "wire_action G"
    "wf_action G" "canon_action slack" for G slack
  by (rule codec.intro; rule append_action_wire extract_action_wire)

definition wire_actions :: "utf_conv \<Rightarrow> e2k_action list \<Rightarrow> byte list" where
  "wire_actions G acts =
     le32 (of_nat (length (concat (map (wire_action G) acts)) + 2)) @
     le16 (of_nat (length acts)) @ concat (map (wire_action G) acts)"

definition wf_actions :: "utf_conv \<Rightarrow> e2k_action list \<Rightarrow> bool" where
  "wf_actions G acts \<longleftrightarrow> list_all (wf_action G) acts \<and> length acts < 65536 \<and>
     length (concat (map (wire_action G) acts)) + 2 < 2 ^ 31"

lemma append_actions_wire:
  "wf_actions G acts \<Longrightarrow> e2k_actions_append G ba acts = Inr (ba @ wire_actions G acts)"
  by (simp add: e2k_actions_append_def wf_actions_def append_wires action_codec.append_all_wire
      wire_actions_def Let_def)

lemma extract_actions_wire:
  assumes wf: "wf_actions G acts" and n: "int (length (wire_actions G acts)) \<le> n" "n < 2 ^ 31"
  shows "e2k_actions_extract slack G \<lparr>rest = wire_actions G acts @ r, clen = n\<rparr> =
    Inr (map (canon_action slack) acts, \<lparr>rest = r, clen = n - int (length (wire_actions G acts))\<rparr>)"
proof -
  let ?w = "concat (map (wire_action G) acts)"
  have l: "length ?w + 2 < 2 ^ 31" "length acts < 65536" "list_all (wf_action G) acts"
    using wf by (auto simp: wf_actions_def)
  have u: "uint (of_nat (length ?w + 2) :: u32) = int (length ?w + 2)"
    using l(1) by (intro uint_of_nat_u32) simp
  have k: "int (length ?w) + 6 \<le> n" using n(1) by (simp add: wire_actions_def)
  have "read_n (length acts) (extract_action slack G) \<lparr>rest = ?w @ r, clen = n - 6\<rparr> =
      Inr (map (canon_action slack) acts, \<lparr>rest = r, clen = n - 6 - int (length ?w)\<rparr>)"
    by (rule action_codec.read_n_wire) (use l k in auto)
  then show ?thesis
    using k n(2) u l(2)
    by (simp add: e2k_actions_extract_def wire_actions_def result_simps unat_count_u16 del: of_nat_add)
qed

interpretation actions_codec: gint_codec "e2k_actions_append G" "e2k_actions_extract slack G"
    "wire_actions G" "wf_actions G" "map (canon_action slack)" for G slack
  by (rule gint_codec.intro; rule append_actions_wire extract_actions_wire)

section \<open>Properties\<close>

text \<open>
  C12. Writing actions and reading them back gives the same actions in the same order, each with
  its proptags in canonical form, and leaves the bytes that follow. The source key of a move or
  copy comes back one byte longer: the byte behind the decoded array, which is not part of the
  input, is appended to it.
\<close>

theorem actions_roundtrip:
  assumes "wf_actions G acts" "length (wire_actions G acts) + length r < 2 ^ 31"
  shows "ok_bind (e2k_actions_append G [] acts) (\<lambda>bs. e2k_actions_extract slack G (start (bs @ r))) =
    Inr (map (canon_action slack) acts, start r)"
  using assms by (rule actions_codec.gint_roundtrip)

definition sample_actions :: "e2k_action list" where
  "sample_actions = [new_action (ActMove [9] (replicate 48 5)), new_action (ActForward [[sample_pv]]),
     new_action ActDelete]"

lemma sample_actions_wf: "wf_actions sample_utf sample_actions"
proof -
  have "length (wire_propvalue sample_utf sample_pv) = 10"
    by (simp add: wire_propvalue_def sample_pv_def wire_value_def wire_unicode_def sample_utf_def)
  then show ?thesis
    by (simp add: wf_actions_def sample_actions_def wf_action_def new_action_def wf_action_data_def
        wf_xfer_def wf_addr_list_def wf_addr_entry_def sample_pv_wf wire_action_def wire_body_def
        wire_action_data_def wire_xfer_def wire_binary_def wire_addr_list_def wire_addr_entry_def)
qed

lemma actions_roundtrip_witness:
  "ok_bind (e2k_actions_append sample_utf [] sample_actions)
     (\<lambda>bs. e2k_actions_extract (\<lambda>_. 7) sample_utf (start (bs @ [1]))) =
   Inr (map (canon_action (\<lambda>_. 7)) sample_actions, start [1])"
proof (rule actions_roundtrip [OF sample_actions_wf])
  have "length (wire_propvalue sample_utf sample_pv) = 10"
    by (simp add: wire_propvalue_def sample_pv_def wire_value_def wire_unicode_def sample_utf_def)
  then show "length (wire_actions sample_utf sample_actions) + length [1::byte] < 2 ^ 31"
    by (simp add: wire_actions_def sample_actions_def new_action_def wire_action_def wire_body_def
        wire_action_data_def wire_xfer_def wire_binary_def wire_addr_list_def wire_addr_entry_def)
qed

text \<open>
  The decoder of an action trusts the length of the frame. An input of four bytes whose frame
  claims 1000 makes it read beyond the buffer, and a frame that fits in the buffer never does:
  the missing comparison is the only memory error.
\<close>

theorem action_overread:
  "extract_action slack G (start [0xE8, 3, 5, 0]) = Inl Undefined \<and>
   (\<forall>c actlen d. bounded c \<longrightarrow> e2k_rule_extract_uint16 c = Inr (actlen, d) \<longrightarrow> int (unat actlen) \<le> clen d \<longrightarrow>
      extract_action slack G c \<noteq> Inl Undefined)"
proof (intro conjI allI impI)
  show "extract_action slack G (start [0xE8, 3, 5, 0]) = Inl Undefined"
    by (simp add: extract_action_def start_def result_simps e2k_rule_extract_uint16_def
        e2k_rule_read_uint16_def of_le16_def advance_def extract_action_body_def
        e2k_rule_extract_byte_def e2k_rule_extract_uint32_def e2k_rule_read_uint32_def)
qed (rule extract_action_fits(1))

lemma action_overread_witness:
  "extract_action (\<lambda>_. 0) sample_utf (start [1, 0, 10]) \<noteq> Inl Undefined"
proof -
  have "e2k_rule_extract_uint16 (start [1, 0, 10]) = Inr (1, \<lparr>rest = [10], clen = 1\<rparr>)"
    by (simp add: start_def e2k_rule_extract_uint16_def e2k_rule_read_uint16_def of_le16_def advance_def)
  then show ?thesis
    using action_overread [of "\<lambda>_. 0" sample_utf] bounded_start [of "[1, 0, 10]"] by fastforce
qed

end
