(* ===== verification/Rules.thy ===== *)
theory Rules
  imports Action
begin

text \<open>
  Whole rule sets, \<open>e2k_rules_from_binary\<close> and \<open>e2k_rules_to_binary\<close> of server/lib/e2k-rule.c,
  on top of the restriction and action codecs. The lemmas show that loading inverts saving and
  what loading does on arbitrary bytes.
\<close>

section \<open>The code\<close>

record e2k_rule =
  r_name :: string
  r_sequence :: u32
  r_state :: u32
  r_user_flags :: u32
  r_level :: u32
  r_condition_lcid :: u32
  r_condition :: "e2k_restriction option"
  r_actions :: "e2k_action list"
  r_provider :: string
  r_provider_data :: "byte list"

record e2k_rules =
  version :: byte
  codepage :: u32
  rules :: "e2k_rule list"

text \<open>The provider data: \<open>len < pdlen\<close> compares as unsigned.\<close>

definition extract_provider_data :: "byte list reader" where
  "extract_provider_data = and_then e2k_rule_extract_uint32 (\<lambda>pdlen c.
     if clen c mod 2 ^ 32 < uint pdlen then Inl Rejected else read_bytes (unat pdlen) c)"

definition extract_rule :: "(byte list \<Rightarrow> byte) \<Rightarrow> utf_conv \<Rightarrow> e2k_rule reader" where
  "extract_rule slack G =
     and_then e2k_rule_extract_uint32 (\<lambda>sequence.
     and_then e2k_rule_extract_uint32 (\<lambda>state.
     and_then e2k_rule_extract_uint32 (\<lambda>user_flags.
     and_then e2k_rule_extract_uint32 (\<lambda>condition_lcid.
     and_then (e2k_restriction_extract G) (\<lambda>condition.
     and_then (e2k_actions_extract slack G) (\<lambda>actions.
     and_then e2k_rule_extract_string (\<lambda>provider.
     and_then e2k_rule_extract_string (\<lambda>name.
     and_then e2k_rule_extract_uint32 (\<lambda>level.
     and_then extract_provider_data (\<lambda>provider_data.
       ret \<lparr>r_name = name, r_sequence = sequence, r_state = state, r_user_flags = user_flags,
            r_level = level, r_condition_lcid = condition_lcid, r_condition = condition,
            r_actions = actions, r_provider = provider, r_provider_data = provider_data\<rparr>))))))))))"

definition e2k_rules_from_binary :: "(byte list \<Rightarrow> byte) \<Rightarrow> utf_conv \<Rightarrow> byte list \<Rightarrow> e2k_rules result" where
  "e2k_rules_from_binary slack G rules_data =
     (let len = sint (of_nat (length rules_data) :: u32) in
      if len < 9 then Inl Rejected
      else case rules_data of
        [] \<Rightarrow> Inl Undefined
      | b # data \<Rightarrow>
          if b \<noteq> 2 then Inl Rejected
          else ok_bind (and_then e2k_rule_extract_uint32 (\<lambda>nrules.
                        and_then e2k_rule_extract_uint32 (\<lambda>codepage.
                        and_then (read_n (unat nrules) (extract_rule slack G)) (\<lambda>rs.
                          ret \<lparr>version = 2, codepage = codepage, rules = rs\<rparr>)))
                        \<lparr>rest = data, clen = len - 1\<rparr>) (\<lambda>(rs, _). Inr rs))"

definition append_rule :: "utf_conv \<Rightarrow> e2k_rule writer" where
  "append_rule G ba rule =
     (let ba = e2k_rule_append_uint32 ba (r_sequence rule);
          ba = e2k_rule_append_uint32 ba (r_state rule);
          ba = e2k_rule_append_uint32 ba (r_user_flags rule);
          ba = e2k_rule_append_uint32 ba (r_condition_lcid rule)
      in ok_bind (e2k_restriction_append G ba (r_condition rule)) (\<lambda>ba.
         ok_bind (e2k_actions_append G ba (r_actions rule)) (\<lambda>ba.
         let ba = e2k_rule_append_string ba (r_provider rule);
             ba = e2k_rule_append_string ba (r_name rule);
             ba = e2k_rule_append_uint32 ba (r_level rule);
             ba = e2k_rule_append_uint32 ba (of_nat (length (r_provider_data rule)))
         in Inr (ba @ r_provider_data rule))))"

definition e2k_rules_to_binary :: "utf_conv \<Rightarrow> e2k_rules \<Rightarrow> byte list result" where
  "e2k_rules_to_binary G rs =
     (let ba = e2k_rule_append_byte [] (version rs);
          ba = e2k_rule_append_uint32 ba (of_nat (length (rules rs)));
          ba = e2k_rule_append_uint32 ba (codepage rs)
      in append_all (append_rule G) ba (rules rs))"

section \<open>The format and the round trip\<close>

definition wire_provider_data :: "byte list \<Rightarrow> byte list" where
  "wire_provider_data d = le32 (of_nat (length d)) @ d"

definition wire_rule :: "utf_conv \<Rightarrow> e2k_rule \<Rightarrow> byte list" where
  "wire_rule G rule =
     le32 (r_sequence rule) @ le32 (r_state rule) @ le32 (r_user_flags rule) @ le32 (r_condition_lcid rule) @
     wire_rno G (r_condition rule) @ wire_actions G (r_actions rule) @
     wire_string (r_provider rule) @ wire_string (r_name rule) @ le32 (r_level rule) @
     wire_provider_data (r_provider_data rule)"

definition wf_rule :: "utf_conv \<Rightarrow> e2k_rule \<Rightarrow> bool" where
  "wf_rule G rule \<longleftrightarrow> wf_rno G (r_condition rule) \<and> wf_actions G (r_actions rule) \<and>
     is_cstring (r_provider rule) \<and> is_cstring (r_name rule) \<and> length (r_provider_data rule) < 2 ^ 31"

definition canon_rule :: "(byte list \<Rightarrow> byte) \<Rightarrow> e2k_rule \<Rightarrow> e2k_rule" where
  "canon_rule slack rule = rule\<lparr>r_condition := map_option canon_rn (r_condition rule),
     r_actions := map (canon_action slack) (r_actions rule)\<rparr>"

lemma append_rule_wire: "wf_rule G rule \<Longrightarrow> append_rule G ba rule = Inr (ba @ wire_rule G rule)"
  by (simp add: append_rule_def wf_rule_def append_wires append_rno_wire append_actions_wire wire_rule_def
      wire_provider_data_def Let_def)

lemmas extract_string_wire = string_codec.ext_wire

lemma extract_provider_data_wire:
  assumes "length d < 2 ^ 31" "int (length (wire_provider_data d)) \<le> n" "n < 2 ^ 31"
  shows "extract_provider_data \<lparr>rest = wire_provider_data d @ r, clen = n\<rparr> =
    Inr (d, \<lparr>rest = r, clen = n - int (length (wire_provider_data d))\<rparr>)"
proof -
  have "uint (of_nat (length d) :: u32) = int (length d)" "unat (of_nat (length d) :: u32) = length d"
    using assms(1) by (intro uint_of_nat_u32 unat_of_nat_u32; simp)+
  then show ?thesis
    using assms by (simp add: extract_provider_data_def wire_provider_data_def result_simps)
qed

lemma extract_rule_wire:
  assumes wf: "wf_rule G rule" and n: "int (length (wire_rule G rule)) \<le> n" "n < 2 ^ 31"
  shows "extract_rule slack G \<lparr>rest = wire_rule G rule @ r, clen = n\<rparr> =
    Inr (canon_rule slack rule, \<lparr>rest = r, clen = n - int (length (wire_rule G rule))\<rparr>)"
  using assms
  by (simp add: extract_rule_def wire_rule_def wf_rule_def result_simps extract_rno_wire extract_actions_wire
      extract_string_wire extract_provider_data_wire canon_rule_def)

interpretation rule_codec: gint_codec "append_rule G" "extract_rule slack G" "wire_rule G" "wf_rule G"
    "canon_rule slack" for G slack
  by (rule gint_codec.intro; rule append_rule_wire extract_rule_wire)

definition wf_rules :: "utf_conv \<Rightarrow> e2k_rules \<Rightarrow> bool" where
  "wf_rules G rs \<longleftrightarrow> version rs = 2 \<and> list_all (wf_rule G) (rules rs) \<and> length (rules rs) < 2 ^ 31 \<and>
     length (concat (map (wire_rule G) (rules rs))) + 9 < 2 ^ 31"

section \<open>Loading arbitrary bytes\<close>

text \<open>
  A decoder of actions may step past the end of the buffer, which leaves a negative length; the
  string that follows then fails. So a rule that is decoded at all leaves a cursor inside the buffer.
\<close>

definition steps_on :: "'a reader \<Rightarrow> bool" where
  "steps_on p \<longleftrightarrow> (\<forall>c x c'. p c = Inr (x, c') \<longrightarrow> (\<exists>k. c' = advance k c))"

lemma steps_onD: "steps_on p \<Longrightarrow> p c = Inr (x, c') \<Longrightarrow> \<exists>k. c' = advance k c"
  by (simp add: steps_on_def)

lemma steps_on_ret: "steps_on (ret x)"
  by (auto simp: steps_on_def ret_def intro: exI [of _ 0])

lemma steps_on_and_then: "steps_on p \<Longrightarrow> (\<And>x. steps_on (f x)) \<Longrightarrow> steps_on (and_then p f)"
  unfolding steps_on_def and_then_eq_Inr by (metis advance_advance)

lemma steps_on_read_n: "steps_on p \<Longrightarrow> steps_on (read_n n p)"
  by (induction n) (auto intro!: steps_on_ret steps_on_and_then)

lemma steps_on_uint16: "steps_on e2k_rule_extract_uint16"
  by (auto simp: steps_on_def e2k_rule_extract_uint16_def ok_bind_eq_Inr split: if_splits)

lemma steps_on_uint32: "steps_on e2k_rule_extract_uint32"
  by (auto simp: steps_on_def e2k_rule_extract_uint32_def ok_bind_eq_Inr split: if_splits)

lemma steps_on_action: "steps_on (extract_action slack G)"
  unfolding extract_action_def
  by (intro steps_on_and_then steps_on_uint16) (auto simp: steps_on_def ok_bind_eq_Inr)

lemma steps_on_actions: "steps_on (e2k_actions_extract slack G)"
proof -
  have "steps_on (and_then e2k_rule_extract_uint16 (\<lambda>nacts. read_n (unat nacts) (extract_action slack G)))"
    by (intro steps_on_and_then steps_on_uint16 steps_on_read_n steps_on_action)
  then show ?thesis
    unfolding e2k_actions_extract_def
    by (intro steps_on_and_then steps_on_uint32) (auto simp: steps_on_def split: if_splits)
qed

lemma bounded_advance_nonneg: "bounded c \<Longrightarrow> 0 \<le> clen (advance k c) \<Longrightarrow> bounded (advance k c) \<and> int k \<le> clen c"
  by (auto simp: bounded_def)

lemma extract_string_nonneg: "e2k_rule_extract_string c = Inr (s, c') \<Longrightarrow> 0 < clen c"
  using string_scan_bound [of "rest c" "nat (clen c)"]
  by (fastforce simp: e2k_rule_extract_string_def ok_bind_eq_Inr)

lemma forward_actions_string:
  assumes f: "\<And>a s. forward_reader (f a s)"
  shows "forward_reader (and_then (e2k_actions_extract slack G) (\<lambda>a. and_then e2k_rule_extract_string (f a)))"
proof
  fix c x c' assume b: "bounded c"
    and "and_then (e2k_actions_extract slack G) (\<lambda>a. and_then e2k_rule_extract_string (f a)) c = Inr (x, c')"
  then obtain a d s e where a: "e2k_actions_extract slack G c = Inr (a, d)"
    and s: "e2k_rule_extract_string d = Inr (s, e)" and r: "f a s e = Inr (x, c')"
    by (auto simp: and_then_eq_Inr)
  obtain k where k: "d = advance k c" using steps_onD [OF steps_on_actions a] by blast
  have d: "bounded d" "int k \<le> clen c"
    using bounded_advance_nonneg [OF b, of k] extract_string_nonneg [OF s] k by auto
  have "forward_reader (and_then e2k_rule_extract_string (f a))"
    by (intro forward_and_then safe_forward [OF safe_string] f)
  then obtain m where "int m \<le> clen d" "c' = advance m d"
    using forward_reader.moves_forward d(1) s r by (metis and_then_eq_Inr)
  with d(2) k show "\<exists>k. int k \<le> clen c \<and> c' = advance k c" by (auto intro!: exI [of _ "k + m"])
qed

lemma safe_provider_data: "safe_reader extract_provider_data"
  unfolding extract_provider_data_def
proof (intro safe_and_then safe_uint32 safe_readerI)
  fix pdlen :: u32 and c assume b: "bounded c"
  have fits: "uint pdlen \<le> clen c" if "\<not> clen c mod 2 ^ 32 < uint pdlen"
  proof -
    have "clen c mod 2 ^ 32 \<le> clen c" using b unfolding bounded_def by (intro zmod_le_nonneg_dividend) simp
    then show ?thesis using that by linarith
  qed
  have "unat pdlen \<le> length (rest c)" if "\<not> clen c mod 2 ^ 32 < uint pdlen"
    using fits [OF that] b unfolding bounded_def uint_nat by linarith
  then show "(if clen c mod 2 ^ 32 < uint pdlen then Inl Rejected else read_bytes (unat pdlen) c) \<noteq> Inl Undefined"
    using b by (auto simp: read_bytes_def bounded_def)
  fix x c' assume "(if clen c mod 2 ^ 32 < uint pdlen then Inl Rejected else read_bytes (unat pdlen) c) = Inr (x, c')"
  then show "\<exists>k. int k \<le> clen c \<and> c' = advance k c"
    using fits by (auto simp: read_bytes_def split: if_splits intro!: exI [of _ "unat pdlen"])
qed

lemma fuel_provider_data: "no_fuel extract_provider_data"
  unfolding extract_provider_data_def
  by (intro no_fuel_and_then fuel_uint32 no_fuelI) (simp add: read_bytes_def)

lemma forward_rule: "forward_reader (extract_rule slack G)"
  unfolding extract_rule_def
  by (intro forward_and_then [OF safe_forward] forward_actions_string safe_forward [OF safe_ret] safe_primitives
      safe_provider_data safe_restriction_extract)

lemma fuel_rule: "enough_fuel n (extract_rule slack G)"
  unfolding extract_rule_def
  by (intro fuel_and_then safe_primitives safe_restriction_extract enough_primitives fuel_restriction_extract
      fuel_no_fuel [OF no_fuel_and_then] no_fuel_intros no_fuel_actions_extract fuel_primitives fuel_provider_data)

section \<open>Properties\<close>

text \<open>
  C1. Loading a saved rule set gives the rule set back: every rule in order with all its fields,
  conditions and actions in canonical form. This holds for every rule set whose parts the format
  carries and whose image is smaller than 2 GB.
\<close>

theorem rules_roundtrip:
  assumes "wf_rules G rs"
  shows "ok_bind (e2k_rules_to_binary G rs) (e2k_rules_from_binary slack G) =
    Inr (rs\<lparr>rules := map (canon_rule slack) (rules rs)\<rparr>)"
proof -
  let ?w = "concat (map (wire_rule G) (rules rs))" and ?k = "length (rules rs)"
  have wf: "version rs = 2" "list_all (wf_rule G) (rules rs)" "?k < 2 ^ 31" "length ?w + 9 < 2 ^ 31"
    using assms by (auto simp: wf_rules_def)
  have bin: "e2k_rules_to_binary G rs = Inr (2 # le32 (of_nat ?k) @ le32 (codepage rs) @ ?w)"
    using wf by (simp add: e2k_rules_to_binary_def append_wires rule_codec.gint_append_all_wire)
  have "sint (of_nat (length ?w + 9) :: u32) = int (length ?w + 9)"
    using wf(4) by (subst signed_of_nat) (simp add: signed_take_bit_int_eq_self)
  then have len: "sint (of_nat (length (2 # le32 (of_nat ?k) @ le32 (codepage rs) @ ?w)) :: u32) = int (length ?w) + 9"
    by (simp add: add.commute)
  have k: "unat (of_nat ?k :: u32) = ?k" using wf(3) by (intro unat_of_nat_u32) simp
  have "read_n ?k (extract_rule slack G) \<lparr>rest = ?w @ [], clen = int (length ?w)\<rparr> =
      Inr (map (canon_rule slack) (rules rs), \<lparr>rest = [], clen = int (length ?w) - int (length ?w)\<rparr>)"
    by (rule rule_codec.gint_read_n_wire) (use wf in auto)
  then show ?thesis
    unfolding bin e2k_rules_from_binary_def ok_bind_Inr len
    using wf(1) k by (simp add: result_simps)
qed

definition sample_rules :: e2k_rules where
  "sample_rules = \<lparr>version = 2, codepage = 1252, rules =
     [\<lparr>r_name = ''hi'', r_sequence = 1, r_state = 1, r_user_flags = 0, r_level = 0, r_condition_lcid = 0,
       r_condition = Some sample_rn, r_actions = sample_actions, r_provider = ''hi'',
       r_provider_data = [1, 2, 3]\<rparr>]\<rparr>"

lemma rules_roundtrip_witness:
  "ok_bind (e2k_rules_to_binary sample_utf sample_rules) (e2k_rules_from_binary (\<lambda>_. 7) sample_utf) =
   Inr (sample_rules\<lparr>rules := map (canon_rule (\<lambda>_. 7)) (rules sample_rules)\<rparr>)"
proof (rule rules_roundtrip)
  have p: "length (wire_propvalue sample_utf sample_pv) = 10"
    by (simp add: wire_propvalue_def sample_pv_def wire_value_def wire_unicode_def sample_utf_def)
  then have a: "length (wire_actions sample_utf sample_actions) < 1000"
    by (simp add: wire_actions_def sample_actions_def new_action_def wire_action_def wire_body_def
        wire_action_data_def wire_xfer_def wire_binary_def wire_addr_list_def wire_addr_entry_def)
  have "length (wire_rno sample_utf (Some sample_rn)) < 1000" using p by (simp add: wire_rno_def sample_rn_def)
  with a show "wf_rules sample_utf sample_rules"
    by (simp add: wf_rules_def sample_rules_def wf_rule_def sample_rn_wf sample_actions_wf sample_hi
        wire_rule_def wire_string_def wire_provider_data_def)
qed

text \<open>
  C36. Loading terminates on every byte array: the recursion of nested conditions is bounded by the
  input, so the decoder's fuel is never exhausted, whatever the bytes are. A rule that is accepted
  has left the cursor inside the array.
\<close>

theorem rules_load_terminates:
  "e2k_rules_from_binary slack G rules_data \<noteq> Inl Out_of_fuel"
proof (cases rules_data)
  case Nil
  then show ?thesis by (simp add: e2k_rules_from_binary_def)
next
  case (Cons b data)
  let ?len = "sint (of_nat (length rules_data) :: u32)"
  let ?rd = "and_then e2k_rule_extract_uint32 (\<lambda>nrules.
      and_then e2k_rule_extract_uint32 (\<lambda>codepage.
      and_then (read_n (unat nrules) (extract_rule slack G)) (\<lambda>rs.
        ret \<lparr>version = 2, codepage = codepage, rules = rs\<rparr>)))"
  have "enough_fuel (Suc (nat ?len)) ?rd"
    by (intro fuel_and_then_forward safe_forward [OF safe_uint32] enough_primitives fuel_read_n_forward
        forward_rule fuel_rule fuel_ret)
      (unfold_locales, rule forward_reader.read_n_forward [OF forward_rule])
  moreover have "?len \<le> int (length rules_data)"
    by (subst signed_of_nat) (simp add: signed_take_bit_int_less_eq_self_iff)
  ultimately have "?rd \<lparr>rest = data, clen = ?len - 1\<rparr> \<noteq> Inl Out_of_fuel" if "\<not> ?len < 9"
    using that Cons by (intro enough_fuelD) (auto simp: bounded_def)
  then show ?thesis using Cons by (auto simp: e2k_rules_from_binary_def Let_def ok_bind_eq_Inl)
qed

end
