(* ===== verification/Sql.thy ===== *)
theory Sql
  imports Restriction
begin

text \<open>
  The SQL export of restrictions, \<open>rn_to_sql\<close> and its helpers in server/lib/e2k-restriction.c,
  which turns a restriction into the WHERE clause of a WebDAV SEARCH. A GString is a string that
  the functions return extended. The lemmas compare it with a compositional description of the
  clause, show that a quoted literal cannot be left early, and exhibit the inputs on which the
  code emits a broken clause.
\<close>

section \<open>The code\<close>

definition sql_relops :: "string list" where
  "sql_relops = [''<'', ''<='', ''>'', ''>='', ''='', ''!='']"

definition n_sql_relops :: u32 where
  "n_sql_relops = of_nat (length sql_relops)"

fun append_sql_quoted :: "string \<Rightarrow> string \<Rightarrow> string" where
  "append_sql_quoted sql [] = sql"
| "append_sql_quoted sql (c # cs) =
     append_sql_quoted (if c = CHR 0x27 then sql @ [c, c] else sql @ [c]) cs"

text \<open>A value used as a \<open>char *\<close>: only a string is one, \<open>NULL\<close> and a byte array are not.\<close>

definition as_chars :: "pvalue \<Rightarrow> string result" where
  "as_chars v = (case v of PStr s \<Rightarrow> Inr s | _ \<Rightarrow> Inl Undefined)"

definition dquoted :: "string \<Rightarrow> string" where
  "dquoted name = [CHR 0x22] @ name @ [CHR 0x22]"

definition squote :: string where
  "squote = [CHR 0x27]"

text \<open>The case \<open>E2K_RESTRICTION_CONTENT\<close>.\<close>

definition content_to_sql :: "string \<Rightarrow> u32 \<Rightarrow> propvalue \<Rightarrow> string result" where
  "content_to_sql sql fuzzy pv =
     (let sql = sql @ dquoted (rp_name (pv_prop pv)) @ '' '';
          ty = E2K_FL_MATCH_TYPE fuzzy
      in ok_bind (as_chars (pv_value pv)) (\<lambda>s. Inr (
         if ty = E2K_FL_SUFFIX \<or> ty = E2K_FL_SUBSTRING then
           append_sql_quoted (sql @ ''LIKE '' @ squote @ ''%'') s @ ''%'' @ squote
         else if ty = E2K_FL_PREFIX then
           append_sql_quoted (sql @ ''LIKE '' @ squote) s @ ''%'' @ squote
         else append_sql_quoted (sql @ ''= '' @ squote) s @ squote)))"

text \<open>The case \<open>E2K_RESTRICTION_PROPERTY\<close> after its guard.\<close>

definition property_to_sql :: "string \<Rightarrow> u32 \<Rightarrow> propvalue \<Rightarrow> string result" where
  "property_to_sql sql op pv =
     (let sql = sql @ dquoted (rp_name (pv_prop pv)) @ '' '' @ sql_relops ! unat op @ '' ''
      in case pv_type pv of
        PT_INT \<Rightarrow> (case pv_value pv of
            PInt w \<Rightarrow> Inr (sql @ fmt_d 1 (sint w)) | _ \<Rightarrow> Inl Undefined)
      | PT_BOOL \<Rightarrow> Inr (sql @ (if pv_value pv = PInt 0 then ''False'' else ''True''))
      | PT_DATE \<Rightarrow> ok_bind (as_chars (pv_value pv)) (\<lambda>s.
          Inr (sql @ ''cast ('' @ dquoted s @ '' as '' @ squote @ ''dateTime.tz'' @ squote @ '')''))
      | _ \<Rightarrow> ok_bind (as_chars (pv_value pv)) (\<lambda>s.
          Inr (append_sql_quoted (sql @ squote) s @ squote)))"

text \<open>
  \<open>inside\<close> and the type argument of \<open>rns_to_sql\<close> are the type codes 0 (AND), 1 (OR), 2 (NOT).
  The result is the returned boolean and the extended GString.
\<close>

fun rn_to_sql :: "e2k_restriction \<Rightarrow> string \<Rightarrow> nat \<Rightarrow> (bool \<times> string) result"
  and rns_to_sql :: "nat \<Rightarrow> e2k_restriction list \<Rightarrow> bool \<Rightarrow> bool \<Rightarrow> string \<Rightarrow> (bool \<times> string) result" where
  "rn_to_sql (RnAnd rns) sql inside = ok_bind (rns_to_sql 0 rns False False []) (\<lambda>(rv, subsql).
     Inr (rv, if rv then sql @ (if inside \<noteq> 0 then ''('' else []) @ subsql @ (if inside \<noteq> 0 then '')'' else [])
              else sql))"
| "rn_to_sql (RnOr rns) sql inside = ok_bind (rns_to_sql 1 rns False False []) (\<lambda>(rv, subsql).
     Inr (rv, if rv then sql @ (if inside \<noteq> 1 then ''('' else []) @ subsql @ (if inside \<noteq> 1 then '')'' else [])
              else sql))"
| "rn_to_sql (RnNot rn) sql inside = ok_bind (rn_to_sql rn [] 2) (\<lambda>(rv, subsql).
     Inr (rv, if rv then sql @ ''NOT ('' @ subsql @ '')'' else sql))"
| "rn_to_sql (RnContent fuzzy pv) sql inside = ok_bind (content_to_sql sql fuzzy pv) (\<lambda>sql. Inr (True, sql))"
| "rn_to_sql (RnProperty op pv) sql inside =
     (if op \<ge> n_sql_relops then Inr (False, sql)
      else ok_bind (property_to_sql sql op pv) (\<lambda>sql. Inr (True, sql)))"
| "rn_to_sql (RnCompareProps op p1 p2) sql inside =
     (if op \<ge> n_sql_relops then Inr (False, sql)
      else Inr (True, sql @ dquoted (rp_name p1) @ '' '' @ sql_relops ! unat op @ '' '' @ dquoted (rp_name p2)))"
| "rn_to_sql (RnComment props rn) sql inside = Inr (True, sql)"
| "rn_to_sql (RnBitmask bitop p m) sql inside = Inr (False, sql)"
| "rn_to_sql (RnExist p) sql inside = Inr (False, sql)"
| "rn_to_sql (RnSize op p sz) sql inside = Inr (False, sql)"
| "rn_to_sql (RnSub p rn) sql inside = Inr (False, sql)"
| "rns_to_sql type [] need_op rv sql = Inr (rv, sql)"
| "rns_to_sql type (rn # rns) need_op rv sql =
     (let sql = (if need_op then sql @ (if type = 0 then '' AND '' else '' OR '') else sql)
      in ok_bind (rn_to_sql rn sql type) (\<lambda>(ok, sql).
           if ok then rns_to_sql type rns True True sql else rns_to_sql type rns False rv sql))"

text \<open>\<open>Inr None\<close> is the \<open>NULL\<close> return.\<close>

definition e2k_restriction_to_sql :: "e2k_restriction \<Rightarrow> string option result" where
  "e2k_restriction_to_sql rn = ok_bind (rn_to_sql rn [] 0) (\<lambda>(ok, sql).
     Inr (if \<not> ok then None else if sql \<noteq> [] then Some (''WHERE '' @ sql) else Some sql))"

section \<open>Literals\<close>

text \<open>
  How an SQL reader takes a literal apart: two quotes are one quote character, a single quote
  ends the literal.
\<close>

fun sql_literal :: "string \<Rightarrow> (string \<times> string) option" where
  "sql_literal [] = None"
| "sql_literal (c # cs) =
     (if c \<noteq> CHR 0x27 then map_option (\<lambda>(s, r). (c # s, r)) (sql_literal cs)
      else (case cs of
          d # ds \<Rightarrow> if d = CHR 0x27 then map_option (\<lambda>(s, r). (d # s, r)) (sql_literal ds) else Some ([], cs)
        | [] \<Rightarrow> Some ([], [])))"

definition quote_char :: "char \<Rightarrow> string" where
  "quote_char c = (if c = CHR 0x27 then [c, c] else [c])"

lemma append_sql_quoted_eq: "append_sql_quoted sql s = sql @ concat (map quote_char s)"
  by (induction sql s rule: append_sql_quoted.induct) (auto simp: quote_char_def)

lemma sql_literal_quoted:
  assumes "r = [] \<or> hd r \<noteq> CHR 0x27"
  shows "sql_literal (concat (map quote_char s) @ squote @ r) = Some (s, r)"
proof (induction s)
  case Nil
  then show ?case using assms by (cases r) (auto simp: squote_def)
qed (auto simp: quote_char_def)

section \<open>The clause\<close>

definition join :: "string \<Rightarrow> string list \<Rightarrow> string" where
  "join sep xs = (case xs of [] \<Rightarrow> [] | x # ys \<Rightarrow> x @ concat (map (\<lambda>y. sep @ y) ys))"

definition parens_unless :: "bool \<Rightarrow> string \<Rightarrow> string" where
  "parens_unless b s = (if b then s else ''('' @ s @ '')'')"

definition content_clause :: "u32 \<Rightarrow> propvalue \<Rightarrow> string \<Rightarrow> string" where
  "content_clause fuzzy pv s = dquoted (rp_name (pv_prop pv)) @
     (let ty = E2K_FL_MATCH_TYPE fuzzy; q = concat (map quote_char s) in
      if ty = E2K_FL_SUFFIX \<or> ty = E2K_FL_SUBSTRING then '' LIKE '' @ squote @ ''%'' @ q @ ''%'' @ squote
      else if ty = E2K_FL_PREFIX then '' LIKE '' @ squote @ q @ ''%'' @ squote
      else '' = '' @ squote @ q @ squote)"

definition value_clause :: "propvalue \<Rightarrow> string" where
  "value_clause pv = (case pv_value pv of
     PInt w \<Rightarrow> (if pv_type pv = PT_INT then fmt_d 1 (sint w) else if w = 0 then ''False'' else ''True'')
   | PStr s \<Rightarrow> (if pv_type pv = PT_DATE
       then ''cast ('' @ dquoted s @ '' as '' @ squote @ ''dateTime.tz'' @ squote @ '')''
       else squote @ concat (map quote_char s) @ squote)
   | PBin d \<Rightarrow> [])"

text \<open>The restrictions that have an SQL form, with values of the kind their type names.\<close>

definition sql_value :: "propvalue \<Rightarrow> bool" where
  "sql_value pv \<longleftrightarrow> (case pv_value pv of
     PInt w \<Rightarrow> pv_type pv = PT_INT \<or> pv_type pv = PT_BOOL
   | PStr s \<Rightarrow> pv_type pv = PT_DATE \<or> pv_type pv = PT_STRING
   | PBin d \<Rightarrow> False)"

fun has_sql :: "e2k_restriction \<Rightarrow> bool" where
  "has_sql (RnAnd rns) \<longleftrightarrow> rns \<noteq> [] \<and> (\<forall>rn \<in> set rns. has_sql rn)"
| "has_sql (RnOr rns) \<longleftrightarrow> rns \<noteq> [] \<and> (\<forall>rn \<in> set rns. has_sql rn)"
| "has_sql (RnNot rn) \<longleftrightarrow> has_sql rn"
| "has_sql (RnContent fuzzy pv) \<longleftrightarrow> (\<exists>s. pv_value pv = PStr s)"
| "has_sql (RnProperty op pv) \<longleftrightarrow> op < 6 \<and> sql_value pv"
| "has_sql (RnCompareProps op p1 p2) \<longleftrightarrow> op < 6"
| "has_sql _ \<longleftrightarrow> False"

fun sql_clause :: "e2k_restriction \<Rightarrow> nat \<Rightarrow> string" where
  "sql_clause (RnAnd rns) inside =
     parens_unless (inside = 0) (join '' AND '' (map (\<lambda>rn. sql_clause rn 0) rns))"
| "sql_clause (RnOr rns) inside =
     parens_unless (inside = 1) (join '' OR '' (map (\<lambda>rn. sql_clause rn 1) rns))"
| "sql_clause (RnNot rn) inside = ''NOT ('' @ sql_clause rn 2 @ '')''"
| "sql_clause (RnContent fuzzy pv) inside =
     (case pv_value pv of PStr s \<Rightarrow> content_clause fuzzy pv s | _ \<Rightarrow> [])"
| "sql_clause (RnProperty op pv) inside =
     dquoted (rp_name (pv_prop pv)) @ '' '' @ sql_relops ! unat op @ '' '' @ value_clause pv"
| "sql_clause (RnCompareProps op p1 p2) inside =
     dquoted (rp_name p1) @ '' '' @ sql_relops ! unat op @ '' '' @ dquoted (rp_name p2)"
| "sql_clause _ inside = []"

lemma n_sql_relops [simp]: "n_sql_relops = 6"
  by (simp add: n_sql_relops_def sql_relops_def)

lemma content_to_sql_eq:
  "pv_value pv = PStr s \<Longrightarrow> content_to_sql sql fuzzy pv = Inr (sql @ content_clause fuzzy pv s)"
  by (simp add: content_to_sql_def content_clause_def as_chars_def append_sql_quoted_eq Let_def)

lemma property_to_sql_eq:
  "sql_value pv \<Longrightarrow> property_to_sql sql op pv =
     Inr (sql @ dquoted (rp_name (pv_prop pv)) @ '' '' @ sql_relops ! unat op @ '' '' @ value_clause pv)"
  by (auto simp: property_to_sql_def value_clause_def as_chars_def append_sql_quoted_eq sql_value_def
      split: pvalue.splits)

text \<open>The loop, given that each operand contributes its clause.\<close>

lemma rns_to_sql_join:
  assumes "\<And>rn sql. rn \<in> set rns \<Longrightarrow> rn_to_sql rn sql k = Inr (True, sql @ f rn)"
  shows "rns_to_sql k rns need rv sql =
    Inr (rv \<or> rns \<noteq> [], sql @ (if need then concat (map (\<lambda>rn. (if k = 0 then '' AND '' else '' OR '') @ f rn) rns)
                             else join (if k = 0 then '' AND '' else '' OR '') (map f rns)))"
  using assms
proof (induction rns arbitrary: need rv sql)
  case (Cons rn rns)
  have "rns_to_sql k rns True True s =
      Inr (True, s @ concat (map (\<lambda>rn. (if k = 0 then '' AND '' else '' OR '') @ f rn) rns))" for s
    using Cons.IH [of True True s] Cons.prems by simp
  with Cons.prems show ?case by (simp add: join_def comp_def Let_def)
qed (simp add: join_def)

lemma rn_to_sql_clause: "has_sql rn \<Longrightarrow> rn_to_sql rn sql inside = Inr (True, sql @ sql_clause rn inside)"
proof (induction rn inside arbitrary: sql rule: sql_clause.induct)
  case (1 rns inside)
  then have "rns_to_sql 0 rns False False [] = Inr (True, join '' AND '' (map (\<lambda>rn. sql_clause rn 0) rns))"
    by (subst rns_to_sql_join [where f = "\<lambda>rn. sql_clause rn 0"]) auto
  then show ?case by (simp add: parens_unless_def)
next
  case (2 rns inside)
  then have "rns_to_sql 1 rns False False [] = Inr (True, join '' OR '' (map (\<lambda>rn. sql_clause rn 1) rns))"
    by (subst rns_to_sql_join [where f = "\<lambda>rn. sql_clause rn 1"]) auto
  then show ?case by (simp add: parens_unless_def)
next
  case (4 fuzzy pv inside)
  then show ?case by (auto simp: content_to_sql_eq)
qed (auto simp: property_to_sql_eq not_le)

lemma sql_clause_nonempty: "has_sql rn \<Longrightarrow> sql_clause rn inside \<noteq> []"
proof (induction rn inside rule: sql_clause.induct)
  case (1 rns inside)
  then show ?case by (cases rns) (auto simp: parens_unless_def join_def)
next
  case (2 rns inside)
  then show ?case by (cases rns) (auto simp: parens_unless_def join_def)
qed (auto simp: dquoted_def content_clause_def)

section \<open>Properties\<close>

text \<open>
  C29. A value quoted for SQL cannot end its literal early: an SQL reader that starts behind the
  opening quote of the emitted text gets the value back, character for character, and continues
  behind the closing quote.
\<close>

theorem sql_quoting:
  assumes "r = [] \<or> hd r \<noteq> CHR 0x27"
  shows "sql_literal (append_sql_quoted [] s @ squote @ r) = Some (s, r)"
  using sql_literal_quoted [OF assms] by (simp add: append_sql_quoted_eq)

lemma sql_quoting_witness:
  "sql_literal (append_sql_quoted [] [CHR ''a'', CHR 0x27, CHR '')''] @ squote @ '' OR'') =
   Some ([CHR ''a'', CHR 0x27, CHR '')''], '' OR'')"
  by (rule sql_quoting) simp

text \<open>
  C16. On every restriction built from comparisons, contents, negations and non-empty
  conjunctions and disjunctions, the export succeeds and its text is the compositional clause:
  operands in order joined by the operator, parentheses exactly where an operator is nested in a
  different one, every negation parenthesised, every string quoted.
\<close>

theorem to_sql_clause:
  assumes "has_sql rn"
  shows "e2k_restriction_to_sql rn = Inr (Some (''WHERE '' @ sql_clause rn 0))"
  using rn_to_sql_clause [OF assms, of "[]" 0] sql_clause_nonempty [OF assms, of 0]
  by (simp add: e2k_restriction_to_sql_def)

definition size_prop :: rule_prop where
  "size_prop = \<lparr>rp_name = ''DAV:size'', rp_proptag = 0\<rparr>"

definition size_rn :: "u32 \<Rightarrow> u32 \<Rightarrow> e2k_restriction" where
  "size_rn op n = RnProperty op \<lparr>pv_prop = size_prop, pv_type = PT_INT, pv_value = PInt n\<rparr>"

lemma to_sql_clause_witness:
  "e2k_restriction_to_sql (RnAnd [size_rn 2 5, RnOr [size_rn 0 9, RnNot (size_rn 4 7)]]) =
   Inr (Some (''WHERE '' @ sql_clause (RnAnd [size_rn 2 5, RnOr [size_rn 0 9, RnNot (size_rn 4 7)]]) 0))"
  by (rule to_sql_clause) (simp add: size_rn_def sql_value_def)

text \<open>
  A conjunction with one convertible operand and one that has no SQL form is not refused:
  the export returns a clause that ends in a dangling operator, although the documentation
  promises \<open>NULL\<close> for what cannot be converted. The same holds behind any convertible operand.
\<close>

theorem to_sql_dangling:
  assumes "has_sql rn"
  shows "e2k_restriction_to_sql (RnAnd [rn, RnBitmask bitop p m]) =
    Inr (Some (''WHERE '' @ sql_clause rn 0 @ '' AND ''))"
  by (simp add: e2k_restriction_to_sql_def rn_to_sql_clause [OF assms] Let_def)

lemma to_sql_dangling_witness:
  "e2k_restriction_to_sql (RnAnd [size_rn 2 5, RnBitmask 0 size_prop 1]) =
   Inr (Some (''WHERE '' @ sql_clause (size_rn 2 5) 0 @ '' AND ''))"
  by (rule to_sql_dangling) (simp add: size_rn_def sql_value_def)

end
