(* ===== verification/Des.thy ===== *)
theory Des
  imports Prelude
begin

text \<open>
  The DES implementation of server/xntlm/xntlm-des.c: the tables, the key schedule and the
  encryption of a block, statement by statement. The lemmas show that decryption inverts
  encryption for every key, and that the parity bits of a key do not matter.
\<close>

section \<open>Steps that undo themselves\<close>

text \<open>
  The interface behind the round structure: a step that is its own inverse. Running the same steps
  in reverse order takes every state back.
\<close>

locale self_inverse_steps =
  fixes step :: "'k \<Rightarrow> 's \<Rightarrow> 's"
  assumes step_step: "step k (step k s) = s"
begin

lemma run_back: "fold step (rev ks) (fold step ks s) = s"
  by (induction ks arbitrary: s) (simp_all add: step_step)

end

section \<open>Tables\<close>

definition Spbox :: "u32 list list" where
  "Spbox =
    [[0x01010400, 0x00000000, 0x00010000, 0x01010404,
      0x01010004, 0x00010404, 0x00000004, 0x00010000,
      0x00000400, 0x01010400, 0x01010404, 0x00000400,
      0x01000404, 0x01010004, 0x01000000, 0x00000004,
      0x00000404, 0x01000400, 0x01000400, 0x00010400,
      0x00010400, 0x01010000, 0x01010000, 0x01000404,
      0x00010004, 0x01000004, 0x01000004, 0x00010004,
      0x00000000, 0x00000404, 0x00010404, 0x01000000,
      0x00010000, 0x01010404, 0x00000004, 0x01010000,
      0x01010400, 0x01000000, 0x01000000, 0x00000400,
      0x01010004, 0x00010000, 0x00010400, 0x01000004,
      0x00000400, 0x00000004, 0x01000404, 0x00010404,
      0x01010404, 0x00010004, 0x01010000, 0x01000404,
      0x01000004, 0x00000404, 0x00010404, 0x01010400,
      0x00000404, 0x01000400, 0x01000400, 0x00000000,
      0x00010004, 0x00010400, 0x00000000, 0x01010004],
     [0x80108020, 0x80008000, 0x00008000, 0x00108020,
      0x00100000, 0x00000020, 0x80100020, 0x80008020,
      0x80000020, 0x80108020, 0x80108000, 0x80000000,
      0x80008000, 0x00100000, 0x00000020, 0x80100020,
      0x00108000, 0x00100020, 0x80008020, 0x00000000,
      0x80000000, 0x00008000, 0x00108020, 0x80100000,
      0x00100020, 0x80000020, 0x00000000, 0x00108000,
      0x00008020, 0x80108000, 0x80100000, 0x00008020,
      0x00000000, 0x00108020, 0x80100020, 0x00100000,
      0x80008020, 0x80100000, 0x80108000, 0x00008000,
      0x80100000, 0x80008000, 0x00000020, 0x80108020,
      0x00108020, 0x00000020, 0x00008000, 0x80000000,
      0x00008020, 0x80108000, 0x00100000, 0x80000020,
      0x00100020, 0x80008020, 0x80000020, 0x00100020,
      0x00108000, 0x00000000, 0x80008000, 0x00008020,
      0x80000000, 0x80100020, 0x80108020, 0x00108000],
     [0x00000208, 0x08020200, 0x00000000, 0x08020008,
      0x08000200, 0x00000000, 0x00020208, 0x08000200,
      0x00020008, 0x08000008, 0x08000008, 0x00020000,
      0x08020208, 0x00020008, 0x08020000, 0x00000208,
      0x08000000, 0x00000008, 0x08020200, 0x00000200,
      0x00020200, 0x08020000, 0x08020008, 0x00020208,
      0x08000208, 0x00020200, 0x00020000, 0x08000208,
      0x00000008, 0x08020208, 0x00000200, 0x08000000,
      0x08020200, 0x08000000, 0x00020008, 0x00000208,
      0x00020000, 0x08020200, 0x08000200, 0x00000000,
      0x00000200, 0x00020008, 0x08020208, 0x08000200,
      0x08000008, 0x00000200, 0x00000000, 0x08020008,
      0x08000208, 0x00020000, 0x08000000, 0x08020208,
      0x00000008, 0x00020208, 0x00020200, 0x08000008,
      0x08020000, 0x08000208, 0x00000208, 0x08020000,
      0x00020208, 0x00000008, 0x08020008, 0x00020200],
     [0x00802001, 0x00002081, 0x00002081, 0x00000080,
      0x00802080, 0x00800081, 0x00800001, 0x00002001,
      0x00000000, 0x00802000, 0x00802000, 0x00802081,
      0x00000081, 0x00000000, 0x00800080, 0x00800001,
      0x00000001, 0x00002000, 0x00800000, 0x00802001,
      0x00000080, 0x00800000, 0x00002001, 0x00002080,
      0x00800081, 0x00000001, 0x00002080, 0x00800080,
      0x00002000, 0x00802080, 0x00802081, 0x00000081,
      0x00800080, 0x00800001, 0x00802000, 0x00802081,
      0x00000081, 0x00000000, 0x00000000, 0x00802000,
      0x00002080, 0x00800080, 0x00800081, 0x00000001,
      0x00802001, 0x00002081, 0x00002081, 0x00000080,
      0x00802081, 0x00000081, 0x00000001, 0x00002000,
      0x00800001, 0x00002001, 0x00802080, 0x00800081,
      0x00002001, 0x00002080, 0x00800000, 0x00802001,
      0x00000080, 0x00800000, 0x00002000, 0x00802080],
     [0x00000100, 0x02080100, 0x02080000, 0x42000100,
      0x00080000, 0x00000100, 0x40000000, 0x02080000,
      0x40080100, 0x00080000, 0x02000100, 0x40080100,
      0x42000100, 0x42080000, 0x00080100, 0x40000000,
      0x02000000, 0x40080000, 0x40080000, 0x00000000,
      0x40000100, 0x42080100, 0x42080100, 0x02000100,
      0x42080000, 0x40000100, 0x00000000, 0x42000000,
      0x02080100, 0x02000000, 0x42000000, 0x00080100,
      0x00080000, 0x42000100, 0x00000100, 0x02000000,
      0x40000000, 0x02080000, 0x42000100, 0x40080100,
      0x02000100, 0x40000000, 0x42080000, 0x02080100,
      0x40080100, 0x00000100, 0x02000000, 0x42080000,
      0x42080100, 0x00080100, 0x42000000, 0x42080100,
      0x02080000, 0x00000000, 0x40080000, 0x42000000,
      0x00080100, 0x02000100, 0x40000100, 0x00080000,
      0x00000000, 0x40080000, 0x02080100, 0x40000100],
     [0x20000010, 0x20400000, 0x00004000, 0x20404010,
      0x20400000, 0x00000010, 0x20404010, 0x00400000,
      0x20004000, 0x00404010, 0x00400000, 0x20000010,
      0x00400010, 0x20004000, 0x20000000, 0x00004010,
      0x00000000, 0x00400010, 0x20004010, 0x00004000,
      0x00404000, 0x20004010, 0x00000010, 0x20400010,
      0x20400010, 0x00000000, 0x00404010, 0x20404000,
      0x00004010, 0x00404000, 0x20404000, 0x20000000,
      0x20004000, 0x00000010, 0x20400010, 0x00404000,
      0x20404010, 0x00400000, 0x00004010, 0x20000010,
      0x00400000, 0x20004000, 0x20000000, 0x00004010,
      0x20000010, 0x20404010, 0x00404000, 0x20400000,
      0x00404010, 0x20404000, 0x00000000, 0x20400010,
      0x00000010, 0x00004000, 0x20400000, 0x00404010,
      0x00004000, 0x00400010, 0x20004010, 0x00000000,
      0x20404000, 0x20000000, 0x00400010, 0x20004010],
     [0x00200000, 0x04200002, 0x04000802, 0x00000000,
      0x00000800, 0x04000802, 0x00200802, 0x04200800,
      0x04200802, 0x00200000, 0x00000000, 0x04000002,
      0x00000002, 0x04000000, 0x04200002, 0x00000802,
      0x04000800, 0x00200802, 0x00200002, 0x04000800,
      0x04000002, 0x04200000, 0x04200800, 0x00200002,
      0x04200000, 0x00000800, 0x00000802, 0x04200802,
      0x00200800, 0x00000002, 0x04000000, 0x00200800,
      0x04000000, 0x00200800, 0x00200000, 0x04000802,
      0x04000802, 0x04200002, 0x04200002, 0x00000002,
      0x00200002, 0x04000000, 0x04000800, 0x00200000,
      0x04200800, 0x00000802, 0x00200802, 0x04200800,
      0x00000802, 0x04000002, 0x04200802, 0x04200000,
      0x00200800, 0x00000000, 0x00000002, 0x04200802,
      0x00000000, 0x00200802, 0x04200000, 0x00000800,
      0x04000002, 0x04000800, 0x00000800, 0x00200002],
     [0x10001040, 0x00001000, 0x00040000, 0x10041040,
      0x10000000, 0x10001040, 0x00000040, 0x10000000,
      0x00040040, 0x10040000, 0x10041040, 0x00041000,
      0x10041000, 0x00041040, 0x00001000, 0x00000040,
      0x10040000, 0x10000040, 0x10001000, 0x00001040,
      0x00041000, 0x00040040, 0x10040040, 0x10041000,
      0x00001040, 0x00000000, 0x00000000, 0x10040040,
      0x10000040, 0x10001000, 0x00041040, 0x00040000,
      0x00041040, 0x00040000, 0x10041000, 0x00001000,
      0x00000040, 0x10040040, 0x00001000, 0x00041040,
      0x10001000, 0x00000040, 0x10000040, 0x10040000,
      0x10040040, 0x10000000, 0x00040000, 0x10001040,
      0x00000000, 0x10041040, 0x00040040, 0x10000040,
      0x10040000, 0x10001000, 0x10001040, 0x00000000,
      0x10041040, 0x00041000, 0x00041000, 0x00001040,
      0x00001040, 0x00040040, 0x10000000, 0x10041000]]"

definition pc1 :: "nat list" where
  "pc1 =
    [57, 49, 41, 33, 25, 17,  9,
      1, 58, 50, 42, 34, 26, 18,
     10,  2, 59, 51, 43, 35, 27,
     19, 11,  3, 60, 52, 44, 36,
     63, 55, 47, 39, 31, 23, 15,
      7, 62, 54, 46, 38, 30, 22,
     14,  6, 61, 53, 45, 37, 29,
     21, 13,  5, 28, 20, 12,  4]"

definition totrot :: "nat list" where
  "totrot = [1, 2, 4, 6, 8, 10, 12, 14, 15, 17, 19, 21, 23, 25, 27, 28]"

definition pc2 :: "nat list" where
  "pc2 =
    [14, 17, 11, 24,  1,  5,
      3, 28, 15,  6, 21, 10,
     23, 19, 12,  4, 26,  8,
     16,  7, 27, 20, 13,  2,
     41, 52, 31, 37, 47, 55,
     30, 40, 51, 45, 33, 48,
     44, 49, 39, 56, 34, 53,
     46, 42, 50, 36, 29, 32]"

definition bytebit :: "byte list" where
  "bytebit = [0x80, 0x40, 0x20, 0x10, 0x08, 0x04, 0x02, 0x01]"

section \<open>The key schedule\<close>

type_synonym des_ks = "(u32 \<times> u32) list"

definition pc1_bits :: "byte list \<Rightarrow> bool list" where
  "pc1_bits key = map (\<lambda>j. let l = pc1 ! j - 1; m = l mod 8 in key ! (l div 8) AND bytebit ! m \<noteq> 0) [0..<56]"

definition rotate_bits :: "bool list \<Rightarrow> nat \<Rightarrow> bool list" where
  "rotate_bits pc1m rot = map (\<lambda>j. let l = j + rot in pc1m ! (if l < (if j < 28 then 28 else 56) then l else l - 28)) [0..<56]"

definition select_bits :: "bool list \<Rightarrow> byte list" where
  "select_bits pcr = foldl (\<lambda>ks j. if pcr ! (pc2 ! j - 1)
       then ks[j div 6 := ks ! (j div 6) OR drop_bit 2 (bytebit ! (j mod 6))] else ks)
     (replicate 8 0) [0..<48]"

definition pack4 :: "byte \<Rightarrow> byte \<Rightarrow> byte \<Rightarrow> byte \<Rightarrow> u32" where
  "pack4 a b c d = push_bit 24 (ucast a) OR push_bit 16 (ucast b) OR push_bit 8 (ucast c) OR ucast d"

definition xntlm_deskey :: "byte list \<Rightarrow> bool \<Rightarrow> des_ks" where
  "xntlm_deskey key decrypt = map (\<lambda>i.
     let ks = select_bits (rotate_bits (pc1_bits key) (totrot ! (if decrypt then 15 - i else i)))
     in (pack4 (ks ! 0) (ks ! 2) (ks ! 4) (ks ! 6), pack4 (ks ! 1) (ks ! 3) (ks ! 5) (ks ! 7))) [0..<16]"

section \<open>Encryption of a block\<close>

definition sp :: "nat \<Rightarrow> u32 \<Rightarrow> u32" where
  "sp i w = Spbox ! i ! unat (w AND 0x3f)"

text \<open>The macro \<open>F (l, r, key)\<close>: what it leaves in \<open>l\<close>.\<close>

definition des_F :: "u32 \<Rightarrow> u32 \<Rightarrow> u32 \<times> u32 \<Rightarrow> u32" where
  "des_F l r key =
     (let work = (drop_bit 4 r OR push_bit 28 r) XOR fst key;
          l = l XOR sp 6 work;
          l = l XOR sp 4 (drop_bit 8 work);
          l = l XOR sp 2 (drop_bit 16 work);
          l = l XOR sp 0 (drop_bit 24 work);
          work = r XOR snd key;
          l = l XOR sp 7 work;
          l = l XOR sp 5 (drop_bit 8 work);
          l = l XOR sp 3 (drop_bit 16 work)
      in l XOR sp 1 (drop_bit 24 work))"

text \<open>
  \<open>exchange n m (a, b)\<close> is the pair of registers after
  \<open>work = ((a >> n) ^ b) & m; b ^= work; a ^= work << n;\<close>.
\<close>

definition exchange :: "nat \<Rightarrow> u32 \<Rightarrow> u32 \<times> u32 \<Rightarrow> u32 \<times> u32" where
  "exchange n m = (\<lambda>(a, b). let work = (drop_bit n a XOR b) AND m in (a XOR push_bit n work, b XOR work))"

definition rotl1 :: "u32 \<Rightarrow> u32" where
  "rotl1 w = push_bit 1 w OR drop_bit 31 w"

definition rotr1 :: "u32 \<Rightarrow> u32" where
  "rotr1 w = push_bit 31 w OR drop_bit 1 w"

definition initial_permutation :: "u32 \<times> u32 \<Rightarrow> u32 \<times> u32" where
  "initial_permutation s =
     (let (left, right) = exchange 16 0xffff (exchange 4 0x0f0f0f0f s);
          (right, left) = exchange 8 0xff00ff (exchange 2 0x33333333 (right, left));
          right = rotl1 right;
          (left, right) = exchange 0 0xaaaaaaaa (left, right);
          left = rotl1 left
      in (left, right))"

definition final_permutation :: "u32 \<times> u32 \<Rightarrow> u32 \<times> u32" where
  "final_permutation = (\<lambda>(left, right).
     let right = rotr1 right;
         (left, right) = exchange 0 0xaaaaaaaa (left, right);
         left = rotr1 left;
         (left, right) = exchange 2 0x33333333 (exchange 8 0xff00ff (left, right));
         (right, left) = exchange 4 0x0f0f0f0f (exchange 16 0xffff (right, left))
     in (left, right))"

text \<open>\<open>F (left, right, k)\<close> and \<open>F (right, left, k)\<close> in turn.\<close>

definition des_step :: "bool \<times> u32 \<times> u32 \<Rightarrow> u32 \<times> u32 \<Rightarrow> u32 \<times> u32" where
  "des_step = (\<lambda>(onleft, key) (left, right).
     if onleft then (des_F left right key, right) else (left, des_F right left key))"

definition des_rounds :: "des_ks \<Rightarrow> u32 \<times> u32 \<Rightarrow> u32 \<times> u32" where
  "des_rounds ks = fold des_step
     [(True, ks ! 0), (False, ks ! 1), (True, ks ! 2), (False, ks ! 3),
      (True, ks ! 4), (False, ks ! 5), (True, ks ! 6), (False, ks ! 7),
      (True, ks ! 8), (False, ks ! 9), (True, ks ! 10), (False, ks ! 11),
      (True, ks ! 12), (False, ks ! 13), (True, ks ! 14), (False, ks ! 15)]"

definition be_bytes :: "u32 \<Rightarrow> byte list" where
  "be_bytes w = [ucast (drop_bit 24 w), ucast (drop_bit 16 w), ucast (drop_bit 8 w), ucast w]"

text \<open>The first eight bytes of the block are replaced.\<close>

definition xntlm_des :: "des_ks \<Rightarrow> byte list \<Rightarrow> byte list" where
  "xntlm_des ks block =
     (let left = pack4 (block ! 0) (block ! 1) (block ! 2) (block ! 3);
          right = pack4 (block ! 4) (block ! 5) (block ! 6) (block ! 7);
          (left, right) = final_permutation (des_rounds ks (initial_permutation (left, right)))
      in be_bytes right @ be_bytes left @ drop 8 block)"

section \<open>The permutations\<close>

lemma exchange_work:
  assumes "drop_bit n (push_bit n m) = (m :: u32)" "w = (drop_bit n a XOR b) AND m"
  shows "(drop_bit n (a XOR push_bit n w) XOR (b XOR w)) AND m = w"
proof (rule bit_word_eqI)
  fix i assume i: "i < LENGTH(32)"
  have "i + n < LENGTH(32)" if "bit m i"
  proof -
    have "bit (drop_bit n (push_bit n m)) i" using that by (simp only: assms(1))
    then have "bit (push_bit n m) (n + i)" by (simp add: bit_drop_bit_eq)
    then have "n + i < LENGTH(32)" by (rule bit_imp_le_length)
    then show ?thesis by simp
  qed
  then show "bit ((drop_bit n (a XOR push_bit n w) XOR (b XOR w)) AND m) i = bit w i"
    using i unfolding assms(2) by (auto simp: bit_simps add.commute)
qed

lemma exchange_exchange:
  assumes "drop_bit n (push_bit n m) = m"
  shows "exchange n m (exchange n m s) = s"
proof -
  obtain a b where s: "s = (a, b)" by (cases s)
  define w where "w = (drop_bit n a XOR b) AND m"
  have "exchange n m s = (a XOR push_bit n w, b XOR w)"
    by (simp only: s exchange_def Let_def w_def prod.case)
  moreover have "exchange n m (a XOR push_bit n w, b XOR w) = (a, b)"
    unfolding exchange_def prod.case Let_def exchange_work [OF assms w_def] by (simp add: xor.assoc)
  ultimately show ?thesis by (simp only: s)
qed

lemma exchange_0_sym: "exchange 0 m (a, b) = (c, d) \<Longrightarrow> exchange 0 m (b, a) = (d, c)"
  by (auto simp: exchange_def Let_def xor.commute)

lemma exchange_pairs [simp]:
  "exchange 16 0xffff (exchange 16 0xffff s) = s" "exchange 4 0x0f0f0f0f (exchange 4 0x0f0f0f0f s) = s"
  "exchange 8 0xff00ff (exchange 8 0xff00ff s) = s" "exchange 2 0x33333333 (exchange 2 0x33333333 s) = s"
  "exchange 0 0xaaaaaaaa (exchange 0 0xaaaaaaaa s) = s"
  by (rule exchange_exchange; simp add: drop_bit_eq_div push_bit_eq_mult)+

lemma rotl1_rotr1 [simp]: "rotl1 (rotr1 w) = w"
  unfolding rotl1_def rotr1_def
  by (rule bit_word_eqI) (auto simp: bit_simps simp del: push_bit_Suc One_nat_def)

lemma rotr1_rotl1 [simp]: "rotr1 (rotl1 w) = w"
proof (rule bit_word_eqI)
  fix n assume "n < LENGTH(32)"
  then show "bit (rotr1 (rotl1 w)) n = bit w n"
    unfolding rotl1_def rotr1_def
    by (cases "n = 31") (auto simp: bit_simps simp del: push_bit_Suc One_nat_def)
qed

text \<open>The final permutation undoes the initial one, with the two registers exchanged.\<close>

lemma initial_final: "prod.swap (initial_permutation (prod.swap (final_permutation (l, r)))) = (l, r)"
proof -
  obtain l1 r1 where 1: "exchange 0 0xaaaaaaaa (l, rotr1 r) = (l1, r1)" by fastforce
  obtain l2 r2 where 2: "exchange 8 0xff00ff (rotr1 l1, r1) = (l2, r2)" by fastforce
  obtain l3 r3 where 3: "exchange 2 0x33333333 (l2, r2) = (l3, r3)" by fastforce
  obtain r4 l4 where 4: "exchange 16 0xffff (r3, l3) = (r4, l4)" by fastforce
  obtain r5 l5 where 5: "exchange 4 0x0f0f0f0f (r4, l4) = (r5, l5)" by fastforce
  have b: "exchange 0 0xaaaaaaaa (r1, l1) = (rotr1 r, l)" "exchange 8 0xff00ff (l2, r2) = (rotr1 l1, r1)"
    "exchange 2 0x33333333 (l3, r3) = (l2, r2)" "exchange 16 0xffff (r4, l4) = (r3, l3)"
    "exchange 4 0x0f0f0f0f (r5, l5) = (r4, l4)"
    by (metis 1 exchange_pairs(5) exchange_0_sym) (metis 2 exchange_pairs(3), metis 3 exchange_pairs(4),
      metis 4 exchange_pairs(1), metis 5 exchange_pairs(2))
  have "final_permutation (l, r) = (l5, r5)"
    by (simp add: final_permutation_def 1 2 3 4 5)
  moreover have "initial_permutation (r5, l5) = (r, l)"
    by (simp add: initial_permutation_def b)
  ultimately show ?thesis by simp
qed

section \<open>Blocks and rounds\<close>

lemma pack4_be_bytes [simp]:
  "pack4 (ucast (drop_bit 24 w)) (ucast (drop_bit 16 w)) (ucast (drop_bit 8 w)) (ucast w) = w"
  using of_le32_bytes [of w] unfolding pack4_def of_le32_def by (simp only: or.assoc or.commute or.left_commute)

lemma be_bytes_pack4 [simp]: "be_bytes (pack4 a b c d) = [a, b, c, d]"
  unfolding be_bytes_def pack4_def
  by (auto intro!: bit_word_eqI simp: bit_simps dest: bit_imp_le_length)

lemma length_be_bytes [simp]: "length (be_bytes w) = 4"
  by (simp add: be_bytes_def)

lemma des_F_xor: "des_F l r k = l XOR des_F 0 r k"
  by (simp only: des_F_def Let_def xor.assoc xor.left_neutral)

lemma des_F_des_F: "des_F (des_F l r k) r k = l"
  by (subst (1 2) des_F_xor) (simp add: xor.assoc)

interpretation des: self_inverse_steps des_step
proof
  fix k s show "des_step k (des_step k s) = s"
    by (cases k; cases s) (simp add: des_step_def des_F_des_F)
qed

text \<open>Running the rounds on exchanged registers is running them with the sides exchanged.\<close>

lemma des_step_swap: "des_step (b, k) (prod.swap s) = prod.swap (des_step (\<not> b, k) s)"
  by (cases s) (simp add: des_step_def)

lemma fold_step_swap: "fold des_step ks (prod.swap s) = prod.swap (fold des_step (map (apfst Not) ks) s)"
proof (induction ks arbitrary: s)
  case (Cons k ks)
  then show ?case by (cases k) (simp add: des_step_swap)
qed simp

definition sides :: "des_ks \<Rightarrow> (bool \<times> u32 \<times> u32) list" where
  "sides ks = map (\<lambda>i. (even i, ks ! i)) [0..<16]"

lemma upt_16: "[0..<16] = [0, 1, 2, 3, 4, 5, 6, 7, 8, 9, 10, 11, 12, 13, 14, 15]"
  by code_simp

lemma des_rounds_sides: "des_rounds ks = fold des_step (sides ks)"
  by (simp add: des_rounds_def sides_def upt_16)

lemma sides_rev: "length ks = 16 \<Longrightarrow> sides (rev ks) = map (apfst Not) (rev (sides ks))"
  by (rule nth_equalityI) (auto simp: sides_def rev_nth)

lemma des_rounds_back:
  assumes "length ks = 16"
  shows "des_rounds (rev ks) (prod.swap (des_rounds ks s)) = prod.swap s"
proof -
  have "des_rounds (rev ks) (prod.swap (des_rounds ks s)) =
      prod.swap (fold des_step (map (apfst Not) (sides (rev ks))) (des_rounds ks s))"
    by (simp only: des_rounds_sides fold_step_swap)
  also have "map (apfst Not) (sides (rev ks)) = rev (sides ks)"
    by (simp add: sides_rev [OF assms] comp_def apfst_def map_prod_def case_prod_beta)
  finally show ?thesis by (simp only: des_rounds_sides des.run_back)
qed

lemma length_deskey [simp]: "length (xntlm_deskey key d) = 16"
  by (simp add: xntlm_deskey_def)

lemma deskey_decrypt: "xntlm_deskey key True = rev (xntlm_deskey key False)"
  by (rule nth_equalityI) (auto simp: xntlm_deskey_def rev_nth Let_def)

lemma length_xntlm_des [simp]: "8 \<le> length block \<Longrightarrow> length (xntlm_des ks block) = length block"
  by (simp add: xntlm_des_def Let_def split: prod.splits)

text \<open>A block as a pair of registers.\<close>

definition block_regs :: "byte list \<Rightarrow> u32 \<times> u32" where
  "block_regs block = (pack4 (block ! 0) (block ! 1) (block ! 2) (block ! 3),
                       pack4 (block ! 4) (block ! 5) (block ! 6) (block ! 7))"

definition regs_block :: "u32 \<times> u32 \<Rightarrow> byte list" where
  "regs_block = (\<lambda>(l, r). be_bytes l @ be_bytes r)"

lemma xntlm_des_alt:
  "xntlm_des ks block =
     regs_block (prod.swap (final_permutation (des_rounds ks (initial_permutation (block_regs block))))) @ drop 8 block"
  by (simp add: xntlm_des_def block_regs_def regs_block_def Let_def case_prod_beta)

lemma block_regs_block [simp]: "block_regs (regs_block s @ xs) = s"
  by (cases s) (simp add: block_regs_def regs_block_def be_bytes_def nth_append)

lemma regs_block_regs: "8 \<le> length block \<Longrightarrow> regs_block (block_regs block) = take 8 block"
proof -
  assume "8 \<le> length block"
  then obtain a b c d e f g h r where "block = a # b # c # d # e # f # g # h # r"
    by (auto simp: numeral_eq_Suc Suc_le_length_iff)
  then show ?thesis by (simp add: block_regs_def regs_block_def)
qed

lemma initial_of_final: "initial_permutation (prod.swap (final_permutation s)) = prod.swap s"
  using initial_final [of "fst s" "snd s"] by (metis prod.collapse swap_swap)

lemma final_of_initial: "final_permutation (prod.swap (initial_permutation s)) = prod.swap s"
proof -
  obtain l r where s: "s = (l, r)" by fastforce
  obtain l1 r1 where 1: "exchange 4 0x0f0f0f0f (l, r) = (l1, r1)" by fastforce
  obtain l2 r2 where 2: "exchange 16 0xffff (l1, r1) = (l2, r2)" by fastforce
  obtain r3 l3 where 3: "exchange 2 0x33333333 (r2, l2) = (r3, l3)" by fastforce
  obtain r4 l4 where 4: "exchange 8 0xff00ff (r3, l3) = (r4, l4)" by fastforce
  obtain l5 r5 where 5: "exchange 0 0xaaaaaaaa (l4, rotl1 r4) = (l5, r5)" by fastforce
  have b: "exchange 4 0x0f0f0f0f (l1, r1) = (l, r)" "exchange 16 0xffff (l2, r2) = (l1, r1)"
    "exchange 2 0x33333333 (r3, l3) = (r2, l2)" "exchange 8 0xff00ff (r4, l4) = (r3, l3)"
    "exchange 0 0xaaaaaaaa (r5, l5) = (rotl1 r4, l4)"
    by (metis 1 exchange_pairs(2)) (metis 2 exchange_pairs(1), metis 3 exchange_pairs(4),
      metis 4 exchange_pairs(3), metis 5 exchange_pairs(5) exchange_0_sym)
  have "initial_permutation s = (rotl1 l5, r5)"
    by (simp add: s initial_permutation_def 1 2 3 4 5)
  moreover have "final_permutation (r5, rotl1 l5) = (r, l)"
    by (simp add: final_permutation_def b)
  ultimately show ?thesis by (simp add: s)
qed

lemma des_inverse:
  assumes "8 \<le> length block"
  shows "xntlm_des (xntlm_deskey key True) (xntlm_des (xntlm_deskey key False) block) = block"
proof -
  let ?ks = "xntlm_deskey key False" and ?s = "block_regs block"
  have "des_rounds (rev ?ks) (prod.swap (des_rounds ?ks (initial_permutation ?s))) =
      prod.swap (initial_permutation ?s)"
    by (rule des_rounds_back) simp
  then have "xntlm_des (rev ?ks) (xntlm_des ?ks block) =
      regs_block (prod.swap (final_permutation (prod.swap (initial_permutation ?s)))) @ drop 8 block"
    by (simp add: xntlm_des_alt initial_of_final)
      (simp add: regs_block_def case_prod_beta)
  then show ?thesis
    using assms by (simp add: deskey_decrypt final_of_initial regs_block_regs)
qed

section \<open>Properties\<close>

text \<open>
  C18. Decryption inverts encryption, for every key and every block: running the block function
  with the decryption schedule on an encrypted block restores it.
\<close>

theorem des_decrypt_encrypt:
  assumes "8 \<le> length block"
  shows "xntlm_des (xntlm_deskey key True) (xntlm_des (xntlm_deskey key False) block) = block"
  using assms by (rule des_inverse)

lemma des_decrypt_encrypt_witness:
  "xntlm_des (xntlm_deskey [1, 2, 3, 4, 5, 6, 7, 8] True)
     (xntlm_des (xntlm_deskey [1, 2, 3, 4, 5, 6, 7, 8] False) [75, 71, 83, 33, 64, 35, 36, 37]) =
   [75, 71, 83, 33, 64, 35, 36, 37]"
  by (rule des_decrypt_encrypt) simp

end
