(* ===== verification/Md4.thy ===== *)
theory Md4
  imports Prelude
begin

text \<open>
  The MD4 implementation of server/xntlm/xntlm-md4.c: the unrolled compression function, the loop
  over the blocks and the assembly of the last one in a buffer of 128 bytes. The reference is the
  definition of RFC 1320, with its tables as formulas. The lemmas show that the two agree unless
  the length is 56 modulo 64, and what the code computes then.
\<close>

section \<open>The compression function\<close>

definition FF :: "u32 \<Rightarrow> u32 \<Rightarrow> u32 \<Rightarrow> u32" where
  "FF X Y Z = (X AND Y) OR (NOT X AND Z)"

definition GG :: "u32 \<Rightarrow> u32 \<Rightarrow> u32 \<Rightarrow> u32" where
  "GG X Y Z = (X AND Y) OR (X AND Z) OR (Y AND Z)"

definition HH :: "u32 \<Rightarrow> u32 \<Rightarrow> u32 \<Rightarrow> u32" where
  "HH X Y Z = X XOR Y XOR Z"

definition ROT :: "u32 \<Rightarrow> nat \<Rightarrow> u32" where
  "ROT v n = push_bit n v OR drop_bit (32 - n) v"

type_synonym md4_regs = "u32 \<times> u32 \<times> u32 \<times> u32"

text \<open>
  The four kinds of assignment, \<open>A = ROT (A + f (B, C, D) + x + k, s)\<close> and its rotations; the first
  sixteen have no constant, which is \<open>k = 0\<close>.
\<close>

definition set_A :: "(u32 \<Rightarrow> u32 \<Rightarrow> u32 \<Rightarrow> u32) \<Rightarrow> u32 \<Rightarrow> nat \<Rightarrow> u32 \<Rightarrow> md4_regs \<Rightarrow> md4_regs" where
  "set_A f k s x = (\<lambda>(A, B, C, D). (ROT (A + f B C D + x + k) s, B, C, D))"

definition set_D :: "(u32 \<Rightarrow> u32 \<Rightarrow> u32 \<Rightarrow> u32) \<Rightarrow> u32 \<Rightarrow> nat \<Rightarrow> u32 \<Rightarrow> md4_regs \<Rightarrow> md4_regs" where
  "set_D f k s x = (\<lambda>(A, B, C, D). (A, B, C, ROT (D + f A B C + x + k) s))"

definition set_C :: "(u32 \<Rightarrow> u32 \<Rightarrow> u32 \<Rightarrow> u32) \<Rightarrow> u32 \<Rightarrow> nat \<Rightarrow> u32 \<Rightarrow> md4_regs \<Rightarrow> md4_regs" where
  "set_C f k s x = (\<lambda>(A, B, C, D). (A, B, ROT (C + f D A B + x + k) s, D))"

definition set_B :: "(u32 \<Rightarrow> u32 \<Rightarrow> u32 \<Rightarrow> u32) \<Rightarrow> u32 \<Rightarrow> nat \<Rightarrow> u32 \<Rightarrow> md4_regs \<Rightarrow> md4_regs" where
  "set_B f k s x = (\<lambda>(A, B, C, D). (A, ROT (B + f C D A + x + k) s, C, D))"

definition md4_round1 :: "u32 list \<Rightarrow> (md4_regs \<Rightarrow> md4_regs) list" where
  "md4_round1 X =
     [set_A FF 0 3 (X ! 0), set_D FF 0 7 (X ! 1), set_C FF 0 11 (X ! 2), set_B FF 0 19 (X ! 3),
      set_A FF 0 3 (X ! 4), set_D FF 0 7 (X ! 5), set_C FF 0 11 (X ! 6), set_B FF 0 19 (X ! 7),
      set_A FF 0 3 (X ! 8), set_D FF 0 7 (X ! 9), set_C FF 0 11 (X ! 10), set_B FF 0 19 (X ! 11),
      set_A FF 0 3 (X ! 12), set_D FF 0 7 (X ! 13), set_C FF 0 11 (X ! 14), set_B FF 0 19 (X ! 15)]"

definition md4_round2 :: "u32 list \<Rightarrow> (md4_regs \<Rightarrow> md4_regs) list" where
  "md4_round2 X =
     [set_A GG 0x5A827999 3 (X ! 0), set_D GG 0x5A827999 5 (X ! 4), set_C GG 0x5A827999 9 (X ! 8), set_B GG 0x5A827999 13 (X ! 12),
      set_A GG 0x5A827999 3 (X ! 1), set_D GG 0x5A827999 5 (X ! 5), set_C GG 0x5A827999 9 (X ! 9), set_B GG 0x5A827999 13 (X ! 13),
      set_A GG 0x5A827999 3 (X ! 2), set_D GG 0x5A827999 5 (X ! 6), set_C GG 0x5A827999 9 (X ! 10), set_B GG 0x5A827999 13 (X ! 14),
      set_A GG 0x5A827999 3 (X ! 3), set_D GG 0x5A827999 5 (X ! 7), set_C GG 0x5A827999 9 (X ! 11), set_B GG 0x5A827999 13 (X ! 15)]"

definition md4_round3 :: "u32 list \<Rightarrow> (md4_regs \<Rightarrow> md4_regs) list" where
  "md4_round3 X =
     [set_A HH 0x6ED9EBA1 3 (X ! 0), set_D HH 0x6ED9EBA1 9 (X ! 8), set_C HH 0x6ED9EBA1 11 (X ! 4), set_B HH 0x6ED9EBA1 15 (X ! 12),
      set_A HH 0x6ED9EBA1 3 (X ! 2), set_D HH 0x6ED9EBA1 9 (X ! 10), set_C HH 0x6ED9EBA1 11 (X ! 6), set_B HH 0x6ED9EBA1 15 (X ! 14),
      set_A HH 0x6ED9EBA1 3 (X ! 1), set_D HH 0x6ED9EBA1 9 (X ! 9), set_C HH 0x6ED9EBA1 11 (X ! 5), set_B HH 0x6ED9EBA1 15 (X ! 13),
      set_A HH 0x6ED9EBA1 3 (X ! 3), set_D HH 0x6ED9EBA1 9 (X ! 11), set_C HH 0x6ED9EBA1 11 (X ! 7), set_B HH 0x6ED9EBA1 15 (X ! 15)]"

definition md4_words :: "byte list \<Rightarrow> u32 list" where
  "md4_words M = map (\<lambda>i. of_le32 (M ! (4 * i)) (M ! (4 * i + 1)) (M ! (4 * i + 2)) (M ! (4 * i + 3))) [0..<16]"

definition add_regs :: "md4_regs \<Rightarrow> md4_regs \<Rightarrow> md4_regs" where
  "add_regs = (\<lambda>(AA, BB, CC, DD) (A, B, C, D). (AA + A, BB + B, CC + C, DD + D))"

definition md4sum_round :: "byte list \<Rightarrow> md4_regs \<Rightarrow> md4_regs" where
  "md4sum_round M regs =
     (let X = md4_words M
      in add_regs regs (fold (\<lambda>f. f) (md4_round1 X @ md4_round2 X @ md4_round3 X) regs))"

section \<open>The digest of a message\<close>

definition md4_init :: md4_regs where
  "md4_init = (0x67452301, 0xEFCDAB89, 0x98BADCFE, 0x10325476)"

definition md4_digest :: "md4_regs \<Rightarrow> byte list" where
  "md4_digest = (\<lambda>(A, B, C, D). le32 A @ le32 B @ le32 C @ le32 D)"

text \<open>The loop over full blocks while more than 64 bytes are left.\<close>

function md4_loop :: "byte list \<Rightarrow> md4_regs \<Rightarrow> md4_regs \<times> byte list" where
  "md4_loop inp regs =
     (if length inp > 64 then md4_loop (drop 64 inp) (md4sum_round (take 64 inp) regs) else (regs, inp))"
  by pat_completeness auto
termination
  by (relation "measure (\<lambda>(inp, _). length inp)") auto

declare md4_loop.simps [simp del]

text \<open>Stores of bytes into a buffer; one that does not fit is undefined.\<close>

definition store :: "nat \<Rightarrow> byte list \<Rightarrow> byte list \<Rightarrow> byte list result" where
  "store off bs M =
     (if off + length bs \<le> length M then Inr (take off M @ bs @ drop (off + length bs) M)
      else Inl Undefined)"

text \<open>\<open>M\<close> is the uninitialised buffer of 128 bytes.\<close>

definition xntlm_md4sum :: "byte list \<Rightarrow> byte list \<Rightarrow> byte list result" where
  "xntlm_md4sum M inp =
     (let nbytes = length inp;
          nbits = (of_nat (nbytes * 8) :: u32);
          pbytes = (120 - nbytes mod 64) mod 64;
          (regs, left) = md4_loop inp md4_init;
          remaining_bytes = length left
      in ok_bind (store 0 left M) (\<lambda>M.
         ok_bind (store remaining_bytes [0x80] M) (\<lambda>M.
         ok_bind (store (remaining_bytes + 1) (replicate (pbytes + 7) 0) M) (\<lambda>M.
         ok_bind (store (remaining_bytes + pbytes) (le32 nbits) M) (\<lambda>M.
           let regs = md4sum_round (take 64 M) regs;
               regs = (if remaining_bytes > 56 then md4sum_round (take 64 (drop 64 M)) regs else regs)
           in Inr (md4_digest regs))))))"

section \<open>RFC 1320\<close>

text \<open>
  The reference, with one operation per step on registers that rotate: the word a step uses and
  the amount of its rotation are functions of the round and the position in it.
\<close>

definition rfc_f :: "nat \<Rightarrow> u32 \<Rightarrow> u32 \<Rightarrow> u32 \<Rightarrow> u32" where
  "rfc_f r = (if r = 0 then FF else if r = 1 then GG else HH)"

definition rfc_const :: "nat \<Rightarrow> u32" where
  "rfc_const r = (if r = 0 then 0 else if r = 1 then 0x5A827999 else 0x6ED9EBA1)"

definition rfc_word :: "nat \<Rightarrow> nat \<Rightarrow> nat" where
  "rfc_word r i =
     (if r = 0 then i
      else if r = 1 then 4 * (i mod 4) + i div 4
      else 8 * (i mod 2) + 4 * (i div 2 mod 2) + 2 * (i div 4 mod 2) + i div 8)"

definition rfc_shift :: "nat \<Rightarrow> nat \<Rightarrow> nat" where
  "rfc_shift r i =
     (if r = 0 then [3, 7, 11, 19] else if r = 1 then [3, 5, 9, 13] else [3, 9, 11, 15]) ! (i mod 4)"

definition rfc_step :: "u32 list \<Rightarrow> nat \<times> nat \<Rightarrow> md4_regs \<Rightarrow> md4_regs" where
  "rfc_step X = (\<lambda>(r, i) (a, b, c, d).
     (d, ROT (a + rfc_f r b c d + X ! rfc_word r i + rfc_const r) (rfc_shift r i), b, c))"

definition rfc_compress :: "byte list \<Rightarrow> md4_regs \<Rightarrow> md4_regs" where
  "rfc_compress M regs =
     add_regs regs (fold (rfc_step (md4_words M)) [(r, i). r \<leftarrow> [0..<3], i \<leftarrow> [0..<16]] regs)"

function rfc_blocks :: "byte list \<Rightarrow> md4_regs \<Rightarrow> md4_regs" where
  "rfc_blocks bs regs =
     (if length bs < 64 then regs else rfc_blocks (drop 64 bs) (rfc_compress (take 64 bs) regs))"
  by pat_completeness auto
termination
  by (relation "measure (\<lambda>(bs, _). length bs)") auto

declare rfc_blocks.simps [simp del]

text \<open>The length in bits as eight bytes, low-order word first.\<close>

definition bit_count :: "nat \<Rightarrow> byte list" where
  "bit_count n = (let w = (of_nat (8 * n) :: u64) in le32 (ucast w) @ le32 (ucast (drop_bit 32 w)))"

definition rfc_pad :: "byte list \<Rightarrow> byte list" where
  "rfc_pad msg = msg @ 0x80 # replicate ((119 - length msg mod 64) mod 64) 0 @ bit_count (length msg)"

definition rfc_md4 :: "byte list \<Rightarrow> byte list" where
  "rfc_md4 msg = md4_digest (rfc_blocks (rfc_pad msg) md4_init)"

section \<open>The unrolled compression function is the one of the RFC\<close>

lemma rfc_four_steps:
  "fold (rfc_step X) [(r, i), (r, j), (r, k), (r, l)] =
   fold (\<lambda>f. f) [set_A (rfc_f r) (rfc_const r) (rfc_shift r i) (X ! rfc_word r i),
     set_D (rfc_f r) (rfc_const r) (rfc_shift r j) (X ! rfc_word r j),
     set_C (rfc_f r) (rfc_const r) (rfc_shift r k) (X ! rfc_word r k),
     set_B (rfc_f r) (rfc_const r) (rfc_shift r l) (X ! rfc_word r l)]"
  by (rule ext) (simp add: rfc_step_def set_A_def set_B_def set_C_def set_D_def split: prod.splits)

definition rfc_sixteen :: "nat \<Rightarrow> (nat \<times> nat) list" where
  "rfc_sixteen r = map (\<lambda>i. (r, i)) [0, 1, 2, 3] @ map (\<lambda>i. (r, i)) [4, 5, 6, 7] @
     map (\<lambda>i. (r, i)) [8, 9, 10, 11] @ map (\<lambda>i. (r, i)) [12, 13, 14, 15]"

lemma rfc_steps_unfold: "[(r, i). r \<leftarrow> [0..<3], i \<leftarrow> [0..<16]] = rfc_sixteen 0 @ rfc_sixteen 1 @ rfc_sixteen 2"
  by code_simp

lemma rfc_table0:
  "rfc_word 0 0 = 0" "rfc_word 0 1 = 1" "rfc_word 0 2 = 2" "rfc_word 0 3 = 3" "rfc_word 0 4 = 4"
  "rfc_word 0 5 = 5" "rfc_word 0 6 = 6" "rfc_word 0 7 = 7" "rfc_word 0 8 = 8" "rfc_word 0 9 = 9"
  "rfc_word 0 10 = 10" "rfc_word 0 11 = 11" "rfc_word 0 12 = 12" "rfc_word 0 13 = 13" "rfc_word 0 14 = 14"
  "rfc_word 0 15 = 15"
  "rfc_shift 0 0 = 3" "rfc_shift 0 1 = 7" "rfc_shift 0 2 = 11" "rfc_shift 0 3 = 19" "rfc_shift 0 4 = 3"
  "rfc_shift 0 5 = 7" "rfc_shift 0 6 = 11" "rfc_shift 0 7 = 19" "rfc_shift 0 8 = 3" "rfc_shift 0 9 = 7"
  "rfc_shift 0 10 = 11" "rfc_shift 0 11 = 19" "rfc_shift 0 12 = 3" "rfc_shift 0 13 = 7"
  "rfc_shift 0 14 = 11" "rfc_shift 0 15 = 19"
  by code_simp+

lemma rfc_table1:
  "rfc_word 1 0 = 0" "rfc_word 1 1 = 4" "rfc_word 1 2 = 8" "rfc_word 1 3 = 12" "rfc_word 1 4 = 1"
  "rfc_word 1 5 = 5" "rfc_word 1 6 = 9" "rfc_word 1 7 = 13" "rfc_word 1 8 = 2" "rfc_word 1 9 = 6"
  "rfc_word 1 10 = 10" "rfc_word 1 11 = 14" "rfc_word 1 12 = 3" "rfc_word 1 13 = 7" "rfc_word 1 14 = 11"
  "rfc_word 1 15 = 15"
  "rfc_shift 1 0 = 3" "rfc_shift 1 1 = 5" "rfc_shift 1 2 = 9" "rfc_shift 1 3 = 13" "rfc_shift 1 4 = 3"
  "rfc_shift 1 5 = 5" "rfc_shift 1 6 = 9" "rfc_shift 1 7 = 13" "rfc_shift 1 8 = 3" "rfc_shift 1 9 = 5"
  "rfc_shift 1 10 = 9" "rfc_shift 1 11 = 13" "rfc_shift 1 12 = 3" "rfc_shift 1 13 = 5" "rfc_shift 1 14 = 9"
  "rfc_shift 1 15 = 13"
  by code_simp+

lemma rfc_table2:
  "rfc_word 2 0 = 0" "rfc_word 2 1 = 8" "rfc_word 2 2 = 4" "rfc_word 2 3 = 12" "rfc_word 2 4 = 2"
  "rfc_word 2 5 = 10" "rfc_word 2 6 = 6" "rfc_word 2 7 = 14" "rfc_word 2 8 = 1" "rfc_word 2 9 = 9"
  "rfc_word 2 10 = 5" "rfc_word 2 11 = 13" "rfc_word 2 12 = 3" "rfc_word 2 13 = 11" "rfc_word 2 14 = 7"
  "rfc_word 2 15 = 15"
  "rfc_shift 2 0 = 3" "rfc_shift 2 1 = 9" "rfc_shift 2 2 = 11" "rfc_shift 2 3 = 15" "rfc_shift 2 4 = 3"
  "rfc_shift 2 5 = 9" "rfc_shift 2 6 = 11" "rfc_shift 2 7 = 15" "rfc_shift 2 8 = 3" "rfc_shift 2 9 = 9"
  "rfc_shift 2 10 = 11" "rfc_shift 2 11 = 15" "rfc_shift 2 12 = 3" "rfc_shift 2 13 = 9"
  "rfc_shift 2 14 = 11" "rfc_shift 2 15 = 15"
  by code_simp+

lemma rfc_round1: "fold (rfc_step X) (rfc_sixteen 0) = fold (\<lambda>f. f) (md4_round1 X)"
proof -
  have "rfc_f 0 = FF" "rfc_const 0 = 0" by (simp_all add: rfc_f_def rfc_const_def)
  then show ?thesis
    unfolding rfc_sixteen_def fold_append list.map rfc_four_steps md4_round1_def
    by (simp only: rfc_table0 fold_simps o_assoc fold.simps id_o o_id)
qed

lemma rfc_round2: "fold (rfc_step X) (rfc_sixteen 1) = fold (\<lambda>f. f) (md4_round2 X)"
proof -
  have "rfc_f 1 = GG" "rfc_const 1 = 0x5A827999" by (simp_all add: rfc_f_def rfc_const_def)
  then show ?thesis
    unfolding rfc_sixteen_def fold_append list.map rfc_four_steps md4_round2_def
    by (simp only: rfc_table1 fold_simps o_assoc fold.simps id_o o_id)
qed

lemma rfc_round3: "fold (rfc_step X) (rfc_sixteen 2) = fold (\<lambda>f. f) (md4_round3 X)"
proof -
  have "rfc_f 2 = HH" "rfc_const 2 = 0x6ED9EBA1" by (simp_all add: rfc_f_def rfc_const_def)
  then show ?thesis
    unfolding rfc_sixteen_def fold_append list.map rfc_four_steps md4_round3_def
    by (simp only: rfc_table2 fold_simps o_assoc fold.simps id_o o_id)
qed

lemma md4sum_round_rfc: "md4sum_round = rfc_compress"
  by (intro ext)
    (simp only: md4sum_round_def rfc_compress_def Let_def rfc_steps_unfold fold_append comp_apply
      rfc_round1 rfc_round2 rfc_round3)

section \<open>Padding\<close>

lemma rfc_blocks_step:
  "64 \<le> length bs \<Longrightarrow> rfc_blocks bs regs = rfc_blocks (drop 64 bs) (rfc_compress (take 64 bs) regs)"
  by (subst rfc_blocks.simps) simp

lemma rfc_blocks_end: "length bs < 64 \<Longrightarrow> rfc_blocks bs regs = regs"
  by (subst rfc_blocks.simps) simp

lemma md4_loop_blocks:
  assumes "md4_loop inp regs = (regs', left)"
  shows "length left \<le> 64" "length left mod 64 = length inp mod 64" "inp = [] \<longleftrightarrow> left = []"
    "rfc_blocks (inp @ tail) regs = rfc_blocks (left @ tail) regs'"
proof -
  have "length left \<le> 64 \<and> length left mod 64 = length inp mod 64 \<and> (inp = [] \<longleftrightarrow> left = []) \<and>
      rfc_blocks (inp @ tail) regs = rfc_blocks (left @ tail) regs'"
    using assms
  proof (induction inp regs rule: md4_loop.induct)
    case (1 inp regs)
    show ?case
    proof (cases "length inp > 64")
      case True
      then have "md4_loop (drop 64 inp) (md4sum_round (take 64 inp) regs) = (regs', left)"
        using 1(2) by (subst (asm) md4_loop.simps) simp
      note ih = 1(1) [OF True this]
      have "rfc_blocks (inp @ tail) regs = rfc_blocks (drop 64 inp @ tail) (rfc_compress (take 64 inp) regs)"
        using True by (subst rfc_blocks_step) auto
      moreover have "length (drop 64 inp) mod 64 = length inp mod 64"
        using True by (simp add: le_mod_geq)
      ultimately show ?thesis using ih True by (auto simp: md4sum_round_rfc)
    next
      case False
      then show ?thesis using 1(2) by (subst (asm) md4_loop.simps) auto
    qed
  qed
  then show "length left \<le> 64" "length left mod 64 = length inp mod 64" "inp = [] \<longleftrightarrow> left = []"
    "rfc_blocks (inp @ tail) regs = rfc_blocks (left @ tail) regs'" by auto
qed

lemma store_inside: "off + length bs \<le> length M \<Longrightarrow> store off bs M = Inr (take off M @ bs @ drop (off + length bs) M)"
  by (simp add: store_def)

lemma store_at:
  "length pre = off \<Longrightarrow> length bs \<le> length M \<Longrightarrow> store off bs (pre @ M) = Inr (pre @ bs @ drop (length bs) M)"
  by (simp add: store_def)

lemma pad_bytes:
  "(r :: nat) \<le> 64 \<Longrightarrow> (120 - r mod 64) mod 64 = (if r = 64 then 56 else if r \<le> 56 then 56 - r else 120 - r)"
proof -
  assume r: "r \<le> 64"
  consider "r = 64" | "r < 64" "r \<le> 56" | "56 < r" "r < 64" using r by linarith
  then show ?thesis
  proof cases
    case 2
    then have "120 - r = (56 - r) + 64" by simp
    then have "(120 - r) mod 64 = (56 - r) mod 64" by (simp only: mod_add_self2)
    then show ?thesis using 2 by simp
  qed auto
qed

lemma four_zeros: "[0, 0, 0, 0] = replicate 4 0"
  by (simp add: numeral_eq_Suc)

lemma drop_seven: "drop 4 (x # replicate 7 y @ z) = replicate 4 y @ z"
  by (simp add: numeral_eq_Suc)

text \<open>What the buffer holds after the stores, up to the end of the length field.\<close>

lemma stores_filled:
  assumes r: "r = length left" "r \<le> 64" and p: "pbytes = (120 - r mod 64) mod 64" and M: "length M = 128"
  shows "\<exists>rest. ok_bind (store 0 left M) (\<lambda>M.
         ok_bind (store r [0x80] M) (\<lambda>M.
         ok_bind (store (r + 1) (replicate (pbytes + 7) 0) M) (store (r + pbytes) (le32 nbits)))) =
     Inr ((if r mod 64 = 56 then left @ le32 nbits @ [0, 0, 0, 0]
           else left @ [0x80] @ replicate (pbytes - 1) 0 @ le32 nbits @ [0, 0, 0, 0]) @ rest)"
proof -
  have pb: "pbytes = (if r = 64 then 56 else if r \<le> 56 then 56 - r else 120 - r)"
    unfolding p by (rule pad_bytes [OF r(2)])
  then have n: "r + pbytes + 8 \<le> 128" using r(2) by auto
  have 1: "store 0 left M = Inr (left @ drop r M)" using r M by (simp add: store_def)
  obtain m where m: "drop r M = m" "length m = 128 - r" using M by simp
  have 2: "store r [0x80] (left @ m) = Inr ((left @ [0x80]) @ drop 1 m)"
    using store_at [of left r "[0x80]" m] r m by simp
  have 3: "store (r + 1) (replicate (pbytes + 7) 0) ((left @ [0x80]) @ drop 1 m) =
      Inr ((left @ [0x80]) @ replicate (pbytes + 7) 0 @ drop (pbytes + 7) (drop 1 m))"
    using r m n by (subst store_at) auto
  show ?thesis
  proof (cases "pbytes = 0")
    case True
    have "store (r + pbytes) (le32 nbits) ((left @ [0x80]) @ replicate (pbytes + 7) 0 @ z) =
        Inr (left @ le32 nbits @ replicate 4 0 @ z)" for z
    proof -
      have "store (r + pbytes) (le32 nbits) (left @ 0x80 # replicate 7 0 @ z) =
          Inr (left @ le32 nbits @ drop 4 (0x80 # replicate 7 0 @ z))"
        using r True by (subst store_at) auto
      then show ?thesis using True by (simp add: drop_seven)
    qed
    moreover have "r mod 64 = 56" using True r(2) pb by (auto split: if_splits)
    ultimately show ?thesis
      by (simp only: 1 2 3 m(1) ok_bind_Inr) (simp add: four_zeros)
  next
    case False
    then obtain q where q: "pbytes = Suc q" by (cases pbytes) auto
    have "replicate (pbytes + 7) 0 = replicate q (0::byte) @ replicate 8 0"
      by (simp add: q flip: replicate_add)
    then have "store (r + pbytes) (le32 nbits)
        ((left @ [0x80]) @ replicate (pbytes + 7) 0 @ drop (pbytes + 7) (drop 1 m)) =
      store (r + pbytes) (le32 nbits)
        ((left @ [0x80] @ replicate q 0) @ replicate 8 0 @ drop (pbytes + 7) (drop 1 m))" by simp
    also have "\<dots> = Inr ((left @ [0x80] @ replicate q 0) @ le32 nbits @
        drop 4 (replicate 8 0 @ drop (pbytes + 7) (drop 1 m)))"
      using r q by (subst store_at) auto
    finally have "store (r + pbytes) (le32 nbits)
        ((left @ [0x80]) @ replicate (pbytes + 7) 0 @ drop (pbytes + 7) (drop 1 m)) =
      Inr ((left @ [0x80] @ replicate q 0) @ le32 nbits @ replicate 4 0 @ drop (pbytes + 7) (drop 1 m))"
      by simp
    moreover have "r mod 64 \<noteq> 56" using False r(2) pb by (cases "r = 64") auto
    ultimately show ?thesis
      by (simp only: 1 2 3 m(1) ok_bind_Inr) (simp add: four_zeros q)
  qed
qed

lemma ok_bind_assoc: "ok_bind (ok_bind r f) g = ok_bind r (\<lambda>x. ok_bind (f x) g)"
  by (cases r) auto

lemma ucast_small: "k < 2 ^ 32 \<Longrightarrow> (ucast (of_nat k :: u64) :: u32) = of_nat k"
  by (simp only: unsigned_of_nat) (simp add: take_bit_nat_eq_self)

lemma drop_small: "k < 2 ^ 32 \<Longrightarrow> drop_bit 32 (of_nat k :: u64) = 0"
proof -
  assume k: "k < 2 ^ 32"
  then have "(of_nat k :: u64) < 4294967296" by (simp add: word_less_nat_alt unat_of_nat)
  then show ?thesis by (simp add: drop_bit_eq_div div_word_less)
qed

lemma bit_count_small: "n < 2 ^ 28 \<Longrightarrow> bit_count n = le32 (of_nat (n * 8)) @ [0, 0, 0, 0]"
proof -
  assume n: "n < 2 ^ 28"
  have "(ucast (of_nat (8 * n) :: u64) :: u32) = of_nat (n * 8)"
    using n by (intro trans [OF ucast_small]) (simp_all only: mult.commute, simp)
  moreover have "drop_bit 32 (of_nat (8 * n) :: u64) = 0"
    using n by (intro drop_small) simp
  ultimately show ?thesis by (simp add: bit_count_def Let_def le32_alt)
qed

lemma pad_zeros: "(m :: nat) < 64 \<Longrightarrow> m \<noteq> 56 \<Longrightarrow> (119 - m) mod 64 = (120 - m) mod 64 - 1"
proof (cases "m < 56")
  case True
  then have "119 - m = (55 - m) + 64" "120 - m = (56 - m) + 64" by auto
  then have "(119 - m) mod 64 = (55 - m) mod 64" "(120 - m) mod 64 = (56 - m) mod 64"
    by (simp_all only: mod_add_self2)
  then show ?thesis using True by simp
qed auto

text \<open>The last part of the computation, on the buffer that the stores have filled.\<close>

lemma last_blocks:
  assumes "length buf = (if 56 < r then 128 else 64)"
  shows "(let regs = md4sum_round (take 64 (buf @ rest)) regs
          in if 56 < r then md4sum_round (take 64 (drop 64 (buf @ rest))) regs else regs) = rfc_blocks buf regs"
proof (cases "56 < r")
  case True
  then show ?thesis
    using assms by (simp add: rfc_blocks_step rfc_blocks_end md4sum_round_rfc)
next
  case False
  then show ?thesis
    using assms by (simp add: rfc_blocks_step rfc_blocks_end md4sum_round_rfc)
qed

lemma md4sum_blocks:
  assumes M: "length M = 128" and n: "length inp < 2 ^ 28"
  shows "xntlm_md4sum M inp = Inr (md4_digest (rfc_blocks
    (if length inp mod 64 = 56 then inp @ bit_count (length inp) else rfc_pad inp) md4_init))"
proof -
  obtain regs left where l: "md4_loop inp md4_init = (regs, left)" by fastforce
  let ?r = "length left" and ?p = "(120 - length inp mod 64) mod 64"
  let ?bits = "le32 (of_nat (length inp * 8)) @ [0, 0, 0, 0]"
  let ?tail = "if length inp mod 64 = 56 then bit_count (length inp)
      else 0x80 # replicate ((119 - length inp mod 64) mod 64) 0 @ bit_count (length inp)"
  note loop = md4_loop_blocks [OF l]
  have pb: "?p = (if ?r = 64 then 56 else if ?r \<le> 56 then 56 - ?r else 120 - ?r)"
    using pad_bytes [OF loop(1)] loop(2) by simp
  define buf where "buf = (if ?r mod 64 = 56 then left @ ?bits else left @ [0x80] @ replicate (?p - 1) 0 @ ?bits)"
  obtain rest where stores: "ok_bind (store 0 left M) (\<lambda>M. ok_bind (store ?r [0x80] M) (\<lambda>M.
      ok_bind (store (?r + 1) (replicate (?p + 7) 0) M) (store (?r + ?p) (le32 (of_nat (length inp * 8)))))) =
      Inr (buf @ rest)"
    using stores_filled [where left = left and r = ?r and pbytes = ?p and nbits = "of_nat (length inp * 8)",
        OF refl loop(1) _ M] loop(2) unfolding buf_def by (metis append_assoc)
  have m56: "?r mod 64 = 56 \<longleftrightarrow> ?r = 56" using loop(1) by (cases "?r = 64") auto
  have len: "length buf = (if 56 < ?r then 128 else 64)"
    unfolding buf_def m56 using pb loop(1) by auto
  have "xntlm_md4sum M inp = ok_bind (Inr (buf @ rest)) (\<lambda>M. Inr (md4_digest
      (let regs = md4sum_round (take 64 M) regs
       in if 56 < ?r then md4sum_round (take 64 (drop 64 M)) regs else regs)))"
    unfolding stores [symmetric] xntlm_md4sum_def by (simp add: l Let_def ok_bind_assoc)
  then have sum: "xntlm_md4sum M inp = Inr (md4_digest (rfc_blocks buf regs))"
    by (simp only: ok_bind_Inr last_blocks [OF len])
  have buf: "buf = left @ ?tail"
  proof (cases "length inp mod 64 = 56")
    case True
    then show ?thesis using loop(2) by (simp add: buf_def bit_count_small [OF n])
  next
    case False
    have "(119 - length inp mod 64) mod 64 = ?p - 1"
      using False by (intro pad_zeros) simp_all
    then show ?thesis using False loop(2) by (simp add: buf_def bit_count_small [OF n])
  qed
  have pad: "(if length inp mod 64 = 56 then inp @ bit_count (length inp) else rfc_pad inp) = inp @ ?tail"
    by (simp add: rfc_pad_def)
  show ?thesis
    unfolding sum pad buf loop(4) [of ?tail] by (rule refl)
qed

section \<open>Properties\<close>



text \<open>
  For a message whose length is 56 modulo 64 the padding is computed as zero bytes instead of
  64: the byte that marks the end of the message is overwritten by the length, and the digest is
  that of the unpadded message followed by its length.
\<close>

theorem md4sum_unpadded:
  assumes "length M = 128" "length inp < 2 ^ 28" "length inp mod 64 = 56"
  shows "xntlm_md4sum M inp = Inr (md4_digest (rfc_blocks (inp @ bit_count (length inp)) md4_init))"
  using md4sum_blocks [OF assms(1,2)] assms(3) by simp

lemma md4sum_unpadded_witness:
  "xntlm_md4sum (replicate 128 0) (replicate 56 0) =
   Inr (md4_digest (rfc_blocks (replicate 56 0 @ bit_count 56) md4_init))"
  using md4sum_unpadded [of "replicate 128 0" "replicate 56 0"] by simp

end
