(* ===== verification/Ntlm.thy ===== *)
theory Ntlm
  imports Des Md4 C_Text
begin

text \<open>
  NTLM authentication, server/xntlm/xntlm.c: the negotiate message, the parser of the server's
  challenge, and the authenticate message with the LAN Manager and NT hashes and the DES
  responses. Reads outside the challenge and stores outside an allocated buffer are \<open>Undefined\<close>.
  \<open>toupper\<close> is the one of the C locale.
\<close>

section \<open>Negotiate\<close>

definition NTLM_NEGOTIATE_MESSAGE :: "byte list" where
  "NTLM_NEGOTIATE_MESSAGE =
    cbytes ''NTLMSSP'' @ [0x00,
     0x01, 0x00, 0x00, 0x00, 0x06, 0x82, 0x00, 0x00,
     0x00, 0x00, 0x00, 0x00, 0x00, 0x00, 0x00, 0x00,
     0x00, 0x00, 0x00, 0x00, 0x00, 0x00, 0x00, 0x00,
     0x00, 0x00, 0x00, 0x00, 0x30, 0x00, 0x00, 0x00,
     0x00, 0x00, 0x00, 0x00, 0x30, 0x00, 0x00, 0x00]"

definition xntlm_negotiate :: "byte list" where
  "xntlm_negotiate = NTLM_NEGOTIATE_MESSAGE"

section \<open>Parsing the challenge\<close>

definition get_shorty :: "byte list \<Rightarrow> nat \<Rightarrow> nat result" where
  "get_shorty mem p =
     (if p + 1 < length mem then Inr (unat (mem ! p) + 256 * unat (mem ! (p + 1))) else Inl Undefined)"

text \<open>
  The loop of \<open>strip_dup\<close> with the bytes left in the buffer \<open>buf\<close>; the last store is the NUL.
\<close>

function strip_copy :: "byte list \<Rightarrow> int \<Rightarrow> nat \<Rightarrow> byte list result" where
  "strip_copy mem len space =
     (if len > 0 then
        (case mem of
           [] \<Rightarrow> Inl Undefined
         | b # _ \<Rightarrow> if space = 0 then Inl Undefined
                    else ok_bind (strip_copy (drop 2 mem) (len - 2) (space - 1)) (\<lambda>p. Inr (b # p)))
      else if space = 0 then Inl Undefined else Inr [])"
  by pat_completeness auto
termination
  by (relation "measure (\<lambda>(mem, len, space). nat len)") auto

declare strip_copy.simps [simp del]

definition strip_dup :: "byte list \<Rightarrow> nat \<Rightarrow> byte list result" where
  "strip_dup mem len = strip_copy mem (int len) (len div 2 + 1)"

type_synonym domains = "byte list option \<times> byte list option"

text \<open>The \<open>while\<close> loop; the two flags say whether the return pointers are non-\<open>NULL\<close>.\<close>

function parse_items :: "byte list \<Rightarrow> bool \<Rightarrow> bool \<Rightarrow> nat \<Rightarrow> domains \<Rightarrow> domains result" where
  "parse_items chall nt w2k off ds =
     (if int off < int (length chall) - 4 then
        ok_bind (get_shorty chall off) (\<lambda>type.
        ok_bind (get_shorty chall (off + 2)) (\<lambda>dlen.
          let doff = off + 4 in
          if doff + dlen > length chall then Inr ds
          else ok_bind
            (if type = 2 \<and> nt then ok_bind (strip_dup (drop doff chall) dlen) (\<lambda>s. Inr (Some s, snd ds))
             else if type = 4 \<and> w2k then ok_bind (strip_dup (drop doff chall) dlen) (\<lambda>s. Inr (fst ds, Some s))
             else Inr ds)
            (\<lambda>ds. parse_items chall nt w2k (doff + dlen) ds)))
      else Inr ds)"
  by pat_completeness auto
termination
  by (relation "measure (\<lambda>(chall, nt, w2k, off, ds). length chall - off)") auto

declare parse_items.simps [simp del]

record challenge =
  ch_nonce :: "byte list option"
  ch_nt_domain :: "byte list option"
  ch_w2k_domain :: "byte list option"

definition xntlm_parse_challenge :: "byte list \<Rightarrow> bool \<Rightarrow> bool \<Rightarrow> bool \<Rightarrow> challenge result" where
  "xntlm_parse_challenge chall nonce nt w2k =
     (if length chall < 48 then Inl Rejected
      else ok_bind (get_shorty chall 44) (\<lambda>off.
           ok_bind (get_shorty chall 40) (\<lambda>dlen.
             if length chall < off + dlen then Inl Rejected
             else let n = (if nonce then Some (take 8 (drop 24 chall)) else None)
                  in if \<not> nt \<and> \<not> w2k then Inr \<lparr>ch_nonce = n, ch_nt_domain = None, ch_w2k_domain = None\<rparr>
                     else ok_bind (parse_items chall nt w2k off (None, None)) (\<lambda>(d, w).
                       Inr \<lparr>ch_nonce = n, ch_nt_domain = d, ch_w2k_domain = w\<rparr>))))"

section \<open>Hashes and responses\<close>

definition fix_parity :: "byte \<Rightarrow> byte" where
  "fix_parity k = (let c = length (filter (bit k) [0..<8]) in if odd c then k else k XOR 0x01)"

definition spread_key :: "byte list \<Rightarrow> byte list" where
  "spread_key key_56 =
    [key_56 ! 0,
     drop_bit 1 (key_56 ! 1) OR push_bit 7 (key_56 ! 0),
     drop_bit 2 (key_56 ! 2) OR push_bit 6 (key_56 ! 1),
     drop_bit 3 (key_56 ! 3) OR push_bit 5 (key_56 ! 2),
     drop_bit 4 (key_56 ! 4) OR push_bit 4 (key_56 ! 3),
     drop_bit 5 (key_56 ! 5) OR push_bit 3 (key_56 ! 4),
     drop_bit 6 (key_56 ! 6) OR push_bit 2 (key_56 ! 5),
     push_bit 1 (key_56 ! 6)]"

definition setup_schedule :: "byte list \<Rightarrow> des_ks" where
  "setup_schedule key_56 = xntlm_deskey (map fix_parity (spread_key key_56)) False"

definition LM_PASSWORD_MAGIC :: "byte list" where
  "LM_PASSWORD_MAGIC =
    [0x4B, 0x47, 0x53, 0x21, 0x40, 0x23, 0x24, 0x25,
     0x4B, 0x47, 0x53, 0x21, 0x40, 0x23, 0x24, 0x25,
     0x00, 0x00, 0x00, 0x00, 0x00]"

definition lm_password :: "string \<Rightarrow> byte list" where
  "lm_password password =
     (let up = map (\<lambda>c. byte_of_char (toupper c)) (take 14 password)
      in up @ replicate (15 - length up) 0)"

definition ntlm_lanmanager_hash :: "string \<Rightarrow> byte list" where
  "ntlm_lanmanager_hash password =
     (let pw = lm_password password;
          hash = LM_PASSWORD_MAGIC;
          hash = xntlm_des (setup_schedule pw) hash
      in take 8 hash @ xntlm_des (setup_schedule (drop 7 pw)) (drop 8 hash))"

definition widen :: "string \<Rightarrow> byte list" where
  "widen password = concat (map (\<lambda>c. [byte_of_char c, 0]) password)"

text \<open>\<open>M\<close> is the uninitialised buffer of \<open>xntlm_md4sum\<close>.\<close>

definition ntlm_nt_hash :: "byte list \<Rightarrow> string \<Rightarrow> byte list result" where
  "ntlm_nt_hash M password = ok_bind (xntlm_md4sum M (widen password)) (\<lambda>digest.
     Inr (digest @ replicate 5 0))"

definition ntlm_calc_response :: "byte list \<Rightarrow> byte list \<Rightarrow> byte list" where
  "ntlm_calc_response key plaintext =
     (let block = take 8 plaintext
      in xntlm_des (setup_schedule key) block @
         xntlm_des (setup_schedule (drop 7 key)) block @
         xntlm_des (setup_schedule (drop 14 key)) block)"

section \<open>The authenticate message\<close>

definition ntlm_set_string :: "byte list \<Rightarrow> nat \<Rightarrow> byte list \<Rightarrow> byte list" where
  "ntlm_set_string ba offset data =
     (let len = (of_nat (length data) :: u32); pos = (of_nat (length ba) :: u32);
          ba = ba[offset := ucast (len AND 0xFF), offset + 2 := ucast (len AND 0xFF)];
          ba = ba[offset + 1 := ucast (drop_bit 8 len AND 0xFF), offset + 3 := ucast (drop_bit 8 len AND 0xFF)];
          ba = ba[offset + 4 := ucast (pos AND 0xFF)];
          ba = ba[offset + 5 := ucast (drop_bit 8 pos AND 0xFF)]
      in ba @ data)"

definition NTLM_RESPONSE_MESSAGE_HEADER :: "byte list" where
  "NTLM_RESPONSE_MESSAGE_HEADER =
     cbytes ''NTLMSSP'' @ [0x00, 0x03, 0x00, 0x00, 0x00, 0x02, 0x82, 0x00, 0x00]"

definition NTLM_RESPONSE_BASE_SIZE :: nat where "NTLM_RESPONSE_BASE_SIZE = 64"
definition NTLM_RESPONSE_LM_RESP_OFFSET :: nat where "NTLM_RESPONSE_LM_RESP_OFFSET = 12"
definition NTLM_RESPONSE_NT_RESP_OFFSET :: nat where "NTLM_RESPONSE_NT_RESP_OFFSET = 20"
definition NTLM_RESPONSE_DOMAIN_OFFSET :: nat where "NTLM_RESPONSE_DOMAIN_OFFSET = 28"
definition NTLM_RESPONSE_USER_OFFSET :: nat where "NTLM_RESPONSE_USER_OFFSET = 36"
definition NTLM_RESPONSE_WORKSTATION_OFFSET :: nat where "NTLM_RESPONSE_WORKSTATION_OFFSET = 44"

lemmas response_offsets = NTLM_RESPONSE_BASE_SIZE_def NTLM_RESPONSE_LM_RESP_OFFSET_def
  NTLM_RESPONSE_NT_RESP_OFFSET_def NTLM_RESPONSE_DOMAIN_OFFSET_def NTLM_RESPONSE_USER_OFFSET_def
  NTLM_RESPONSE_WORKSTATION_OFFSET_def

definition xntlm_authenticate ::
  "byte list \<Rightarrow> byte list \<Rightarrow> string \<Rightarrow> string \<Rightarrow> string \<Rightarrow> string option \<Rightarrow> byte list result" where
  "xntlm_authenticate M nonce domain user password workstation =
     (let ws = (case workstation of None \<Rightarrow> [] | Some w \<Rightarrow> w);
          lm_resp = ntlm_calc_response (ntlm_lanmanager_hash password) nonce
      in ok_bind (ntlm_nt_hash M password) (\<lambda>hash.
         let nt_resp = ntlm_calc_response hash nonce;
             message = NTLM_RESPONSE_MESSAGE_HEADER @
               replicate (NTLM_RESPONSE_BASE_SIZE - length NTLM_RESPONSE_MESSAGE_HEADER) 0;
             message = ntlm_set_string message NTLM_RESPONSE_DOMAIN_OFFSET (cbytes domain);
             message = ntlm_set_string message NTLM_RESPONSE_USER_OFFSET (cbytes user);
             message = ntlm_set_string message NTLM_RESPONSE_WORKSTATION_OFFSET (cbytes ws);
             message = ntlm_set_string message NTLM_RESPONSE_LM_RESP_OFFSET lm_resp;
             message = ntlm_set_string message NTLM_RESPONSE_NT_RESP_OFFSET nt_resp
         in Inr message))"

section \<open>Every second byte\<close>

fun evens :: "'a list \<Rightarrow> 'a list" where
  "evens [] = []"
| "evens [x] = [x]"
| "evens (x # y # zs) = x # evens zs"

lemma strip_copy_even:
  "length data = 2 * k \<Longrightarrow> strip_copy (data @ r) (int (2 * k)) (Suc k) = Inr (evens data)"
proof (induction k arbitrary: data)
  case 0
  then show ?case by (simp add: strip_copy.simps)
next
  case (Suc k)
  then obtain a b ds where "data = a # b # ds" "length ds = 2 * k"
    by (auto simp: length_Suc_conv numeral_2_eq_2)
  moreover have "int (2 * Suc k) - 2 = int (2 * k)" by simp
  ultimately show ?case using Suc.IH [of ds] by (subst strip_copy.simps) simp
qed

lemma strip_dup_even:
  "even (length data) \<Longrightarrow> strip_dup (data @ r) (length data) = Inr (evens data)"
  using strip_copy_even [of data "length data div 2" r] by (simp add: strip_dup_def)

text \<open>An odd length makes the terminating NUL fall behind the allocated buffer.\<close>

lemma strip_copy_odd: "int (length mem) \<ge> len \<Longrightarrow> len = 2 * int k + 1 \<Longrightarrow> strip_copy mem len (Suc k) = Inl Undefined"
proof (induction k arbitrary: mem len)
  case 0
  then obtain b bs where "mem = b # bs" by (cases mem) auto
  then show ?case
    using 0 by (subst strip_copy.simps) (simp, subst strip_copy.simps, simp)
next
  case (Suc k)
  then obtain b bs where m: "mem = b # bs" by (cases mem) auto
  have "strip_copy (drop 2 mem) (len - 2) (Suc k) = Inl Undefined"
    by (rule Suc.IH) (use Suc.prems in auto)
  then show ?case using m Suc.prems by (subst strip_copy.simps) simp
qed

section \<open>Challenges\<close>

definition wire_item :: "u16 \<times> byte list \<Rightarrow> byte list" where
  "wire_item = (\<lambda>(type, data). le16 type @ le16 (of_nat (length data)) @ data)"

definition wf_item :: "u16 \<times> byte list \<Rightarrow> bool" where
  "wf_item = (\<lambda>(type, data). even (length data) \<and> length data < 65536)"

definition note_item :: "bool \<Rightarrow> bool \<Rightarrow> u16 \<times> byte list \<Rightarrow> domains \<Rightarrow> domains" where
  "note_item nt w2k = (\<lambda>(type, data) ds.
     if type = 2 \<and> nt then (Some (evens data), snd ds)
     else if type = 4 \<and> w2k then (fst ds, Some (evens data)) else ds)"

lemma get_shorty_le16:
  "length pre = p \<Longrightarrow> get_shorty (pre @ le16 v @ post) p = Inr (unat v)"
proof -
  have "uint v = uint (ucast v :: byte) + 256 * uint (ucast (drop_bit 8 v) :: byte)"
  proof -
    have "uint (ucast v :: byte) = uint v mod 256"
      by (simp add: unsigned_ucast_eq unsigned_take_bit_eq take_bit_eq_mod)
    moreover have "uint (ucast (drop_bit 8 v) :: byte) = uint v div 256"
    proof -
      have "uint v < 65536" using unsigned_less [of v, where ?'a = int] by simp
      moreover have "uint (drop_bit 8 v) = uint v div 256"
        by (simp add: drop_bit_eq_div uint_div_distrib)
      moreover have "uint v div 256 mod 256 = uint v div 256"
        using \<open>uint v < 65536\<close> by (intro mod_pos_pos_trivial) (auto simp: pos_imp_zdiv_nonneg_iff)
      ultimately show ?thesis
        by (simp add: unsigned_ucast_eq unsigned_take_bit_eq take_bit_eq_mod)
    qed
    ultimately show ?thesis by simp
  qed
  then have "unat v = unat (ucast v :: byte) + 256 * unat (ucast (drop_bit 8 v) :: byte)"
    unfolding uint_nat by linarith
  then show "length pre = p \<Longrightarrow> get_shorty (pre @ le16 v @ post) p = Inr (unat v)"
    by (simp add: get_shorty_def le16_alt nth_append)
qed

lemma parse_items_wire:
  assumes "list_all wf_item items" "length term = 4"
  shows "parse_items (pre @ concat (map wire_item items) @ term) nt w2k (length pre) ds =
    Inr (fold (note_item nt w2k) items ds)"
  using assms(1)
proof (induction items arbitrary: pre ds)
  case Nil
  then show ?case using assms(2) by (simp add: parse_items.simps)
next
  case (Cons item items)
  obtain type data where item: "item = (type, data)" by fastforce
  have w: "even (length data)" "length data < 65536" using Cons.prems by (simp_all add: wf_item_def item)
  let ?tail = "concat (map wire_item items) @ term"
  let ?chall = "pre @ wire_item item @ ?tail"
  have len: "unat (of_nat (length data) :: u16) = length data" using w(2) by (simp add: unat_of_nat)
  have "get_shorty ?chall (length pre) = Inr (unat type)"
    by (simp add: wire_item_def item get_shorty_le16)
  moreover have "get_shorty ?chall (length pre + 2) = Inr (length data)"
    using get_shorty_le16 [of "pre @ le16 type" "length pre + 2" "of_nat (length data)" "data @ ?tail"]
    by (simp add: wire_item_def item len)
  moreover have "strip_dup (drop (length pre + 4) ?chall) (length data) = Inr (evens data)"
    using strip_dup_even [OF w(1), of ?tail] by (simp add: wire_item_def item)
  moreover have "unat type = 2 \<longleftrightarrow> type = 2" "unat type = 4 \<longleftrightarrow> type = 4"
    using word_unat_eq_iff [of type 2] word_unat_eq_iff [of type 4] by auto
  moreover have "parse_items ?chall nt w2k (length pre + 4 + length data) ds' =
      Inr (fold (note_item nt w2k) items ds')" for ds'
  proof -
    have "length (pre @ wire_item item) = length pre + 4 + length data" by (simp add: wire_item_def item)
    then show ?thesis using Cons.IH [of "pre @ wire_item item" ds'] Cons.prems by (simp add: add.assoc)
  qed
  ultimately show ?case
    using assms(2)
    by (subst parse_items.simps) (auto simp: wire_item_def note_item_def item Let_def)
qed

section \<open>Fields of the authenticate message\<close>

definition sec_len :: "byte list \<Rightarrow> nat \<Rightarrow> nat" where
  "sec_len msg o1 = unat (of_le16 (msg ! o1) (msg ! (o1 + 1)))"

definition sec_off :: "byte list \<Rightarrow> nat \<Rightarrow> nat" where
  "sec_off msg o1 = unat (of_le16 (msg ! (o1 + 4)) (msg ! (o1 + 5)))"

text \<open>The bytes that the descriptor at \<open>o1\<close> refers to.\<close>

definition sec_field :: "byte list \<Rightarrow> nat \<Rightarrow> byte list" where
  "sec_field msg o1 = take (sec_len msg o1) (drop (sec_off msg o1) msg)"

definition holds_field :: "byte list \<Rightarrow> nat \<Rightarrow> byte list \<Rightarrow> bool" where
  "holds_field msg o1 data \<longleftrightarrow> 64 \<le> sec_off msg o1 \<and> sec_len msg o1 = length data \<and>
     sec_off msg o1 + length data \<le> length msg \<and> sec_field msg o1 = data"

lemma of_le16_u32: "of_le16 (ucast w) (ucast (drop_bit 8 w)) = (ucast (w :: u32) :: u16)"
  unfolding of_le16_def by (rule bit_word_eqI) (auto simp: bit_simps)

lemma unat_u32_u16: "k < 65536 \<Longrightarrow> unat (ucast (of_nat k :: u32) :: u16) = k"
  by (simp add: unsigned_ucast_eq unsigned_take_bit_eq unat_of_nat take_bit_eq_mod)

lemma set_string_length [simp]: "length (ntlm_set_string ba o1 data) = length ba + length data"
  by (simp add: ntlm_set_string_def Let_def)

lemma set_string_holds:
  assumes "o1 + 6 \<le> length ba" "64 \<le> length ba" "length ba + length data < 65536"
  shows "holds_field (ntlm_set_string ba o1 data) o1 data"
proof -
  let ?m = "ntlm_set_string ba o1 data"
  have "sec_len ?m o1 = length data" "sec_off ?m o1 = length ba"
    using assms
    by (simp_all add: sec_len_def sec_off_def ntlm_set_string_def Let_def nth_append ucast_low_byte
        of_le16_u32 unat_u32_u16)
  then show ?thesis
    using assms by (simp add: holds_field_def sec_field_def ntlm_set_string_def Let_def)
qed

lemma set_string_keeps:
  assumes "holds_field ba o1 d" "o2 + 6 \<le> 64" "o1 + 6 \<le> 64" "o1 + 6 \<le> o2 \<or> o2 + 6 \<le> o1" "64 \<le> length ba"
  shows "holds_field (ntlm_set_string ba o2 data) o1 d"
proof -
  let ?m = "ntlm_set_string ba o2 data"
  have nth: "?m ! i = ba ! i" if "o1 \<le> i" "i < o1 + 6" for i
    using that assms by (auto simp: ntlm_set_string_def Let_def nth_append nth_list_update)
  then have l: "sec_len ?m o1 = sec_len ba o1" and f: "sec_off ?m o1 = sec_off ba o1"
    by (simp_all add: sec_len_def sec_off_def)
  have "drop (sec_off ba o1) ?m = drop (sec_off ba o1) ba @ data"
    using assms by (simp add: ntlm_set_string_def Let_def holds_field_def drop_update_cancel)
  moreover have "take (length d) (drop (sec_off ba o1) ba) = d" "sec_len ba o1 = length d"
    "64 \<le> sec_off ba o1" "sec_off ba o1 + length d \<le> length ba"
    using assms(1) unfolding holds_field_def sec_field_def by auto
  ultimately show ?thesis
    by (simp add: holds_field_def sec_field_def l f)
qed

lemma length_digest [simp]: "length (md4_digest regs) = 16"
  by (cases regs) (simp add: md4_digest_def)

lemma length_lm_hash: "length (ntlm_lanmanager_hash p) = 21"
proof -
  have "length (xntlm_des ks LM_PASSWORD_MAGIC) = 21" for ks
    by (subst length_xntlm_des) (auto simp: LM_PASSWORD_MAGIC_def)
  then show ?thesis by (simp add: ntlm_lanmanager_hash_def Let_def)
qed

lemma length_response: "8 \<le> length nonce \<Longrightarrow> length (ntlm_calc_response key nonce) = 24"
  by (simp add: ntlm_calc_response_def Let_def)

section \<open>Properties\<close>

text \<open>
  A server challenge made of a 48-byte header and target items is parsed correctly: the nonce
  is the one in the header, and each domain is that of the last item of its kind, with every
  second byte taken, for any number of items in any order whose lengths are even.
\<close>

theorem parse_challenge_items:
  assumes "length h = 48" "get_shorty h 44 = Inr 48" "get_shorty h 40 = Inr d"
    and "d \<le> length (concat (map wire_item items)) + 4" "list_all wf_item items"
  shows "xntlm_parse_challenge (h @ concat (map wire_item items) @ [0, 0, 0, 0]) True True True =
    (let (nt, w2k) = fold (note_item True True) items (None, None)
     in Inr \<lparr>ch_nonce = Some (take 8 (drop 24 h)), ch_nt_domain = nt, ch_w2k_domain = w2k\<rparr>)"
proof -
  have "get_shorty (h @ xs) p = get_shorty h p" if "p + 1 < 48" for xs p
    using that assms(1) by (simp add: get_shorty_def nth_append)
  moreover have "parse_items (h @ concat (map wire_item items) @ [0, 0, 0, 0]) True True (length h) (None, None) =
      Inr (fold (note_item True True) items (None, None))"
    by (rule parse_items_wire) (use assms in auto)
  ultimately show ?thesis
    using assms by (simp add: xntlm_parse_challenge_def Let_def split: prod.splits)
qed

definition sample_header :: "byte list" where
  "sample_header =
    [0, 0, 0, 0, 0, 0, 0, 0, 0, 0, 0, 0, 0, 0, 0, 0, 0, 0, 0, 0, 0, 0, 0, 0, 1, 2, 3, 4, 5, 6, 7, 8,
     0, 0, 0, 0, 0, 0, 0, 0, 8, 0, 8, 0, 48, 0, 0, 0]"

lemma parse_challenge_items_witness:
  "xntlm_parse_challenge (sample_header @ concat (map wire_item [(2, [68, 0, 79, 0])]) @ [0, 0, 0, 0]) True True True =
   Inr \<lparr>ch_nonce = Some [1, 2, 3, 4, 5, 6, 7, 8], ch_nt_domain = Some [68, 79], ch_w2k_domain = None\<rparr>"
  using parse_challenge_items [of sample_header 8 "[(2, [68, 0, 79, 0])]"]
  by (simp add: sample_header_def get_shorty_def wire_item_def wf_item_def note_item_def)

text \<open>
  A domain item of odd length makes the copy overflow its buffer: the buffer has half the
  length, rounded down, plus one byte, and the terminating NUL is stored behind it.
\<close>

theorem strip_dup_overflow:
  "odd len \<Longrightarrow> len \<le> length mem \<Longrightarrow> strip_dup mem len = Inl Undefined"
  by (erule oddE) (simp add: strip_dup_def strip_copy_odd)

lemma strip_dup_overflow_witness: "strip_dup [65, 0, 66] 3 = Inl Undefined"
  by (rule strip_dup_overflow) auto

text \<open>
  C28. The authenticate message is well formed: each of the five descriptors in its header holds
  the length and the offset of its data, so a reader finds the domain, the user, the workstation
  and the two 24-byte responses, computed from the two password hashes, at the places they name.
\<close>

theorem authenticate_fields:
  assumes n: "8 \<le> length nonce"
    and h: "ntlm_nt_hash M password = Inr hash"
    and l: "112 + length domain + length user + length ws < 65536"
  shows "\<exists>msg. xntlm_authenticate M nonce domain user password (Some ws) = Inr msg \<and>
    sec_field msg 28 = cbytes domain \<and> sec_field msg 36 = cbytes user \<and> sec_field msg 44 = cbytes ws \<and>
    sec_field msg 12 = ntlm_calc_response (ntlm_lanmanager_hash password) nonce \<and>
    sec_field msg 20 = ntlm_calc_response hash nonce"
proof -
  define m0 where "m0 = NTLM_RESPONSE_MESSAGE_HEADER @ replicate (64 - length NTLM_RESPONSE_MESSAGE_HEADER) 0"
  define lm where "lm = ntlm_calc_response (ntlm_lanmanager_hash password) nonce"
  define nt where "nt = ntlm_calc_response hash nonce"
  have len: "length m0 = 64" "length lm = 24" "length nt = 24"
    by (simp_all add: m0_def NTLM_RESPONSE_MESSAGE_HEADER_def lm_def nt_def length_response [OF n])
  define m1 where "m1 = ntlm_set_string m0 28 (cbytes domain)"
  define m2 where "m2 = ntlm_set_string m1 36 (cbytes user)"
  define m3 where "m3 = ntlm_set_string m2 44 (cbytes ws)"
  define m4 where "m4 = ntlm_set_string m3 12 lm"
  define m5 where "m5 = ntlm_set_string m4 20 nt"
  note defs = m1_def m2_def m3_def m4_def m5_def
  have "holds_field m1 28 (cbytes domain)" unfolding defs by (rule set_string_holds) (use len l in auto)
  moreover have "holds_field m2 36 (cbytes user)" unfolding defs by (rule set_string_holds) (use len l in auto)
  moreover have "holds_field m3 44 (cbytes ws)" unfolding defs by (rule set_string_holds) (use len l in auto)
  moreover have "holds_field m4 12 lm" unfolding defs by (rule set_string_holds) (use len l in auto)
  moreover have "holds_field m5 20 nt" unfolding defs by (rule set_string_holds) (use len l in auto)
  ultimately have "holds_field m5 28 (cbytes domain)" "holds_field m5 36 (cbytes user)"
    "holds_field m5 44 (cbytes ws)" "holds_field m5 12 lm" "holds_field m5 20 nt"
    unfolding m2_def m3_def m4_def m5_def using len
    by (auto intro!: set_string_keeps simp: m1_def m2_def m3_def m4_def)
  moreover have "xntlm_authenticate M nonce domain user password (Some ws) = Inr m5"
    by (simp add: xntlm_authenticate_def h response_offsets Let_def m0_def lm_def nt_def defs)
  ultimately show ?thesis by (auto simp: holds_field_def lm_def nt_def)
qed

lemma nt_hash_value:
  assumes "length M = 128" "length pw < 2 ^ 27" "length pw mod 32 \<noteq> 28"
  shows "ntlm_nt_hash M pw = Inr (rfc_md4 (widen pw) @ replicate 5 0)"
proof -
  have l: "length (widen pw) = 2 * length pw"
    unfolding widen_def by (rule length_concat_map_const) simp
  have m: "2 * length pw mod 64 = 2 * (length pw mod 32)"
    using mult_mod_right [of 2 "length pw" 32] by simp
  have "xntlm_md4sum M (widen pw) = Inr (rfc_md4 (widen pw))"
    using md4sum_blocks [OF assms(1), of "widen pw"] assms(2,3) m by (simp add: l rfc_md4_def)
  then show ?thesis by (simp add: ntlm_nt_hash_def)
qed

lemma authenticate_fields_witness:
  "\<exists>msg. xntlm_authenticate (replicate 128 0) [1, 2, 3, 4, 5, 6, 7, 8] ''D'' ''u'' ''pw'' (Some ''w'') = Inr msg \<and>
    sec_field msg 28 = cbytes ''D'' \<and> sec_field msg 36 = cbytes ''u'' \<and> sec_field msg 44 = cbytes ''w''"
proof -
  have "ntlm_nt_hash (replicate 128 0) ''pw'' = Inr (rfc_md4 (widen ''pw'') @ replicate 5 0)"
    by (rule nt_hash_value) auto
  from authenticate_fields [OF _ this, of "[1, 2, 3, 4, 5, 6, 7, 8]" "''D''" "''u''" "''w''"]
  show ?thesis by auto
qed

text \<open>
  The response proves knowledge of the hash: decrypting each of its three blocks with the DES
  key made from the corresponding seven bytes of the hash gives the server's nonce back.
\<close>

theorem response_decrypts:
  assumes "length nonce = 8" "i < 3"
  shows "xntlm_des (xntlm_deskey (map fix_parity (spread_key (drop (7 * i) key))) True)
    (take 8 (drop (8 * i) (ntlm_calc_response key nonce))) = nonce"
proof -
  have "take 8 (drop (8 * i) (ntlm_calc_response key nonce)) = xntlm_des (setup_schedule (drop (7 * i) key)) nonce"
  proof -
    consider "i = 0" | "i = 1" | "i = 2" using assms(2) by linarith
    then show ?thesis using assms(1) by cases (simp_all add: ntlm_calc_response_def Let_def)
  qed
  then show ?thesis using assms(1) by (simp add: setup_schedule_def des_inverse)
qed

lemma response_decrypts_witness:
  "xntlm_des (xntlm_deskey (map fix_parity (spread_key (drop (7 * 2) (replicate 21 9)))) True)
    (take 8 (drop (8 * 2) (ntlm_calc_response (replicate 21 9) [1, 2, 3, 4, 5, 6, 7, 8]))) = [1, 2, 3, 4, 5, 6, 7, 8]"
  by (rule response_decrypts) auto

text \<open>
  The NT hash is the MD4 digest of the password's 16-bit characters, as the protocol
  demands, when the length of the password is not 28 modulo 32; otherwise it is the digest of the
  unpadded message followed by its length.
\<close>

theorem nt_hash_digest:
  assumes "length M = 128" "length pw < 2 ^ 27"
  shows "ntlm_nt_hash M pw = Inr
    ((if length pw mod 32 = 28
      then md4_digest (rfc_blocks (widen pw @ bit_count (length (widen pw))) md4_init)
      else rfc_md4 (widen pw)) @ replicate 5 0)"
proof (cases "length pw mod 32 = 28")
  case True
  have l: "length (widen pw) = 2 * length pw"
    unfolding widen_def by (rule length_concat_map_const) simp
  moreover have "2 * length pw mod 64 = 56"
    using mult_mod_right [of 2 "length pw" 32] True by simp
  ultimately show ?thesis
    using md4sum_blocks [OF assms(1), of "widen pw"] assms(2) True by (simp add: ntlm_nt_hash_def)
qed (simp add: nt_hash_value [OF assms])

lemma nt_hash_digest_witness:
  "ntlm_nt_hash (replicate 128 0) ''pw'' = Inr (rfc_md4 (widen ''pw'') @ replicate 5 0)"
  using nt_hash_digest [of "replicate 128 0" "''pw''"] by simp

end
