(* ===== verification/Hash_Table.thy ===== *)
theory Hash_Table
  imports Prelude
begin

text \<open>
  GLib's hash tables as the server library uses them: a table is the list of its entries, a lookup
  compares the stored hash first and calls the equality function only on a match. The interface
  \<open>ghash_key\<close> states what a pair of functions handed to \<open>g_hash_table_new\<close> has to satisfy;
  inside it the table is proved to be a finite map up to the equality function.
\<close>

type_synonym ('k, 'v) ghash = "('k \<times> 'v) list"

definition hash_match :: "('k \<Rightarrow> 'k \<Rightarrow> bool) \<Rightarrow> ('k \<Rightarrow> u32) \<Rightarrow> 'k \<Rightarrow> 'k \<times> 'v \<Rightarrow> bool" where
  "hash_match eq hash k e \<longleftrightarrow> hash (fst e) = hash k \<and> eq (fst e) k"

definition hash_lookup :: "('k \<Rightarrow> 'k \<Rightarrow> bool) \<Rightarrow> ('k \<Rightarrow> u32) \<Rightarrow> 'k \<Rightarrow> ('k, 'v) ghash \<Rightarrow> 'v option" where
  "hash_lookup eq hash k t = map_option snd (find (hash_match eq hash k) t)"

text \<open>An insertion under a key that is present keeps the old key and replaces the value.\<close>

fun hash_insert :: "('k \<Rightarrow> 'k \<Rightarrow> bool) \<Rightarrow> ('k \<Rightarrow> u32) \<Rightarrow> 'k \<Rightarrow> 'v \<Rightarrow> ('k, 'v) ghash \<Rightarrow> ('k, 'v) ghash" where
  "hash_insert eq hash k v [] = [(k, v)]"
| "hash_insert eq hash k v (e # t) =
     (if hash_match eq hash k e then (fst e, v) # t else e # hash_insert eq hash k v t)"

definition hash_remove :: "('k \<Rightarrow> 'k \<Rightarrow> bool) \<Rightarrow> ('k \<Rightarrow> u32) \<Rightarrow> 'k \<Rightarrow> ('k, 'v) ghash \<Rightarrow> ('k, 'v) ghash" where
  "hash_remove eq hash k t = filter (\<lambda>e. \<not> hash_match eq hash k e) t"

lemma hash_lookup_Nil [simp]: "hash_lookup eq hash k [] = None"
  by (simp add: hash_lookup_def)

lemma hash_lookup_Cons:
  "hash_lookup eq hash k (e # t) = (if hash_match eq hash k e then Some (snd e) else hash_lookup eq hash k t)"
  by (simp add: hash_lookup_def)

lemma hash_lookup_in: "hash_lookup eq hash k t = Some v \<Longrightarrow> \<exists>k'. (k', v) \<in> set t \<and> eq k' k"
  by (induction t) (auto simp: hash_lookup_Cons hash_match_def split: if_splits)

lemma hash_insert_fresh: "hash_lookup eq hash k t = None \<Longrightarrow> hash_insert eq hash k v t = t @ [(k, v)]"
  by (induction t) (auto simp: hash_lookup_Cons split: if_splits)

text \<open>The laws of the key functions, and the finite map they give.\<close>

locale ghash_key =
  fixes eq :: "'k \<Rightarrow> 'k \<Rightarrow> bool" and hash :: "'k \<Rightarrow> u32"
  assumes eq_refl: "eq k k"
    and eq_sym: "eq k l \<Longrightarrow> eq l k"
    and eq_trans: "eq k l \<Longrightarrow> eq l m \<Longrightarrow> eq k m"
    and eq_hash: "eq k l \<Longrightarrow> hash k = hash l"
begin

lemma match_eq: "hash_match eq hash k e \<longleftrightarrow> eq (fst e) k"
  using eq_hash by (auto simp: hash_match_def)

lemma lookup_find: "hash_lookup eq hash k t = map_option snd (find (\<lambda>e. eq (fst e) k) t)"
  by (induction t) (auto simp: hash_lookup_Cons match_eq)

lemma lookup_cong: "eq k l \<Longrightarrow> hash_lookup eq hash k t = hash_lookup eq hash l t"
  by (induction t) (auto simp: hash_lookup_Cons match_eq intro: eq_trans eq_sym)

lemma lookup_insert:
  "hash_lookup eq hash k (hash_insert eq hash l v t) = (if eq k l then Some v else hash_lookup eq hash k t)"
  by (induction t) (auto simp: hash_lookup_Cons match_eq eq_refl intro: eq_sym eq_trans)

lemma lookup_remove:
  "hash_lookup eq hash k (hash_remove eq hash l t) = (if eq k l then None else hash_lookup eq hash k t)"
  by (induction t) (auto simp: hash_remove_def hash_lookup_Cons match_eq intro: eq_sym eq_trans)

lemma lookup_None: "hash_lookup eq hash k t = None \<longleftrightarrow> (\<forall>e \<in> set t. \<not> eq (fst e) k)"
  by (induction t) (auto simp: hash_lookup_Cons match_eq)

end

section \<open>Keys compared for equality\<close>

lemma table_lookup: "hash_lookup (=) hash k t = map_of t k"
  by (induction t) (auto simp: hash_lookup_Cons hash_match_def)

lemma map_of_table_insert: "map_of (hash_insert (=) hash k v t) = (map_of t)(k \<mapsto> v)"
  by (induction t) (auto simp: hash_match_def fun_eq_iff)

lemma map_of_table_remove: "map_of (hash_remove (=) hash k t) = (map_of t)(k := None)"
  by (induction t) (auto simp: hash_remove_def hash_match_def fun_eq_iff)

lemma table_insert_keys: "set (map fst (hash_insert (=) hash k v t)) = insert k (set (map fst t))"
  by (induction t) (auto simp: hash_match_def)

lemma distinct_table_insert: "distinct (map fst t) \<Longrightarrow> distinct (map fst (hash_insert (=) hash k v t))"
proof (induction t)
  case (Cons e t)
  then show ?case using table_insert_keys [of hash k v t] by (auto simp: hash_match_def)
qed simp

lemma distinct_table_remove: "distinct (map fst t) \<Longrightarrow> distinct (map fst (hash_remove (=) hash k t))"
  by (induction t) (auto simp: hash_remove_def)

lemma table_insert_new: "k \<notin> fst ` set t \<Longrightarrow> hash_insert (=) hash k v t = t @ [(k, v)]"
  by (induction t) (auto simp: hash_match_def)

text \<open>Tables made with \<open>g_hash_table_new (NULL, NULL)\<close> compare the keys as pointers.\<close>

definition direct_lookup :: "'k \<Rightarrow> ('k \<times> 'v) list \<Rightarrow> 'v option" where
  "direct_lookup k t = map_of t k"

interpretation direct: ghash_key "(=)" "\<lambda>k :: u32. k"
  by unfold_locales auto

section \<open>Hash tables with string keys\<close>

text \<open>GLib's \<open>g_str_hash\<close>.\<close>

definition g_str_hash :: "string \<Rightarrow> u32" where
  "g_str_hash s = foldl (\<lambda>h c. h * 33 + scast (byte_of_char c)) 5381 s"

interpretation str: ghash_key "(=)" g_str_hash
  by unfold_locales auto

abbreviation str_lookup :: "string \<Rightarrow> (string, 'v) ghash \<Rightarrow> 'v option" where
  "str_lookup \<equiv> hash_lookup (=) g_str_hash"

abbreviation str_insert :: "string \<Rightarrow> 'v \<Rightarrow> (string, 'v) ghash \<Rightarrow> (string, 'v) ghash" where
  "str_insert \<equiv> hash_insert (=) g_str_hash"

abbreviation str_remove :: "string \<Rightarrow> (string, 'v) ghash \<Rightarrow> (string, 'v) ghash" where
  "str_remove \<equiv> hash_remove (=) g_str_hash"

end
