(* ===== verification/Sid.thy ===== *)
theory Sid
  imports C_Text Hash_Table
begin

text \<open>
  Windows security identifiers (server/lib/e2k-sid.c): the object with its two lazily converted
  forms, the conversions between the text \<open>S-1-a-s-s\<close> and the self-delimiting binary form, and
  the key functions of hash tables of binary SIDs. A binary SID is the memory from the pointer on.
\<close>

section \<open>The object\<close>

datatype E2kSidType =
    E2K_SID_TYPE_INVALID
  | E2K_SID_TYPE_USER
  | E2K_SID_TYPE_ALIAS
  | E2K_SID_TYPE_GROUP
  | E2K_SID_TYPE_WELL_KNOWN_GROUP
  | E2K_SID_TYPE_DOMAIN
  | E2K_SID_TYPE_DELETED_ACCOUNT
  | E2K_SID_TYPE_UNKNOWN
  | E2K_SID_TYPE_COMPUTER

record e2k_sid =
  sid_type :: E2kSidType
  binary_sid :: "byte list option"
  string_sid :: "string option"
  display_name :: "string option"

definition E2K_SID_BINARY_SID_MIN_LEN :: nat where
  "E2K_SID_BINARY_SID_MIN_LEN = 8"

definition E2K_SID_BINARY_SID_LEN :: "byte list \<Rightarrow> nat" where
  "E2K_SID_BINARY_SID_LEN bsid = 8 + unat (bsid ! 1) * 4"

definition E2K_SID_SID_REVISION :: byte where
  "E2K_SID_SID_REVISION = 1"

definition E2K_SID_WKS_EVERYONE :: string where
  "E2K_SID_WKS_EVERYONE = ''S-1-1-0''"

definition E2K_SID_WKS_EVERYONE_NAME :: string where
  "E2K_SID_WKS_EVERYONE_NAME = ''Default''"

definition E2K_SID_WKS_ANONYMOUS :: string where
  "E2K_SID_WKS_ANONYMOUS = ''S-1-5-7''"

definition E2K_SID_WKS_ANONYMOUS_NAME :: string where
  "E2K_SID_WKS_ANONYMOUS_NAME = ''Anonymous''"

section \<open>Conversions\<close>

text \<open>\<open>binary_sid->SubAuthority[sa]\<close>, at offset 8 of the structure.\<close>

definition sub_authority :: "byte list \<Rightarrow> nat \<Rightarrow> u32" where
  "sub_authority b sa = of_le32 (b ! (8 + 4 * sa)) (b ! (9 + 4 * sa)) (b ! (10 + 4 * sa)) (b ! (11 + 4 * sa))"

definition sid_text :: "byte list \<Rightarrow> string" where
  "sid_text b = ''S-'' @ fmt_u (unat (b ! 0)) @ ''-'' @ fmt_u (unat (b ! 7)) @
     concat (map (\<lambda>sa. CHR ''-'' # fmt_u (unat (sub_authority b sa))) [0..<unat (b ! 1)])"

text \<open>The value and the object with its cache filled.\<close>

definition e2k_sid_get_string_sid :: "e2k_sid \<Rightarrow> (string \<times> e2k_sid) result" where
  "e2k_sid_get_string_sid sid = (case string_sid sid of
     Some s \<Rightarrow> Inr (s, sid)
   | None \<Rightarrow> (case binary_sid sid of
       None \<Rightarrow> Inl Undefined
     | Some b \<Rightarrow>
         if 8 \<le> length b \<and> E2K_SID_BINARY_SID_LEN b \<le> length b
         then Inr (sid_text b, sid\<lparr>string_sid := Some (sid_text b)\<rparr>) else Inl Undefined))"

text \<open>The loop that stores the subauthorities; \<open>p\<close> is the unread text, \<open>n\<close> the space left.\<close>

fun read_subauths :: "nat \<Rightarrow> string \<Rightarrow> u32 list" where
  "read_subauths 0 p = []"
| "read_subauths (Suc n) p = (case p of
     c # q \<Rightarrow> if c = CHR ''-'' then let (v, p') = strtoul 10 q in ucast v # read_subauths n p' else []
   | [] \<Rightarrow> [])"

definition sid_data :: "string \<Rightarrow> byte list" where
  "sid_data s =
     (let subauth_count = length (filter (\<lambda>c. c = CHR ''-'') (drop 4 s));
          (ia, p) = strtoul 10 (drop 4 s);
          sas = read_subauths subauth_count p
      in [E2K_SID_SID_REVISION, of_nat subauth_count, 0, 0, 0, 0, 0, ucast ia] @
         concat (map le32 sas) @ replicate (4 * (subauth_count - length sas)) 0)"

definition e2k_sid_get_binary_sid :: "e2k_sid \<Rightarrow> (byte list \<times> e2k_sid) result" where
  "e2k_sid_get_binary_sid sid = (case binary_sid sid of
     Some b \<Rightarrow> Inr (b, sid)
   | None \<Rightarrow> (case string_sid sid of
       None \<Rightarrow> Inl Undefined
     | Some s \<Rightarrow> if length s < 4 then Inl Undefined
                else Inr (sid_data s, sid\<lparr>binary_sid := Some (sid_data s)\<rparr>)))"

definition e2k_sid_get_sid_type :: "e2k_sid \<Rightarrow> E2kSidType" where
  "e2k_sid_get_sid_type = sid_type"

definition e2k_sid_get_display_name :: "e2k_sid \<Rightarrow> string option" where
  "e2k_sid_get_display_name = display_name"

section \<open>Construction\<close>

text \<open>
  The name chosen when the caller gives none. \<open>strcmp\<close> on a null pointer has no defined result;
  the translation function of the message catalogue is \<open>tr\<close>.
\<close>

definition default_name :: "(string \<Rightarrow> string) \<Rightarrow> E2kSidType \<Rightarrow> string option \<Rightarrow> string option result" where
  "default_name tr type str =
     (if type = E2K_SID_TYPE_WELL_KNOWN_GROUP then (case str of
        None \<Rightarrow> Inl Undefined
      | Some s \<Rightarrow>
          if s = E2K_SID_WKS_ANONYMOUS then Inr (Some (tr E2K_SID_WKS_ANONYMOUS_NAME))
          else if s = E2K_SID_WKS_EVERYONE then Inr (Some (tr E2K_SID_WKS_EVERYONE_NAME))
          else Inr (Some s))
      else Inr str)"

definition sid_new_internal ::
  "(string \<Rightarrow> string) \<Rightarrow> E2kSidType \<Rightarrow> string option \<Rightarrow> string option \<Rightarrow> byte list option \<Rightarrow> e2k_sid result" where
  "sid_new_internal tr type name str bin =
     (let sid = \<lparr>sid_type = type, binary_sid = None, string_sid = None, display_name = None\<rparr> in
      ok_bind (case bin of
         None \<Rightarrow> Inr sid
       | Some b \<Rightarrow> if 2 \<le> length b \<and> E2K_SID_BINARY_SID_LEN b \<le> length b
                  then Inr (sid\<lparr>binary_sid := Some (take (E2K_SID_BINARY_SID_LEN b) b)\<rparr>) else Inl Undefined) (\<lambda>sid.
      ok_bind (case str of
         Some s \<Rightarrow> Inr (sid\<lparr>string_sid := Some s\<rparr>)
       | None \<Rightarrow> if name = None then ok_bind (e2k_sid_get_string_sid sid) (\<lambda>(_, sid). Inr sid) else Inr sid) (\<lambda>sid.
      ok_bind (case name of None \<Rightarrow> default_name tr type str | Some n \<Rightarrow> Inr (Some n)) (\<lambda>name.
      Inr (sid\<lparr>display_name := name\<rparr>)))))"

text \<open>\<open>None\<close> is the null pointer the constructor returns.\<close>

definition e2k_sid_new_from_string_sid ::
  "(string \<Rightarrow> string) \<Rightarrow> E2kSidType \<Rightarrow> string option \<Rightarrow> string option \<Rightarrow> e2k_sid option result" where
  "e2k_sid_new_from_string_sid tr type str name = (case str of
     None \<Rightarrow> Inr None
   | Some s \<Rightarrow> if length s < 6 \<or> take 4 s \<noteq> ''S-1-'' then Inr None
              else ok_bind (sid_new_internal tr type name (Some s) None) (\<lambda>sid. Inr (Some sid)))"

definition e2k_sid_new_from_binary_sid ::
  "(string \<Rightarrow> string) \<Rightarrow> E2kSidType \<Rightarrow> byte list option \<Rightarrow> string option \<Rightarrow> e2k_sid option result" where
  "e2k_sid_new_from_binary_sid tr type bin name = (case bin of
     None \<Rightarrow> Inr None
   | Some b \<Rightarrow> ok_bind (sid_new_internal tr type name None (Some b)) (\<lambda>sid. Inr (Some sid)))"

section \<open>Keys of hash tables\<close>

definition e2k_sid_binary_sid_equal :: "byte list \<Rightarrow> byte list \<Rightarrow> bool" where
  "e2k_sid_binary_sid_equal a b \<longleftrightarrow>
     E2K_SID_BINARY_SID_LEN a = E2K_SID_BINARY_SID_LEN b \<and>
     take (E2K_SID_BINARY_SID_LEN a) a = take (E2K_SID_BINARY_SID_LEN a) b"

definition e2k_sid_binary_sid_hash :: "byte list \<Rightarrow> u32" where
  "e2k_sid_binary_sid_hash key =
     (let p = E2K_SID_BINARY_SID_LEN key - 4 in of_le32 (key ! p) (key ! (p + 1)) (key ! (p + 2)) (key ! (p + 3)))"

lemma take_eq_nth: "take n xs = take n ys \<Longrightarrow> i < n \<Longrightarrow> xs ! i = ys ! i"
proof (cases "i < length xs \<and> i < length ys")
  case True
  then show "take n xs = take n ys \<Longrightarrow> i < n \<Longrightarrow> xs ! i = ys ! i" by (metis nth_take)
next
  case False
  assume t: "take n xs = take n ys" and i: "i < n"
  then have "length (take n xs) = length (take n ys)" by simp
  with False i have "length xs \<le> n" "length ys \<le> n" by auto
  with t show "xs ! i = ys ! i" by simp
qed

interpretation sids: ghash_key e2k_sid_binary_sid_equal e2k_sid_binary_sid_hash
proof unfold_locales
  fix k l assume e: "e2k_sid_binary_sid_equal k l"
  then have n: "E2K_SID_BINARY_SID_LEN k = E2K_SID_BINARY_SID_LEN l" by (simp add: e2k_sid_binary_sid_equal_def)
  have "k ! i = l ! i" if "i < E2K_SID_BINARY_SID_LEN l" for i
    using e n that take_eq_nth [of "E2K_SID_BINARY_SID_LEN l" k l i] by (simp add: e2k_sid_binary_sid_equal_def)
  then show "e2k_sid_binary_sid_hash k = e2k_sid_binary_sid_hash l"
    using n by (simp add: e2k_sid_binary_sid_hash_def Let_def E2K_SID_BINARY_SID_LEN_def)
qed (auto simp: e2k_sid_binary_sid_equal_def)

section \<open>The two forms\<close>

text \<open>
  \<open>sid_bin r ia sas\<close> is the binary SID with revision \<open>r\<close>, identifier authority \<open>ia\<close> and
  subauthorities \<open>sas\<close>; \<open>sid_str\<close> is its text.
\<close>

definition sid_bin :: "byte \<Rightarrow> byte \<Rightarrow> u32 list \<Rightarrow> byte list" where
  "sid_bin r ia sas = [r, of_nat (length sas), 0, 0, 0, 0, 0, ia] @ concat (map le32 sas)"

definition sid_str :: "byte \<Rightarrow> u32 list \<Rightarrow> string" where
  "sid_str ia sas = ''S-1-'' @ fmt_u (unat ia) @ concat (map (\<lambda>s. CHR ''-'' # fmt_u (unat s)) sas)"

lemma unat_of_nat_byte: "n < 256 \<Longrightarrow> unat (of_nat n :: byte) = n"
  by (simp add: unat_of_nat)

lemma length_sid_bin: "length (sid_bin r ia sas) = 8 + 4 * length sas"
proof -
  have "length (concat (map le32 sas)) = 4 * length sas" by (rule length_concat_map_const) simp
  then show ?thesis by (simp add: sid_bin_def)
qed

lemma sid_len_bin: "length sas < 256 \<Longrightarrow> E2K_SID_BINARY_SID_LEN (sid_bin r ia sas) = 8 + 4 * length sas"
  by (simp add: E2K_SID_BINARY_SID_LEN_def sid_bin_def unat_of_nat_byte)

lemma concat_le32_nth:
  "i < length sas \<Longrightarrow> j < 4 \<Longrightarrow> concat (map le32 sas) ! (4 * i + j) = le32 (sas ! i) ! j"
proof (induction sas arbitrary: i)
  case (Cons s sas)
  then show ?case by (cases i) (simp_all add: nth_append)
qed simp

lemma sub_authority_bin: "i < length sas \<Longrightarrow> sub_authority (sid_bin r ia sas) i = sas ! i"
proof -
  assume i: "i < length sas"
  have *: "sid_bin r ia sas ! (8 + 4 * i + j) = le32 (sas ! i) ! j" if "j < 4" for j
    using concat_le32_nth [OF i that] by (simp add: sid_bin_def add.assoc)
  show ?thesis
    using * [of 0] * [of 1] * [of 2] * [of 3]
    by (simp add: sub_authority_def le32_alt numeral_2_eq_2 numeral_3_eq_3 ac_simps)
qed

lemma sid_text_bin:
  assumes "length sas < 256"
  shows "sid_text (sid_bin 1 ia sas) = sid_str ia sas"
proof -
  have 1: "sid_bin 1 ia sas ! 0 = 1" "sid_bin 1 ia sas ! 7 = ia" "unat (sid_bin 1 ia sas ! 1) = length sas"
    using assms by (simp_all add: sid_bin_def unat_of_nat_byte)
  have 2: "map (\<lambda>sa. CHR ''-'' # fmt_u (unat (sub_authority (sid_bin 1 ia sas) sa))) [0..<length sas] =
        map (\<lambda>s. CHR ''-'' # fmt_u (unat s)) sas"
    by (rule nth_equalityI) (auto simp: sub_authority_bin)
  have 3: "fmt_u 1 = ''1''" by code_simp
  show ?thesis unfolding sid_text_def 1 2 by (simp add: sid_str_def 3 [simplified])
qed

lemma not_digit_dash: "\<not> is_base 10 CHR ''-''"
  by (simp add: is_base_def digit_val_def isdigit_def isupper_def islower_def ch_code_def)

lemma dash_not_in_fmt_u: "CHR ''-'' \<notin> set (fmt_u n)"
  using to_base_digits [of 10 n] not_digit_dash by (auto simp: fmt_u_def)

lemma strtoul_fmt_u:
  assumes "n < 2 ^ 32" "r = [] \<or> hd r = CHR ''-''"
  shows "strtoul 10 (fmt_u n @ r) = (of_nat n, r)"
proof -
  have "n \<le> ULONG_MAX" using assms by (simp add: ULONG_MAX_def)
  then show ?thesis
    using strtoul_pad0 [of 10 r n 0] assms not_digit_dash by (auto simp: fmt_u_def pad0_def)
qed

lemma read_subauths_text:
  "read_subauths (length sas) (concat (map (\<lambda>s. CHR ''-'' # fmt_u (unat s)) sas)) = sas"
proof (induction sas)
  case (Cons s sas)
  let ?r = "concat (map (\<lambda>s. CHR ''-'' # fmt_u (unat s)) sas)"
  have "?r = [] \<or> hd ?r = CHR ''-''" by (cases sas) auto
  moreover have "unat s < 2 ^ 32" using unsigned_less [of s] by simp
  ultimately have "strtoul 10 (fmt_u (unat s) @ ?r) = (of_nat (unat s), ?r)" by (intro strtoul_fmt_u)
  then show ?case using Cons by simp
qed simp

lemma count_dashes: "length (filter (\<lambda>c. c = CHR ''-'') (concat (map (\<lambda>s. CHR ''-'' # fmt_u (unat s)) sas))) = length sas"
  for sas :: "u32 list"
proof (induction sas)
  case (Cons s sas)
  have "filter (\<lambda>c. c = CHR ''-'') (fmt_u n) = []" for n
    using dash_not_in_fmt_u by (auto simp: filter_empty_conv)
  then show ?case using Cons by simp
qed simp

lemma sid_data_str: "sid_data (sid_str ia sas) = sid_bin 1 ia sas"
proof -
  let ?t = "concat (map (\<lambda>s. CHR ''-'' # fmt_u (unat s)) sas)"
  have d: "drop 4 (sid_str ia sas) = fmt_u (unat ia) @ ?t" by (simp add: sid_str_def)
  have "?t = [] \<or> hd ?t = CHR ''-''" by (cases sas) auto
  moreover have "unat ia < 2 ^ LENGTH(8)" by (rule unsigned_less)
  then have "unat ia < 2 ^ 32" by simp
  ultimately have s: "strtoul 10 (fmt_u (unat ia) @ ?t) = (of_nat (unat ia), ?t)" by (intro strtoul_fmt_u)
  have f: "filter (\<lambda>c. c = CHR ''-'') (fmt_u (unat ia)) = []"
    using dash_not_in_fmt_u by (auto simp: filter_empty_conv)
  have "(ucast (ucast ia :: u64) :: byte) = ia" by (rule bit_word_eqI) (auto simp: bit_simps)
  then show ?thesis
    unfolding sid_data_def d filter_append f
    by (simp add: s count_dashes read_subauths_text sid_bin_def E2K_SID_SID_REVISION_def)
qed

lemma sid_str_accepted: "6 \<le> length (sid_str ia sas) \<or> (sas = [] \<and> unat ia < 10)"
proof (cases sas)
  case Nil
  have "2 \<le> length (fmt_u (unat ia))" if "10 \<le> unat ia"
    using that by (simp add: fmt_u_def) (subst to_base.simps, auto simp: Suc_le_eq)
  then show ?thesis using Nil by (auto simp: sid_str_def not_less)
next
  case (Cons s sas')
  have "fmt_u n \<noteq> []" for n by (simp add: fmt_u_def)
  then have "1 \<le> length (fmt_u (unat ia))" "1 \<le> length (fmt_u (unat s))" by (simp_all add: Suc_le_eq)
  then show ?thesis unfolding sid_str_def Cons by simp
qed

section \<open>Properties\<close>

text \<open>
  C37. Converting a binary SID to text and the text back to binary gives the SID: for every SID of
  revision 1 whose identifier authority is one byte, which is all of it that the code reads, and that
  has from 1 to 255 subauthorities of 32 bits, whatever the type and the name of the two objects are.
\<close>

theorem sid_roundtrip:
  assumes "length sas < 256" "sas \<noteq> []"
  shows "ok_bind (e2k_sid_new_from_binary_sid tr t (Some (sid_bin 1 ia sas)) (Some n)) (\<lambda>sid.
         ok_bind (e2k_sid_get_string_sid (the sid)) (\<lambda>(s, _).
         ok_bind (e2k_sid_new_from_string_sid tr t (Some s) (Some n)) (\<lambda>sid.
         ok_bind (e2k_sid_get_binary_sid (the sid)) (\<lambda>(b, _). Inr (s, b))))) =
       Inr (sid_str ia sas, sid_bin 1 ia sas)"
proof -
  have "6 \<le> length (sid_str ia sas)" "take 4 (sid_str ia sas) = ''S-1-''"
    using sid_str_accepted [of ia sas] assms by (auto simp: sid_str_def)
  then show ?thesis
    using assms
    by (simp add: e2k_sid_new_from_binary_sid_def e2k_sid_new_from_string_sid_def sid_new_internal_def Let_def
        sid_len_bin length_sid_bin e2k_sid_get_string_sid_def e2k_sid_get_binary_sid_def sid_text_bin sid_data_str)
qed

lemma sid_roundtrip_witness:
  "ok_bind (e2k_sid_new_from_binary_sid id E2K_SID_TYPE_USER (Some (sid_bin 1 5 [21, 1000])) (Some ''Joe'')) (\<lambda>sid.
   ok_bind (e2k_sid_get_string_sid (the sid)) (\<lambda>(s, _).
   ok_bind (e2k_sid_new_from_string_sid id E2K_SID_TYPE_USER (Some s) (Some ''Joe'')) (\<lambda>sid.
   ok_bind (e2k_sid_get_binary_sid (the sid)) (\<lambda>(b, _). Inr (s, b))))) =
   Inr (sid_str 5 [21, 1000], sid_bin 1 5 [21, 1000])"
  by (rule sid_roundtrip) simp_all

text \<open>
  A table keyed by binary SIDs with these two functions is a map on SIDs: a lookup finds
  what was inserted last under an equal SID, and entries of other SIDs are not touched.
\<close>

theorem sid_table_lookup_insert:
  "hash_lookup e2k_sid_binary_sid_equal e2k_sid_binary_sid_hash k
     (hash_insert e2k_sid_binary_sid_equal e2k_sid_binary_sid_hash l v t) =
   (if e2k_sid_binary_sid_equal k l then Some v
    else hash_lookup e2k_sid_binary_sid_equal e2k_sid_binary_sid_hash k t)"
  by (rule sids.lookup_insert)

text \<open>
  A SID made from its binary form without a display name has none, although its text is
  computed for that purpose; for a well-known group the constructor compares a null pointer.
\<close>

theorem binary_sid_without_name:
  assumes "8 \<le> length b" "E2K_SID_BINARY_SID_LEN b \<le> length b"
  shows "e2k_sid_new_from_binary_sid tr t (Some b) None =
    (if t = E2K_SID_TYPE_WELL_KNOWN_GROUP then Inl Undefined
     else Inr (Some \<lparr>sid_type = t, binary_sid = Some (take (E2K_SID_BINARY_SID_LEN b) b),
       string_sid = Some (sid_text (take (E2K_SID_BINARY_SID_LEN b) b)), display_name = None\<rparr>))"
proof -
  have "E2K_SID_BINARY_SID_LEN (take (E2K_SID_BINARY_SID_LEN b) b) = E2K_SID_BINARY_SID_LEN b"
    by (simp add: E2K_SID_BINARY_SID_LEN_def)
  moreover have "8 \<le> E2K_SID_BINARY_SID_LEN b" by (simp add: E2K_SID_BINARY_SID_LEN_def)
  ultimately show ?thesis
    using assms
    by (simp add: e2k_sid_new_from_binary_sid_def sid_new_internal_def Let_def e2k_sid_get_string_sid_def
        default_name_def)
qed

lemma binary_sid_without_name_witness:
  "e2k_sid_new_from_binary_sid id E2K_SID_TYPE_WELL_KNOWN_GROUP (Some (sid_bin 1 5 [7])) None = Inl Undefined"
  using binary_sid_without_name [of "sid_bin 1 5 [7]" id E2K_SID_TYPE_WELL_KNOWN_GROUP]
  by (simp add: sid_len_bin length_sid_bin)

end
