(* ===== verification/Security_Descriptor.thy ===== *)
theory Security_Descriptor
  imports Sid "HOL-Library.AList"
begin

text \<open>
  Folder permissions (server/lib/e2k-security-descriptor.c): a security descriptor is parsed from
  its XML and binary forms, queried and changed per SID, and written back. The \<open>E2kSid\<close> objects
  are a heap, a list of objects; a pointer is an index. The access control list is kept sorted by
  \<open>ace_compar\<close> and updated through a binary search. Integers of the structures have the layout
  of a little-endian machine with 64-bit pointers.
\<close>

section \<open>Constants and tables\<close>

definition E2K_SECURITY_DESCRIPTOR_REVISION :: byte where "E2K_SECURITY_DESCRIPTOR_REVISION = 1"
definition E2K_SE_DACL_PRESENT :: u16 where "E2K_SE_DACL_PRESENT = 0x0004"
definition E2K_SE_SACL_PRESENT :: u16 where "E2K_SE_SACL_PRESENT = 0x0010"
definition E2K_ACL_REVISION :: byte where "E2K_ACL_REVISION = 2"
definition E2K_ACCESS_ALLOWED_ACE_TYPE :: byte where "E2K_ACCESS_ALLOWED_ACE_TYPE = 0"
definition E2K_ACCESS_DENIED_ACE_TYPE :: byte where "E2K_ACCESS_DENIED_ACE_TYPE = 1"
definition E2K_OBJECT_INHERIT_ACE :: byte where "E2K_OBJECT_INHERIT_ACE = 0x01"
definition E2K_CONTAINER_INHERIT_ACE :: byte where "E2K_CONTAINER_INHERIT_ACE = 0x02"
definition E2K_INHERIT_ONLY_ACE :: byte where "E2K_INHERIT_ONLY_ACE = 0x08"

definition E2K_PERMISSION_READ_ANY :: u32 where "E2K_PERMISSION_READ_ANY = 0x001"
definition E2K_PERMISSION_CREATE :: u32 where "E2K_PERMISSION_CREATE = 0x002"
definition E2K_PERMISSION_EDIT_OWNED :: u32 where "E2K_PERMISSION_EDIT_OWNED = 0x008"
definition E2K_PERMISSION_DELETE_OWNED :: u32 where "E2K_PERMISSION_DELETE_OWNED = 0x010"
definition E2K_PERMISSION_EDIT_ANY :: u32 where "E2K_PERMISSION_EDIT_ANY = 0x020"
definition E2K_PERMISSION_DELETE_ANY :: u32 where "E2K_PERMISSION_DELETE_ANY = 0x040"
definition E2K_PERMISSION_CREATE_SUBFOLDER :: u32 where "E2K_PERMISSION_CREATE_SUBFOLDER = 0x080"
definition E2K_PERMISSION_OWNER :: u32 where "E2K_PERMISSION_OWNER = 0x100"
definition E2K_PERMISSION_CONTACT :: u32 where "E2K_PERMISSION_CONTACT = 0x200"
definition E2K_PERMISSION_FOLDER_VISIBLE :: u32 where "E2K_PERMISSION_FOLDER_VISIBLE = 0x400"

lemmas permission_bits =
  E2K_PERMISSION_READ_ANY_def E2K_PERMISSION_CREATE_def E2K_PERMISSION_EDIT_OWNED_def
  E2K_PERMISSION_DELETE_OWNED_def E2K_PERMISSION_EDIT_ANY_def E2K_PERMISSION_DELETE_ANY_def
  E2K_PERMISSION_CREATE_SUBFOLDER_def E2K_PERMISSION_OWNER_def E2K_PERMISSION_CONTACT_def
  E2K_PERMISSION_FOLDER_VISIBLE_def

record E2kPermissionsMap =
  mapi_permission :: u32
  container_allowed :: u32
  container_not_denied :: u32
  object_allowed :: u32
  object_not_denied :: u32

definition pmap :: "u32 \<Rightarrow> u32 \<Rightarrow> u32 \<Rightarrow> u32 \<Rightarrow> u32 \<Rightarrow> E2kPermissionsMap" where
  "pmap m ca cn ob on = \<lparr>mapi_permission = m, container_allowed = ca, container_not_denied = cn,
     object_allowed = ob, object_not_denied = on\<rparr>"

definition permissions_map :: "E2kPermissionsMap list" where
  "permissions_map =
    [pmap E2K_PERMISSION_READ_ANY 0x000000 0x000000 0x1208a9 0x0008a9,
     pmap E2K_PERMISSION_CREATE 0x000002 0x000002 0x000000 0x000000,
     pmap E2K_PERMISSION_CREATE_SUBFOLDER 0x000004 0x000004 0x000000 0x000000,
     pmap E2K_PERMISSION_EDIT_OWNED 0x000000 0x000000 0x000200 0x000000,
     pmap E2K_PERMISSION_DELETE_OWNED 0x000000 0x000000 0x000400 0x000000,
     pmap E2K_PERMISSION_EDIT_ANY 0x000000 0x000000 0x0c0116 0x1e0316,
     pmap E2K_PERMISSION_DELETE_ANY 0x000000 0x000000 0x010000 0x010400,
     pmap E2K_PERMISSION_OWNER 0x0d4110 0x0d4110 0x000000 0x000000,
     pmap E2K_PERMISSION_CONTACT 0x008000 0x008000 0x000000 0x000000,
     pmap E2K_PERMISSION_FOLDER_VISIBLE 0x1208a9 0x1200a9 0x000000 0x000000]"

definition container_permissions_all :: u32 where "container_permissions_all = 0x1fc9bf"
definition object_permissions_all :: u32 where "object_permissions_all = 0x1f0fbf"

section \<open>State\<close>

type_synonym sid_ptr = nat
type_synonym sid_heap = "e2k_sid list"

record E2k_ACE =
  AceType :: byte
  AceFlags :: byte
  AceSize :: u16
  Mask :: u32
  Sid :: sid_ptr

record E2kSecurityDescriptor =
  header :: "byte list"
  control_flags :: u16
  aces :: "E2k_ACE list"
  default_sid :: sid_ptr
  owner :: sid_ptr
  group :: sid_ptr
  sids :: "(byte list, sid_ptr) ghash"
  sid_order :: "(sid_ptr \<times> nat) list"

text \<open>
  The value of \<open>e2k_sid_get_binary_sid\<close> on the object a pointer refers to. Its effect, filling
  the object's cache, does not change any value read later and is left out here.
\<close>

definition sid_bytes :: "sid_heap \<Rightarrow> sid_ptr \<Rightarrow> byte list result" where
  "sid_bytes h p = (if p < length h then ok_bind (e2k_sid_get_binary_sid (h ! p)) (\<lambda>(b, _). Inr b) else Inl Undefined)"

definition lookup_sid :: "E2kSecurityDescriptor \<Rightarrow> byte list \<Rightarrow> sid_ptr option" where
  "lookup_sid sd b = hash_lookup e2k_sid_binary_sid_equal e2k_sid_binary_sid_hash b (sids sd)"

definition insert_sid :: "byte list \<Rightarrow> sid_ptr \<Rightarrow> E2kSecurityDescriptor \<Rightarrow> E2kSecurityDescriptor" where
  "insert_sid b p sd = sd\<lparr>sids := hash_insert e2k_sid_binary_sid_equal e2k_sid_binary_sid_hash b p (sids sd)\<rparr>"

text \<open>A missing entry of \<open>sid_order\<close> is a null pointer, the integer 0.\<close>

definition order_of :: "E2kSecurityDescriptor \<Rightarrow> sid_ptr \<Rightarrow> nat" where
  "order_of sd p = (case direct_lookup p (sid_order sd) of None \<Rightarrow> 0 | Some n \<Rightarrow> n)"

definition append_order :: "sid_ptr \<Rightarrow> E2kSecurityDescriptor \<Rightarrow> E2kSecurityDescriptor" where
  "append_order p sd = sd\<lparr>sid_order := AList.update p (length (sid_order sd) + 1) (sid_order sd)\<rparr>"

section \<open>The order of access control entries\<close>

definition has_flag :: "byte \<Rightarrow> E2k_ACE \<Rightarrow> bool" where
  "has_flag f a \<longleftrightarrow> AceFlags a AND f \<noteq> 0"

definition section_of :: "sid_heap \<Rightarrow> E2kSecurityDescriptor \<Rightarrow> E2k_ACE \<Rightarrow> E2kSidType" where
  "section_of h sd a =
     (if Sid a = default_sid sd then E2K_SID_TYPE_GROUP else e2k_sid_get_sid_type (h ! Sid a))"

definition ace_compar :: "sid_heap \<Rightarrow> E2kSecurityDescriptor \<Rightarrow> E2k_ACE \<Rightarrow> E2k_ACE \<Rightarrow> int" where
  "ace_compar h sd ace1 ace2 =
    (let t1 = section_of h sd ace1; order1 = order_of sd (Sid ace1);
         t2 = section_of h sd ace2; order2 = order_of sd (Sid ace2);
         obj1 = has_flag E2K_OBJECT_INHERIT_ACE ace1; obj2 = has_flag E2K_OBJECT_INHERIT_ACE ace2
     in if t1 \<noteq> t2 then
          (if t1 = E2K_SID_TYPE_USER then - 1
           else if t2 = E2K_SID_TYPE_USER then 1
           else if t1 = E2K_SID_TYPE_GROUP then 1
           else - 1)
        else if t1 \<noteq> E2K_SID_TYPE_GROUP then
          (if obj1 \<and> \<not> obj2 then - 1
           else if obj2 \<and> \<not> obj1 then 1
           else if order1 < order2 then - 1
           else if order1 > order2 then 1
           else if AceType ace1 = AceType ace2 then 0
           else if AceType ace1 = E2K_ACCESS_ALLOWED_ACE_TYPE then - 1
           else 1)
        else
          (if obj1 \<and> \<not> obj2 then 1
           else if obj2 \<and> \<not> obj1 then - 1
           else if Sid ace1 \<noteq> Sid ace2 \<and> Sid ace1 = default_sid sd then 1
           else if Sid ace1 \<noteq> Sid ace2 \<and> Sid ace2 = default_sid sd then - 1
           else if AceType ace1 = E2K_ACCESS_ALLOWED_ACE_TYPE \<and> AceType ace2 = E2K_ACCESS_DENIED_ACE_TYPE then - 1
           else if AceType ace1 = E2K_ACCESS_DENIED_ACE_TYPE \<and> AceType ace2 = E2K_ACCESS_ALLOWED_ACE_TYPE then 1
           else if order1 < order2 then - 1
           else if order1 > order2 then 1
           else 0))"

section \<open>Parsing\<close>

text \<open>
  A node of the XML document: its name, the value \<open>xmlNodeGetContent\<close> returns for it, and its
  children. A list of nodes is a node with its following siblings.
\<close>

datatype xml_node = XmlNode (xml_name: string) (xml_content: "string option") (xml_children: "xml_node list")

definition find_child :: "xml_node \<Rightarrow> string \<Rightarrow> xml_node option" where
  "find_child node name = find (\<lambda>n. xml_name n = name) (xml_children node)"

definition type_of_content :: "string option \<Rightarrow> E2kSidType" where
  "type_of_content content =
     (if content = None \<or> content = Some ''user'' then E2K_SID_TYPE_USER
      else if content = Some ''group'' then E2K_SID_TYPE_GROUP
      else if content = Some ''well_known_group'' then E2K_SID_TYPE_WELL_KNOWN_GROUP
      else if content = Some ''alias'' then E2K_SID_TYPE_ALIAS
      else E2K_SID_TYPE_INVALID)"

text \<open>
  One \<open>sid\<close> element. When the constructor returns a null pointer the code looks up the binary
  form of no object, which is a read through a null pointer.
\<close>

definition extract_sid ::
  "(string \<Rightarrow> string) \<Rightarrow> xml_node \<Rightarrow> E2kSecurityDescriptor \<times> sid_heap \<Rightarrow> (E2kSecurityDescriptor \<times> sid_heap) result" where
  "extract_sid tr node = (\<lambda>(sd, h).
     case (find_child node ''string_sid'', find_child node ''type'') of
       (Some string_sid_node, Some type_node) \<Rightarrow>
         ok_bind (e2k_sid_new_from_string_sid tr (type_of_content (xml_content type_node)) (xml_content string_sid_node)
            (case find_child node ''display_name'' of None \<Rightarrow> None | Some n \<Rightarrow> xml_content n)) (\<lambda>new.
         case new of
           None \<Rightarrow> Inl Undefined
         | Some sid \<Rightarrow>
             ok_bind (e2k_sid_get_binary_sid sid) (\<lambda>(bsid, sid).
             if lookup_sid sd bsid \<noteq> None then Inr (sd, h)
             else Inr (insert_sid bsid (length h) sd, h @ [sid])))
     | _ \<Rightarrow> Inr (sd, h))"

text \<open>A \<open>string_sid\<close> that does not start a SID leads to the null pointer.\<close>

lemma extract_sid_malformed:
  assumes "find_child node ''string_sid'' = Some s" "find_child node ''type'' = Some t"
    and "case xml_content s of None \<Rightarrow> True | Some c \<Rightarrow> length c < 6 \<or> take 4 c \<noteq> ''S-1-''"
  shows "extract_sid tr node (sd, h) = Inl Undefined"
  using assms by (auto simp: extract_sid_def e2k_sid_new_from_string_sid_def split: option.splits)

lemma xml_children_size: "size_list size (xml_children n) < size n"
  by (cases n) simp

function extract_sids ::
  "(string \<Rightarrow> string) \<Rightarrow> xml_node list \<Rightarrow> E2kSecurityDescriptor \<times> sid_heap \<Rightarrow> (E2kSecurityDescriptor \<times> sid_heap) result" where
  "extract_sids tr [] s = Inr s"
| "extract_sids tr (node # nodes) s =
     ok_bind (if xml_name node \<noteq> ''sid'' then extract_sids tr (xml_children node) s else extract_sid tr node s)
       (extract_sids tr nodes)"
  by pat_completeness auto
termination
  using xml_children_size by (relation "measure (\<lambda>(tr, ns, s). size_list size ns)") (auto intro: less_le_trans trans_less_add1 less_SucI)

text \<open>
  The offset is a \<open>guint16\<close>. The remaining length is the difference of two unsigned numbers: when
  the offset lies behind the end of the data it wraps around and the tests pass.
\<close>

definition remaining :: "byte list \<Rightarrow> u16 \<Rightarrow> u32" where
  "remaining binsd off = of_nat (length binsd) - ucast off"

definition parse_sid :: "E2kSecurityDescriptor \<Rightarrow> byte list \<Rightarrow> u16 \<Rightarrow> (sid_ptr \<times> u16) result" where
  "parse_sid sd binsd off =
     (if remaining binsd off < of_nat E2K_SID_BINARY_SID_MIN_LEN then Inl Rejected
      else if length binsd \<le> unat off + 1 then Inl Undefined
      else let p = drop (unat off) binsd; sid_len = E2K_SID_BINARY_SID_LEN p in
        if remaining binsd off < of_nat sid_len then Inl Rejected
        else (case lookup_sid sd p of
            None \<Rightarrow> Inl Rejected
          | Some sid \<Rightarrow> Inr (sid, off + of_nat sid_len)))"

definition u16_at :: "byte list \<Rightarrow> nat \<Rightarrow> u16" where
  "u16_at m i = of_le16 (m ! i) (m ! (i + 1))"

definition u32_at :: "byte list \<Rightarrow> nat \<Rightarrow> u32" where
  "u32_at m i = of_le32 (m ! i) (m ! (i + 1)) (m ! (i + 2)) (m ! (i + 3))"

text \<open>Sizes of the C structures; the last member of an \<open>E2k_ACE\<close> is a pointer.\<close>

definition sizeof_SECURITY_DESCRIPTOR_RELATIVE :: nat where "sizeof_SECURITY_DESCRIPTOR_RELATIVE = 20"
definition sizeof_ACL :: nat where "sizeof_ACL = 8"
definition sizeof_ACE :: nat where "sizeof_ACE = 16"
definition sizeof_ACE_start :: nat where "sizeof_ACE_start = 8"

lemmas struct_sizes = sizeof_SECURITY_DESCRIPTOR_RELATIVE_def sizeof_ACL_def sizeof_ACE_def sizeof_ACE_start_def
  E2K_SID_BINARY_SID_MIN_LEN_def

text \<open>The copy of the members before the pointer.\<close>

definition ace_at :: "byte list \<Rightarrow> nat \<Rightarrow> E2k_ACE" where
  "ace_at m i = \<lparr>AceType = m ! i, AceFlags = m ! (i + 1), AceSize = u16_at m (i + 2), Mask = u32_at m (i + 4), Sid = 0\<rparr>"

text \<open>The loop over the entries; \<open>n\<close> is the number of entries that are left.\<close>

fun parse_aces :: "nat \<Rightarrow> byte list \<Rightarrow> u16 \<Rightarrow> E2kSecurityDescriptor \<Rightarrow> E2kSecurityDescriptor result" where
  "parse_aces 0 binsd off sd = Inr sd"
| "parse_aces (Suc n) binsd off sd =
     (if remaining binsd off < of_nat sizeof_ACE then Inl Rejected
      else if length binsd < unat off + sizeof_ACE_start then Inl Undefined
      else let acebuf = ace_at binsd (unat off)
           in if has_flag E2K_OBJECT_INHERIT_ACE acebuf \<noteq> has_flag E2K_INHERIT_ONLY_ACE acebuf then Inl Rejected
              else ok_bind (parse_sid sd binsd (off + of_nat sizeof_ACE_start)) (\<lambda>(sid, off).
                let sd = (if order_of sd sid = 0 then append_order sid sd else sd)
                in parse_aces n binsd off (sd\<lparr>aces := aces sd @ [acebuf\<lparr>Sid := sid\<rparr>]\<rparr>)))"

definition parse_acl :: "E2kSecurityDescriptor \<Rightarrow> byte list \<Rightarrow> u16 \<Rightarrow> E2kSecurityDescriptor result" where
  "parse_acl sd binsd off =
     (if remaining binsd off < of_nat sizeof_ACL then Inl Rejected
      else if length binsd < unat off + sizeof_ACL then Inl Undefined
      else let o' = unat off; AclRevision = binsd ! o'; AclSize = u16_at binsd (o' + 2); AceCount = u16_at binsd (o' + 4)
           in if unat off + unat AclSize > length binsd then Inl Rejected
              else if AclRevision \<noteq> E2K_ACL_REVISION then Inl Rejected
              else parse_aces (unat AceCount) binsd (off + of_nat sizeof_ACL) sd)"

text \<open>The \<open>E2k_SECURITY_DESCRIPTOR_RELATIVE\<close> structure behind the header.\<close>

record sd_relative =
  Control :: u16
  Owner :: u32
  Group :: u32
  Dacl :: u32

definition parse_header :: "byte list \<Rightarrow> (nat \<times> sd_relative) result" where
  "parse_header binary_form =
     (if length binary_form < 2 then Inl Rejected
      else let header_len = unat (u16_at binary_form 0) in
        if header_len + sizeof_SECURITY_DESCRIPTOR_RELATIVE > length binary_form then Inl Rejected
        else if binary_form ! header_len \<noteq> E2K_SECURITY_DESCRIPTOR_REVISION then Inl Rejected
        else let control = u16_at binary_form (header_len + 2) in
          if control AND (E2K_SE_DACL_PRESENT OR E2K_SE_SACL_PRESENT) \<noteq> E2K_SE_DACL_PRESENT then Inl Rejected
          else Inr (header_len, \<lparr>Control = control, Owner = u32_at binary_form (header_len + 4),
                     Group = u32_at binary_form (header_len + 8), Dacl = u32_at binary_form (header_len + 16)\<rparr>))"

definition rel_offset :: "u32 \<Rightarrow> nat \<Rightarrow> u16" where
  "rel_offset off header_len = ucast (off + of_nat header_len)"

definition parse_parts ::
  "byte list \<Rightarrow> nat \<Rightarrow> sd_relative \<Rightarrow> E2kSecurityDescriptor \<Rightarrow> E2kSecurityDescriptor result" where
  "parse_parts binary_form header_len sdbuf sd =
     ok_bind (parse_sid sd binary_form (rel_offset (Owner sdbuf) header_len)) (\<lambda>(owner_sid, _).
     ok_bind (parse_sid sd binary_form (rel_offset (Group sdbuf) header_len)) (\<lambda>(group_sid, _).
     parse_acl (sd\<lparr>owner := owner_sid, group := group_sid\<rparr>) binary_form (rel_offset (Dacl sdbuf) header_len)))"

text \<open>
  The members \<open>owner\<close> and \<open>group\<close> of the fresh object are null pointers until they are parsed; the
  index 0 stands for them, nothing reads it.
\<close>

definition e2k_security_descriptor_new ::
  "(string \<Rightarrow> string) \<Rightarrow> sid_heap \<Rightarrow> xml_node list option \<Rightarrow> byte list option \<Rightarrow>
   (E2kSecurityDescriptor \<times> sid_heap) result" where
  "e2k_security_descriptor_new tr h xml_form binary_form = (case (xml_form, binary_form) of
     (Some xml, Some binsd) \<Rightarrow>
       ok_bind (parse_header binsd) (\<lambda>(header_len, sdbuf).
       ok_bind (e2k_sid_new_from_string_sid tr E2K_SID_TYPE_WELL_KNOWN_GROUP (Some E2K_SID_WKS_EVERYONE) None) (\<lambda>everyone.
       ok_bind (e2k_sid_get_binary_sid (the everyone)) (\<lambda>(bsid, everyone).
       let sd = insert_sid bsid (length h)
             \<lparr>header = take header_len binsd, control_flags = Control sdbuf, aces = [], default_sid = length h,
              owner = 0, group = 0, sids = [], sid_order = []\<rparr>
       in ok_bind (extract_sids tr xml (sd, h @ [everyone])) (\<lambda>(sd, h).
          ok_bind (parse_parts binsd header_len sdbuf sd) (\<lambda>sd. Inr (sd, h))))))
   | _ \<Rightarrow> Inl Rejected)"

section \<open>Writing\<close>

definition acl_size_of :: "E2k_ACE list \<Rightarrow> nat" where
  "acl_size_of as = sizeof_ACL + sum_list (map (\<lambda>a. unat (AceSize a)) (filter (\<lambda>a. Mask a \<noteq> 0) as))"

definition ace_count_of :: "E2k_ACE list \<Rightarrow> nat" where
  "ace_count_of as = length (filter (\<lambda>a. Mask a \<noteq> 0) as)"

definition ace_start :: "E2k_ACE \<Rightarrow> byte list" where
  "ace_start a = [AceType a, AceFlags a] @ le16 (AceSize a) @ le32 (Mask a)"

text \<open>The memory of a binary SID, as many bytes as its count of subauthorities asks for.\<close>

definition sid_data_of :: "sid_heap \<Rightarrow> sid_ptr \<Rightarrow> byte list result" where
  "sid_data_of h p = ok_bind (sid_bytes h p) (\<lambda>b.
     if E2K_SID_BINARY_SID_LEN b \<le> length b then Inr (take (E2K_SID_BINARY_SID_LEN b) b) else Inl Undefined)"

fun write_aces ::
  "sid_heap \<Rightarrow> E2kSecurityDescriptor \<Rightarrow> E2k_ACE option \<Rightarrow> E2k_ACE list \<Rightarrow> byte list \<Rightarrow> byte list result" where
  "write_aces h sd last_ace [] binsd = Inr binsd"
| "write_aces h sd last_ace (a # as) binsd =
     (if Mask a = 0 then write_aces h sd last_ace as binsd
      else if (case last_ace of None \<Rightarrow> False | Some l \<Rightarrow> ace_compar h sd l a \<noteq> - 1) then Inl Rejected
      else ok_bind (sid_data_of h (Sid a)) (\<lambda>bsid.
           write_aces h sd (Some a) as (binsd @ ace_start a @ bsid)))"

definition e2k_security_descriptor_to_binary :: "sid_heap \<Rightarrow> E2kSecurityDescriptor \<Rightarrow> byte list result" where
  "e2k_security_descriptor_to_binary h sd =
     (let acl_size = acl_size_of (aces sd); ace_count = ace_count_of (aces sd);
          dacl_off = sizeof_SECURITY_DESCRIPTOR_RELATIVE;
          owner_off = dacl_off + acl_size
      in ok_bind (sid_data_of h (owner sd)) (\<lambda>owner_bytes.
         let group_off = owner_off + length owner_bytes;
             sdbuf = [E2K_SECURITY_DESCRIPTOR_REVISION, 0] @ le16 (control_flags sd) @ le32 (of_nat owner_off) @
               le32 (of_nat group_off) @ le32 0 @ le32 (of_nat dacl_off);
             aclbuf = [E2K_ACL_REVISION, 0] @ le16 (of_nat acl_size) @ le16 (of_nat ace_count) @ le16 0
         in ok_bind (write_aces h sd None (aces sd) (header sd @ sdbuf @ aclbuf)) (\<lambda>binsd.
            ok_bind (sid_data_of h (group sd)) (\<lambda>group_bytes.
            Inr (binsd @ owner_bytes @ group_bytes)))))"

section \<open>Queries and updates\<close>

definition e2k_security_descriptor_get_default :: "E2kSecurityDescriptor \<Rightarrow> sid_ptr" where
  "e2k_security_descriptor_get_default = default_sid"

definition e2k_security_descriptor_get_sids :: "E2kSecurityDescriptor \<Rightarrow> sid_ptr list" where
  "e2k_security_descriptor_get_sids sd =
     fold (\<lambda>a sids. if Sid a \<in> set sids then sids else Sid a # sids) (aces sd) []"

text \<open>\<open>canonical\<close> is the object of the table for the same SID, if there is one.\<close>

definition canonical :: "sid_heap \<Rightarrow> E2kSecurityDescriptor \<Rightarrow> sid_ptr \<Rightarrow> sid_ptr option result" where
  "canonical h sd sid = ok_bind (sid_bytes h sid) (\<lambda>b. Inr (lookup_sid sd b))"

definition e2k_security_descriptor_remove_sid ::
  "sid_heap \<Rightarrow> E2kSecurityDescriptor \<Rightarrow> sid_ptr \<Rightarrow> E2kSecurityDescriptor result" where
  "e2k_security_descriptor_remove_sid h sd sid = ok_bind (canonical h sd sid) (\<lambda>c. case c of
     None \<Rightarrow> Inr sd
   | Some sid \<Rightarrow> Inr (sd\<lparr>aces := map (\<lambda>a. if Sid a = sid then a\<lparr>Mask := 0\<rparr> else a) (aces sd)\<rparr>))"

definition mapi_of_ace :: "E2k_ACE \<Rightarrow> u32" where
  "mapi_of_ace a = foldl (\<lambda>mapi_perms m.
     let checkperm = (if has_flag E2K_OBJECT_INHERIT_ACE a then object_allowed m else container_allowed m)
     in if checkperm = 0 then mapi_perms
        else if Mask a AND checkperm = checkperm then mapi_perms OR mapi_permission m else mapi_perms) 0 permissions_map"

definition e2k_security_descriptor_get_permissions ::
  "sid_heap \<Rightarrow> E2kSecurityDescriptor \<Rightarrow> sid_ptr \<Rightarrow> u32 result" where
  "e2k_security_descriptor_get_permissions h sd sid = ok_bind (canonical h sd sid) (\<lambda>c. case c of
     None \<Rightarrow> Inr 0
   | Some sid \<Rightarrow> Inr (foldl (\<lambda>mapi_perms a.
       if Sid a \<noteq> sid then mapi_perms
       else if AceType a = E2K_ACCESS_DENIED_ACE_TYPE then mapi_perms
       else mapi_perms OR mapi_of_ace a) 0 (aces sd)))"

text \<open>
  The binary search of \<open>set_ace\<close>; \<open>cmp\<close> compares the new entry with one of the list, \<open>c\<close> is the
  last result. The sum of the two indices does not overflow for lists of less than \<open>2 ^ 30\<close> entries.
\<close>

datatype position = Found nat | Insert_at nat

function search_ace :: "('a \<Rightarrow> int) \<Rightarrow> 'a list \<Rightarrow> int \<Rightarrow> int \<Rightarrow> int \<Rightarrow> int \<Rightarrow> position" where
  "search_ace cmp xs low high mid c =
     (if low \<le> high then
        (let mid = (low + high) div 2; c = cmp (xs ! nat mid)
         in if c = 0 then Found (nat mid)
            else if c < 0 then search_ace cmp xs low (mid - 1) mid c
            else search_ace cmp xs (mid + 1) high mid c)
      else Insert_at (nat (if c < 0 then mid else mid + 1)))"
  by pat_completeness auto
termination
  by (relation "measure (\<lambda>(cmp, xs, low, high, mid, c). nat (high - low + 1))") auto

declare search_ace.simps [simp del]

definition set_ace :: "sid_heap \<Rightarrow> E2kSecurityDescriptor \<Rightarrow> E2k_ACE \<Rightarrow> E2kSecurityDescriptor" where
  "set_ace h sd ace = (let as = aces sd in
     case search_ace (ace_compar h sd ace) as 0 (int (length as) - 1) 0 (- 1) of
       Found m \<Rightarrow>
         if Mask ace \<noteq> 0 then sd\<lparr>aces := as[m := (as ! m)\<lparr>Mask := Mask ace\<rparr>]\<rparr>
         else sd\<lparr>aces := take m as @ drop (Suc m) as\<rparr>
     | Insert_at i \<Rightarrow> if Mask ace \<noteq> 0 then sd\<lparr>aces := take i as @ ace # drop i as\<rparr> else sd)"

text \<open>The four masks for a set of MAPI permissions.\<close>

record masks =
  obj_allowed :: u32
  obj_denied :: u32
  cont_allowed :: u32
  cont_denied :: u32

definition masks_of :: "u32 \<Rightarrow> masks" where
  "masks_of perms = foldl (\<lambda>ms m.
     if mapi_permission m AND perms = 0 then ms
     else \<lparr>obj_allowed = obj_allowed ms OR object_allowed m,
           obj_denied = obj_denied ms AND NOT (object_not_denied m),
           cont_allowed = cont_allowed ms OR container_allowed m,
           cont_denied = cont_denied ms AND NOT (container_not_denied m)\<rparr>)
     \<lparr>obj_allowed = 0, obj_denied = object_permissions_all, cont_allowed = 0, cont_denied = container_permissions_all\<rparr>
     permissions_map"

definition new_ace :: "u16 \<Rightarrow> sid_ptr \<Rightarrow> byte \<Rightarrow> byte \<Rightarrow> u32 \<Rightarrow> E2k_ACE" where
  "new_ace sz sid type flags m = \<lparr>AceType = type, AceFlags = flags, AceSize = sz, Mask = m, Sid = sid\<rparr>"

definition e2k_security_descriptor_set_permissions ::
  "sid_heap \<Rightarrow> E2kSecurityDescriptor \<Rightarrow> sid_ptr \<Rightarrow> u32 \<Rightarrow> E2kSecurityDescriptor result" where
  "e2k_security_descriptor_set_permissions h sd sid perms =
     ok_bind (sid_bytes h sid) (\<lambda>bsid.
     let (sid, sd) = (case lookup_sid sd bsid of
           None \<Rightarrow> (sid, append_order sid (insert_sid bsid sid sd))
         | Some sid2 \<Rightarrow> (sid2, sd));
         ms = masks_of perms;
         sz = of_nat (sizeof_ACE_start + E2K_SID_BINARY_SID_LEN bsid);
         object_flags = E2K_OBJECT_INHERIT_ACE OR E2K_INHERIT_ONLY_ACE;
         container_flags = E2K_CONTAINER_INHERIT_ACE;
         sd = set_ace h sd (new_ace sz sid E2K_ACCESS_ALLOWED_ACE_TYPE object_flags (obj_allowed ms));
         sd = (if sid \<noteq> default_sid sd
               then set_ace h sd (new_ace sz sid E2K_ACCESS_DENIED_ACE_TYPE object_flags (obj_denied ms)) else sd);
         sd = set_ace h sd (new_ace sz sid E2K_ACCESS_ALLOWED_ACE_TYPE container_flags (cont_allowed ms))
     in Inr (if sid \<noteq> default_sid sd
             then set_ace h sd (new_ace sz sid E2K_ACCESS_DENIED_ACE_TYPE container_flags (cont_denied ms)) else sd))"

section \<open>Roles\<close>

type_synonym E2kPermissionsRole = int

definition E2K_PERMISSIONS_ROLE_CUSTOM :: E2kPermissionsRole where "E2K_PERMISSIONS_ROLE_CUSTOM = - 1"
definition E2K_PERMISSIONS_ROLE_NONE :: E2kPermissionsRole where "E2K_PERMISSIONS_ROLE_NONE = 8"
definition E2K_PERMISSIONS_ROLE_NUM_ROLES :: E2kPermissionsRole where "E2K_PERMISSIONS_ROLE_NUM_ROLES = 9"

definition roles :: "(string \<times> u32) list" where
  "roles =
    [(''Owner'', E2K_PERMISSION_FOLDER_VISIBLE OR E2K_PERMISSION_READ_ANY OR E2K_PERMISSION_CREATE OR
       E2K_PERMISSION_DELETE_OWNED OR E2K_PERMISSION_EDIT_OWNED OR E2K_PERMISSION_DELETE_ANY OR
       E2K_PERMISSION_EDIT_ANY OR E2K_PERMISSION_CREATE_SUBFOLDER OR E2K_PERMISSION_CONTACT OR
       E2K_PERMISSION_OWNER),
     (''Publishing Editor'', E2K_PERMISSION_FOLDER_VISIBLE OR E2K_PERMISSION_READ_ANY OR E2K_PERMISSION_CREATE OR
       E2K_PERMISSION_DELETE_OWNED OR E2K_PERMISSION_EDIT_OWNED OR E2K_PERMISSION_DELETE_ANY OR
       E2K_PERMISSION_EDIT_ANY OR E2K_PERMISSION_CREATE_SUBFOLDER),
     (''Editor'', E2K_PERMISSION_FOLDER_VISIBLE OR E2K_PERMISSION_READ_ANY OR E2K_PERMISSION_CREATE OR
       E2K_PERMISSION_DELETE_OWNED OR E2K_PERMISSION_EDIT_OWNED OR E2K_PERMISSION_DELETE_ANY OR
       E2K_PERMISSION_EDIT_ANY),
     (''Publishing Author'', E2K_PERMISSION_FOLDER_VISIBLE OR E2K_PERMISSION_READ_ANY OR E2K_PERMISSION_CREATE OR
       E2K_PERMISSION_DELETE_OWNED OR E2K_PERMISSION_EDIT_OWNED OR E2K_PERMISSION_CREATE_SUBFOLDER),
     (''Author'', E2K_PERMISSION_FOLDER_VISIBLE OR E2K_PERMISSION_READ_ANY OR E2K_PERMISSION_CREATE OR
       E2K_PERMISSION_DELETE_OWNED OR E2K_PERMISSION_EDIT_OWNED),
     (''Non-editing Author'', E2K_PERMISSION_FOLDER_VISIBLE OR E2K_PERMISSION_READ_ANY OR E2K_PERMISSION_CREATE OR
       E2K_PERMISSION_DELETE_OWNED),
     (''Reviewer'', E2K_PERMISSION_FOLDER_VISIBLE OR E2K_PERMISSION_READ_ANY),
     (''Contributor'', E2K_PERMISSION_FOLDER_VISIBLE OR E2K_PERMISSION_CREATE),
     (''None'', E2K_PERMISSION_FOLDER_VISIBLE)]"

text \<open>The element of the array; index \<open>- 1\<close> lies before it.\<close>

definition role_at :: "E2kPermissionsRole \<Rightarrow> (string \<times> u32) result" where
  "role_at role = (if 0 \<le> role \<and> role < int (length roles) then Inr (roles ! nat role) else Inl Undefined)"

definition e2k_permissions_role_get_name :: "(string \<Rightarrow> string) \<Rightarrow> E2kPermissionsRole \<Rightarrow> string option result" where
  "e2k_permissions_role_get_name tr role =
     (if role = E2K_PERMISSIONS_ROLE_CUSTOM then Inr (Some (tr ''Custom''))
      else if \<not> (role > E2K_PERMISSIONS_ROLE_CUSTOM \<and> role < E2K_PERMISSIONS_ROLE_NUM_ROLES) then Inr None
      else ok_bind (role_at role) (\<lambda>(name, _). Inr (Some (tr name))))"

definition e2k_permissions_role_get_perms :: "E2kPermissionsRole \<Rightarrow> u32 result" where
  "e2k_permissions_role_get_perms role =
     (if \<not> (role \<ge> E2K_PERMISSIONS_ROLE_CUSTOM \<and> role < E2K_PERMISSIONS_ROLE_NUM_ROLES) then Inr 0
      else ok_bind (role_at role) (\<lambda>(_, perms). Inr perms))"

fun find_role :: "nat \<Rightarrow> (string \<times> u32) list \<Rightarrow> u32 \<Rightarrow> E2kPermissionsRole" where
  "find_role role [] perms = E2K_PERMISSIONS_ROLE_CUSTOM"
| "find_role role (r # rs) perms =
     (if snd r AND NOT E2K_PERMISSION_CONTACT = perms then int role else find_role (Suc role) rs perms)"

definition e2k_permissions_role_find :: "u32 \<Rightarrow> E2kPermissionsRole" where
  "e2k_permissions_role_find perms =
     (let perms = perms AND NOT E2K_PERMISSION_CONTACT
      in if perms = 0 then E2K_PERMISSIONS_ROLE_NONE else find_role 0 roles perms)"

lemma roles_found: "list_all (\<lambda>i. e2k_permissions_role_find (snd (roles ! i)) = int i) [0..<9]"
  by code_simp

lemma find_role_hit: "find_role k rs perms = int r \<Longrightarrow> \<exists>i < length rs. r = k + i \<and> snd (rs ! i) AND NOT E2K_PERMISSION_CONTACT = perms"
proof (induction k rs perms rule: find_role.induct)
  case (2 k r rs perms)
  then show ?case
    by (auto split: if_splits intro: exI [of _ 0] exI [of _ "Suc _"])
qed (simp add: E2K_PERMISSIONS_ROLE_CUSTOM_def)

lemma role_find_masked: "e2k_permissions_role_find p = e2k_permissions_role_find (p AND NOT E2K_PERMISSION_CONTACT)"
  by (simp add: e2k_permissions_role_find_def Let_def and.assoc)

lemma role_perms_at: "0 \<le> r \<Longrightarrow> r < 9 \<Longrightarrow> e2k_permissions_role_get_perms r = Inr (snd (roles ! nat r))"
  by (simp add: e2k_permissions_role_get_perms_def role_at_def roles_def E2K_PERMISSIONS_ROLE_CUSTOM_def
      E2K_PERMISSIONS_ROLE_NUM_ROLES_def split: prod.split)

text \<open>
  A set of permissions is recognised as a role exactly when it has the permissions of the
  role, \<open>Folder contact\<close> apart; the empty set counts as the role \<open>None\<close>.
\<close>

theorem role_find_iff:
  assumes "0 \<le> r" "r < 9" "e2k_permissions_role_get_perms r = Inr q"
  shows "e2k_permissions_role_find p = r \<longleftrightarrow>
    p AND NOT E2K_PERMISSION_CONTACT = q AND NOT E2K_PERMISSION_CONTACT \<or>
    p AND NOT E2K_PERMISSION_CONTACT = 0 \<and> r = E2K_PERMISSIONS_ROLE_NONE"
proof -
  have q: "q = snd (roles ! nat r)" using role_perms_at assms by simp
  have "nat r \<in> set [0..<9]" using assms by auto
  then have found: "e2k_permissions_role_find q = r" using roles_found assms(1) unfolding q list_all_iff by auto
  show ?thesis
  proof
    assume f: "e2k_permissions_role_find p = r"
    show "p AND NOT E2K_PERMISSION_CONTACT = q AND NOT E2K_PERMISSION_CONTACT \<or>
      p AND NOT E2K_PERMISSION_CONTACT = 0 \<and> r = E2K_PERMISSIONS_ROLE_NONE"
    proof (cases "p AND NOT E2K_PERMISSION_CONTACT = 0")
      case False
      then have "find_role 0 roles (p AND NOT E2K_PERMISSION_CONTACT) = int (nat r)"
        using f assms by (simp add: e2k_permissions_role_find_def)
      from find_role_hit [OF this] show ?thesis using q by auto
    qed (use f in \<open>simp add: e2k_permissions_role_find_def\<close>)
  next
    assume "p AND NOT E2K_PERMISSION_CONTACT = q AND NOT E2K_PERMISSION_CONTACT \<or>
      p AND NOT E2K_PERMISSION_CONTACT = 0 \<and> r = E2K_PERMISSIONS_ROLE_NONE"
    then show "e2k_permissions_role_find p = r"
    proof
      assume "p AND NOT E2K_PERMISSION_CONTACT = q AND NOT E2K_PERMISSION_CONTACT"
      then show ?thesis using found role_find_masked [of p] role_find_masked [of q] by simp
    qed (simp add: e2k_permissions_role_find_def)
  qed
qed

lemma role_find_iff_witness: "e2k_permissions_role_find 0x41b = 4"
proof -
  have "e2k_permissions_role_get_perms 4 = Inr 0x41b" by code_simp
  from role_find_iff [where p = "0x41b", OF _ _ this] show ?thesis by simp
qed

text \<open>
  Asking for the permissions of the role \<open>Custom\<close> passes the check of the argument and reads
  the array of roles at index -1.
\<close>

theorem role_custom_perms: "e2k_permissions_role_get_perms E2K_PERMISSIONS_ROLE_CUSTOM = Inl Undefined"
  by (simp add: e2k_permissions_role_get_perms_def role_at_def E2K_PERMISSIONS_ROLE_CUSTOM_def
      E2K_PERMISSIONS_ROLE_NUM_ROLES_def)


end
