(* ===== verification/Ace_Order.thy ===== *)
theory Ace_Order
  imports Security_Descriptor "HOL-Library.Product_Lexorder"
begin

text \<open>
  The order of access control entries: \<open>ace_compar\<close> compares keys, and the binary search of
  \<open>set_ace\<close> finds the entry with the key or the place where it belongs. The interface
  \<open>sorted_by\<close> is what the search needs from a comparison function.
\<close>

section \<open>Binary search\<close>

locale sorted_by =
  fixes cmp :: "'a \<Rightarrow> 'a \<Rightarrow> int" and key :: "'a \<Rightarrow> 'k :: linorder" and ok :: "'a \<Rightarrow> bool"
  assumes less: "ok a \<Longrightarrow> ok b \<Longrightarrow> cmp a b < 0 \<longleftrightarrow> key a < key b"
    and equal: "ok a \<Longrightarrow> ok b \<Longrightarrow> cmp a b = 0 \<longleftrightarrow> key a = key b"
begin

definition in_order :: "'a list \<Rightarrow> bool" where
  "in_order xs \<longleftrightarrow> list_all ok xs \<and> sorted_wrt (\<lambda>x y. key x < key y) xs"

lemma in_order_nth: "in_order xs \<Longrightarrow> i < j \<Longrightarrow> j < length xs \<Longrightarrow> key (xs ! i) < key (xs ! j)"
  by (auto simp: in_order_def dest: sorted_wrt_nth_less [of "\<lambda>x y. key x < key y"])

lemma in_order_ok: "in_order xs \<Longrightarrow> i < length xs \<Longrightarrow> ok (xs ! i)"
  by (simp add: in_order_def list_all_length)

definition right_place :: "'a \<Rightarrow> 'a list \<Rightarrow> position \<Rightarrow> bool" where
  "right_place a xs p = (case p of
     Found m \<Rightarrow> m < length xs \<and> key (xs ! m) = key a
   | Insert_at i \<Rightarrow> i \<le> length xs \<and> (\<forall>j < i. key (xs ! j) < key a) \<and> (\<forall>j < length xs. i \<le> j \<longrightarrow> key a < key (xs ! j)))"

lemma search_loop:
  assumes a: "ok a"
  shows "in_order xs \<Longrightarrow> 0 \<le> low \<Longrightarrow> high < int (length xs) \<Longrightarrow> low \<le> high + 1 \<Longrightarrow>
    (low \<le> high \<or> (if c < 0 then mid else mid + 1) = low) \<Longrightarrow>
    (\<forall>j < nat low. key (xs ! j) < key a) \<Longrightarrow>
    (\<forall>j < length xs. high < int j \<longrightarrow> key a < key (xs ! j)) \<Longrightarrow>
    right_place a xs (search_ace (cmp a) xs low high mid c)"
proof (induction "cmp a" xs low high mid c rule: search_ace.induct)
  case (1 xs low high mid c)
  note xs = "1.prems"(1) and prems = "1.prems"(2-)
  show ?case
  proof (cases "low \<le> high")
    case False
    then have "nat (if c < 0 then mid else mid + 1) = nat low" "high = low - 1" using prems by auto
    with False show ?thesis using prems by (subst search_ace.simps) (auto simp: right_place_def)
  next
    case True
    define m where "m = (low + high) div 2"
    have m: "low \<le> m" "m \<le> high" using True by (auto simp: m_def)
    then have n: "nat m < length xs" using prems by linarith
    have cm: "cmp a (xs ! nat m) < 0 \<longleftrightarrow> key a < key (xs ! nat m)"
      "cmp a (xs ! nat m) = 0 \<longleftrightarrow> key a = key (xs ! nat m)"
      using less equal a in_order_ok [OF xs n] by auto
    consider "cmp a (xs ! nat m) = 0" | "cmp a (xs ! nat m) < 0" | "cmp a (xs ! nat m) > 0" by linarith
    then show ?thesis
    proof cases
      case 1
      then show ?thesis using n cm True by (subst search_ace.simps) (simp add: m_def [symmetric] right_place_def)
    next
      case 2
      have "\<forall>j < length xs. m - 1 < int j \<longrightarrow> key a < key (xs ! j)"
      proof (intro allI impI)
        fix j assume j: "j < length xs" "m - 1 < int j"
        show "key a < key (xs ! j)"
        proof (cases "j = nat m")
          case False
          then have "nat m < j" using j m prems(1) by linarith
          then show ?thesis using in_order_nth [OF xs _ j(1)] cm 2 by (meson less_trans)
        qed (use cm 2 in simp)
      qed
      moreover have "low < m \<or> m = low" using m by linarith
      ultimately have "right_place a xs (search_ace (cmp a) xs low (m - 1) m (cmp a (xs ! nat m)))"
        using "1.hyps"(1) [OF True m_def refl] 2 prems m xs a by auto
      then show ?thesis using True 2 by (subst search_ace.simps) (simp add: m_def [symmetric] Let_def)
    next
      case 3
      have "\<forall>j < nat (m + 1). key (xs ! j) < key a"
      proof (intro allI impI)
        fix j assume j: "j < nat (m + 1)"
        have mk: "key (xs ! nat m) < key a" using 3 cm not_less_iff_gr_or_eq by fastforce
        show "key (xs ! j) < key a"
        proof (cases "j = nat m")
          case False
          then have "j < nat m" using j m prems(1) by linarith
          then show ?thesis using in_order_nth [OF xs _ n] mk by (meson less_trans)
        qed (use mk in simp)
      qed
      then have "right_place a xs (search_ace (cmp a) xs (m + 1) high m (cmp a (xs ! nat m)))"
        using "1.hyps"(2) [OF True m_def refl] 3 prems m xs a by auto
      then show ?thesis using True 3 by (subst search_ace.simps) (simp add: m_def [symmetric] Let_def)
    qed
  qed
qed

lemma search_place:
  assumes "in_order xs" "ok a"
  shows "right_place a xs (search_ace (cmp a) xs 0 (int (length xs) - 1) 0 (- 1))"
  by (rule search_loop) (use assms in auto)

end

section \<open>The order of entries is an order\<close>

text \<open>
  \<open>ace_compar\<close> compares these keys, if the types of the two SIDs are users, groups or well-known
  groups, and the two entries either allow or deny. Two SIDs of further types, say an alias and a
  well-known group, are both less than each other.
\<close>

definition known_type :: "E2kSidType \<Rightarrow> bool" where
  "known_type t \<longleftrightarrow> t = E2K_SID_TYPE_USER \<or> t = E2K_SID_TYPE_GROUP \<or> t = E2K_SID_TYPE_WELL_KNOWN_GROUP"

definition ace_key :: "sid_heap \<Rightarrow> E2kSecurityDescriptor \<Rightarrow> E2k_ACE \<Rightarrow> nat \<times> nat \<times> nat \<times> nat \<times> nat" where
  "ace_key h sd a =
    (let t = section_of h sd a; obj = has_flag E2K_OBJECT_INHERIT_ACE a;
         n = order_of sd (Sid a); d = unat (AceType a)
     in if t = E2K_SID_TYPE_GROUP then (2, of_bool obj, of_bool (Sid a = default_sid sd), d, n)
        else (if t = E2K_SID_TYPE_USER then 0 else 1, of_bool (\<not> obj), 0, n, d))"

definition ok_ace :: "sid_heap \<Rightarrow> E2kSecurityDescriptor \<Rightarrow> E2k_ACE \<Rightarrow> bool" where
  "ok_ace h sd a \<longleftrightarrow> known_type (section_of h sd a) \<and> (AceType a = 0 \<or> AceType a = 1)"

lemma ace_compar_both_less:
  "section_of h sd a = E2K_SID_TYPE_ALIAS \<Longrightarrow> section_of h sd b = E2K_SID_TYPE_WELL_KNOWN_GROUP \<Longrightarrow>
   ace_compar h sd a b = - 1 \<and> ace_compar h sd b a = - 1"
  by (simp add: ace_compar_def Let_def)

lemmas compar_defs = ace_compar_def ace_key_def Let_def E2K_ACCESS_ALLOWED_ACE_TYPE_def E2K_ACCESS_DENIED_ACE_TYPE_def

interpretation acl: sorted_by "ace_compar h sd" "ace_key h sd" "ok_ace h sd" for h sd
proof unfold_locales
  fix a b assume ok: "ok_ace h sd a" "ok_ace h sd b"
  then show "ace_compar h sd a b < 0 \<longleftrightarrow> ace_key h sd a < ace_key h sd b"
    unfolding ok_ace_def known_type_def
    by (elim disjE conjE; cases "has_flag E2K_OBJECT_INHERIT_ACE a"; cases "has_flag E2K_OBJECT_INHERIT_ACE b";
        cases "Sid a = default_sid sd"; cases "Sid b = default_sid sd"; simp add: compar_defs)
  from ok show "ace_compar h sd a b = 0 \<longleftrightarrow> ace_key h sd a = ace_key h sd b"
    unfolding ok_ace_def known_type_def
    by (elim disjE conjE; cases "has_flag E2K_OBJECT_INHERIT_ACE a"; cases "has_flag E2K_OBJECT_INHERIT_ACE b";
        cases "Sid a = default_sid sd"; cases "Sid b = default_sid sd"; simp add: compar_defs)
qed

end
