(* ===== verification/Permissions.thy ===== *)
theory Permissions
  imports Ace_Order
begin

text \<open>
  Correctness of the folder permissions. A descriptor is abstracted to a map from slots (a SID,
  object or container, denied or not) to masks; every operation on the sorted array refines an
  operation on that map, and the MAPI permissions of a SID are read off two of its slots.
\<close>

section \<open>Abstraction and invariant\<close>

type_synonym slot = "sid_ptr \<times> bool \<times> bool"

definition slot_of :: "E2k_ACE \<Rightarrow> slot" where
  "slot_of a = (Sid a, has_flag E2K_OBJECT_INHERIT_ACE a, AceType a = E2K_ACCESS_DENIED_ACE_TYPE)"

definition acl_map :: "E2kSecurityDescriptor \<Rightarrow> slot \<rightharpoonup> u32" where
  "acl_map sd = map_of (map (\<lambda>a. (slot_of a, Mask a)) (aces sd))"

definition ordered_sids :: "E2kSecurityDescriptor \<Rightarrow> sid_ptr set" where
  "ordered_sids sd = fst ` set (sid_order sd)"

definition order_ok :: "E2kSecurityDescriptor \<Rightarrow> bool" where
  "order_ok sd \<longleftrightarrow> distinct (map fst (sid_order sd)) \<and> map snd (sid_order sd) = [1..<Suc (length (sid_order sd))]"

definition table_ok :: "sid_heap \<Rightarrow> E2kSecurityDescriptor \<Rightarrow> bool" where
  "table_ok h sd \<longleftrightarrow> list_all (\<lambda>(k, p). \<exists>b. sid_bytes h p = Inr b \<and> e2k_sid_binary_sid_equal k b) (sids sd)"

definition acl_ok :: "sid_heap \<Rightarrow> E2kSecurityDescriptor \<Rightarrow> bool" where
  "acl_ok h sd \<longleftrightarrow> acl.in_order h sd (aces sd) \<and> list_all (\<lambda>a. Sid a \<in> ordered_sids sd) (aces sd)"

text \<open>
  The invariant: the entries are in order, of known types and of SIDs that have a number; the
  numbers are those of the insertion order; numbered SIDs are in the table, under their own keys.
\<close>

definition sd_ok :: "sid_heap \<Rightarrow> E2kSecurityDescriptor \<Rightarrow> bool" where
  "sd_ok h sd \<longleftrightarrow> order_ok sd \<and> table_ok h sd \<and> ordered_sids sd \<subseteq> snd ` set (sids sd) \<and> acl_ok h sd"

lemma order_of_inj:
  assumes "order_ok sd" "p \<in> ordered_sids sd" "q \<in> ordered_sids sd" "order_of sd p = order_of sd q"
  shows "p = q"
proof -
  let ?o = "sid_order sd"
  have d: "distinct (map fst ?o)" "distinct (map snd ?o)" using assms(1) by (auto simp: order_ok_def)
  obtain m n where m: "(p, m) \<in> set ?o" and n: "(q, n) \<in> set ?o"
    using assms(2,3) by (auto simp: ordered_sids_def)
  then have "map_of ?o p = Some m" "map_of ?o q = Some n" using d(1) by simp_all
  then have "m = n" using assms(4) by (simp add: order_of_def direct_lookup_def)
  with m n d(2) show ?thesis by (metis (no_types, lifting) distinct_map inj_onD prod.inject snd_conv)
qed

lemma slot_eq_key:
  assumes "order_ok sd" "ok_ace h sd a" "ok_ace h sd b" "Sid a \<in> ordered_sids sd" "Sid b \<in> ordered_sids sd"
  shows "ace_key h sd a = ace_key h sd b \<longleftrightarrow> slot_of a = slot_of b"
proof
  assume k: "ace_key h sd a = ace_key h sd b"
  then have "order_of sd (Sid a) = order_of sd (Sid b)"
    by (auto simp: ace_key_def Let_def split: if_splits)
  then have s: "Sid a = Sid b" using order_of_inj assms by blast
  from k have u: "unat (AceType a) = unat (AceType b)"
    and "has_flag E2K_OBJECT_INHERIT_ACE a = has_flag E2K_OBJECT_INHERIT_ACE b"
    by (auto simp: ace_key_def Let_def of_bool_def split: if_splits)
  moreover have "AceType a = AceType b" by (rule unsigned_word_eqI [OF u])
  ultimately show "slot_of a = slot_of b" using s by (simp only: slot_of_def)
next
  assume "slot_of a = slot_of b"
  then show "ace_key h sd a = ace_key h sd b"
    using assms by (auto simp: slot_of_def ace_key_def section_of_def ok_ace_def Let_def E2K_ACCESS_DENIED_ACE_TYPE_def)
qed

lemma slots_distinct:
  assumes "order_ok sd" "acl_ok h sd"
  shows "distinct (map slot_of (aces sd))"
proof -
  have "slot_of (aces sd ! i) \<noteq> slot_of (aces sd ! j)" if ij: "i < j" "j < length (aces sd)" for i j
  proof -
    have io: "acl.in_order h sd (aces sd)" using assms by (simp add: acl_ok_def)
    then have "ace_key h sd (aces sd ! i) < ace_key h sd (aces sd ! j)" using acl.in_order_nth ij by blast
    moreover have "ok_ace h sd (aces sd ! i)" "ok_ace h sd (aces sd ! j)"
      using io acl.in_order_ok ij by auto
    moreover have "Sid (aces sd ! i) \<in> ordered_sids sd" "Sid (aces sd ! j) \<in> ordered_sids sd"
      using assms(2) ij by (auto simp: acl_ok_def list_all_length)
    ultimately show ?thesis using slot_eq_key [OF assms(1)] by (metis less_irrefl)
  qed
  then show ?thesis by (auto simp: distinct_conv_nth) (metis nat_neq_iff)
qed

section \<open>Changing one entry\<close>

lemma key_aces_update [simp]: "ace_key h (sd\<lparr>aces := xs\<rparr>) = ace_key h sd"
  by (rule ext) (simp add: ace_key_def section_of_def order_of_def)

lemma ok_aces_update [simp]: "ok_ace h (sd\<lparr>aces := xs\<rparr>) = ok_ace h sd"
  by (rule ext) (simp add: ok_ace_def section_of_def)

lemma in_order_aces_update [simp]: "acl.in_order h (sd\<lparr>aces := xs\<rparr>) = acl.in_order h sd"
  by (rule ext) (simp add: acl.in_order_def)

lemma ordered_aces_update [simp]: "ordered_sids (sd\<lparr>aces := xs\<rparr>) = ordered_sids sd"
  by (simp add: ordered_sids_def)

lemma sd_ok_aces_update:
  "sd_ok h (sd\<lparr>aces := xs\<rparr>) \<longleftrightarrow> order_ok sd \<and> table_ok h sd \<and> ordered_sids sd \<subseteq> snd ` set (sids sd) \<and>
     acl.in_order h sd xs \<and> list_all (\<lambda>a. Sid a \<in> ordered_sids sd) xs"
  by (simp add: sd_ok_def acl_ok_def order_ok_def table_ok_def)

lemma key_mask_update [simp]: "ace_key h sd (a\<lparr>Mask := m\<rparr>) = ace_key h sd a"
  by (simp add: ace_key_def section_of_def has_flag_def)

lemma ok_mask_update [simp]: "ok_ace h sd (a\<lparr>Mask := m\<rparr>) = ok_ace h sd a"
  by (simp add: ok_ace_def section_of_def)

lemma slot_mask_update [simp]: "slot_of (a\<lparr>Mask := m\<rparr>) = slot_of a"
  by (simp add: slot_of_def has_flag_def)

abbreviation assoc :: "E2k_ACE list \<Rightarrow> (slot \<times> u32) list" where
  "assoc xs \<equiv> map (\<lambda>a. (slot_of a, Mask a)) xs"

lemma map_of_replaced:
  "slot_of y = slot_of x \<Longrightarrow> slot_of x \<notin> slot_of ` set xs \<Longrightarrow>
   map_of (assoc (xs @ y # ys)) = (map_of (assoc (xs @ x # ys)))(slot_of x \<mapsto> Mask y)"
  by (induction xs) (auto intro: fun_upd_twist)

lemma map_of_removed:
  "slot_of x \<notin> slot_of ` set xs \<Longrightarrow> slot_of x \<notin> slot_of ` set ys \<Longrightarrow>
   map_of (assoc (xs @ ys)) = (map_of (assoc (xs @ x # ys)))(slot_of x := None)"
proof (induction xs)
  case Nil
  then have "map_of (assoc ys) (slot_of x) = None" by (simp add: map_of_eq_None_iff image_image)
  then show ?case by (auto simp: fun_upd_idem)
qed (auto intro: fun_upd_twist)

lemma map_of_inserted:
  "slot_of y \<notin> slot_of ` set xs \<Longrightarrow>
   map_of (assoc (xs @ y # ys)) = (map_of (assoc (xs @ ys)))(slot_of y \<mapsto> Mask y)"
  by (induction xs) (auto intro: fun_upd_twist)

lemma in_order_append:
  "acl.in_order h sd (xs @ ys) \<longleftrightarrow> acl.in_order h sd xs \<and> acl.in_order h sd ys \<and>
     (\<forall>x \<in> set xs. \<forall>y \<in> set ys. ace_key h sd x < ace_key h sd y)"
  by (auto simp: acl.in_order_def sorted_wrt_append)

lemma in_order_Cons:
  "acl.in_order h sd (x # ys) \<longleftrightarrow> ok_ace h sd x \<and> acl.in_order h sd ys \<and> (\<forall>y \<in> set ys. ace_key h sd x < ace_key h sd y)"
  by (auto simp: acl.in_order_def)

lemma all_take_nth: "(\<forall>x \<in> set (take i xs). P x) \<longleftrightarrow> (\<forall>j < min i (length xs). P (xs ! j))"
  by (auto simp: all_set_conv_all_nth)

lemma all_drop_nth: "(\<forall>x \<in> set (drop i xs). P x) \<longleftrightarrow> (\<forall>j < length xs. i \<le> j \<longrightarrow> P (xs ! j))"
  unfolding all_set_conv_all_nth
proof (intro iffI allI impI)
  fix j assume "\<forall>k < length (drop i xs). P (drop i xs ! k)" "j < length xs" "i \<le> j"
  then show "P (xs ! j)" by (auto dest!: spec [where x = "j - i"])
qed auto

text \<open>What \<open>set_ace\<close> does to the map: it stores the mask in the slot, or empties the slot.\<close>

lemma set_ace_refines:
  assumes sd: "sd_ok h sd" and a: "ok_ace h sd a" "Sid a \<in> ordered_sids sd"
  shows "sd_ok h (set_ace h sd a)"
    and "acl_map (set_ace h sd a) = (acl_map sd)(slot_of a := if Mask a = 0 then None else Some (Mask a))"
proof -
  let ?as = "aces sd" and ?p = "search_ace (ace_compar h sd a) (aces sd) 0 (int (length (aces sd)) - 1) 0 (- 1)"
  have io: "acl.in_order h sd ?as" and ids: "list_all (\<lambda>a. Sid a \<in> ordered_sids sd) ?as" and oo: "order_ok sd"
    and base: "table_ok h sd" "ordered_sids sd \<subseteq> snd ` set (sids sd)"
    using sd by (auto simp: sd_ok_def acl_ok_def)
  have key: "ace_key h sd x = ace_key h sd a \<longleftrightarrow> slot_of x = slot_of a" if "x \<in> set ?as" for x
    using that slot_eq_key [OF oo _ a(1) _ a(2)] io ids by (auto simp: acl.in_order_def list_all_iff)
  have place: "acl.right_place h sd a ?as ?p" by (rule acl.search_place [OF io a(1)])
  have "sd_ok h (set_ace h sd a) \<and>
    acl_map (set_ace h sd a) = (acl_map sd)(slot_of a := if Mask a = 0 then None else Some (Mask a))"
  proof (cases ?p)
    case (Found m)
    with place have m: "m < length ?as" "ace_key h sd (?as ! m) = ace_key h sd a"
      by (simp_all add: acl.right_place_def)
    let ?xs = "take m ?as" and ?x = "?as ! m" and ?ys = "drop (Suc m) ?as"
    have as: "?as = ?xs @ ?x # ?ys" using m by (simp add: id_take_nth_drop)
    have sl: "slot_of ?x = slot_of a" using key m by simp
    have "distinct (map slot_of (?xs @ ?x # ?ys))" using slots_distinct [OF oo, of h] sd as by (simp add: sd_ok_def)
    then have n: "slot_of ?x \<notin> slot_of ` set ?xs" "slot_of ?x \<notin> slot_of ` set ?ys" by auto
    have upd: "?as[m := y] = ?xs @ y # ?ys" for y using m by (simp add: upd_conv_take_nth_drop)
    have io': "acl.in_order h sd (?xs @ ?x # ?ys)" and ids': "list_all (\<lambda>a. Sid a \<in> ordered_sids sd) (?xs @ ?x # ?ys)"
      using io ids as by auto
    show ?thesis
    proof (cases "Mask a = 0")
      case True
      then have s: "set_ace h sd a = sd\<lparr>aces := ?xs @ ?ys\<rparr>" using Found by (simp add: set_ace_def Let_def)
      have "acl_map (sd\<lparr>aces := ?xs @ ?ys\<rparr>) = (acl_map sd)(slot_of a := None)"
        using map_of_removed [OF n] as sl by (simp add: acl_map_def)
      then show ?thesis unfolding s using oo base io' ids' True
        by (simp add: sd_ok_aces_update in_order_append in_order_Cons)
    next
      case False
      let ?y = "?x\<lparr>Mask := Mask a\<rparr>"
      have s: "set_ace h sd a = sd\<lparr>aces := ?xs @ ?y # ?ys\<rparr>" using Found False by (simp add: set_ace_def Let_def upd)
      have "acl_map (sd\<lparr>aces := ?xs @ ?y # ?ys\<rparr>) = (acl_map sd)(slot_of a \<mapsto> Mask a)"
        using map_of_replaced [of ?y ?x ?xs ?ys] n as sl by (simp add: acl_map_def)
      then show ?thesis unfolding s using oo base io' ids' False
        by (simp add: sd_ok_aces_update in_order_append in_order_Cons)
    qed
  next
    case (Insert_at i)
    let ?xs = "take i ?as" and ?ys = "drop i ?as"
    from place Insert_at have i: "i \<le> length ?as" "\<forall>x \<in> set ?xs. ace_key h sd x < ace_key h sd a"
      "\<forall>x \<in> set ?ys. ace_key h sd a < ace_key h sd x"
      by (auto simp: acl.right_place_def all_take_nth all_drop_nth)
    have fresh: "slot_of a \<noteq> slot_of x" if "x \<in> set ?as" for x
    proof -
      have "set ?as = set ?xs \<union> set ?ys" by (metis append_take_drop_id set_append)
      then have "ace_key h sd x \<noteq> ace_key h sd a" using i that by auto
      then show ?thesis using key that by metis
    qed
    show ?thesis
    proof (cases "Mask a = 0")
      case True
      have "acl_map sd (slot_of a) = None"
        using fresh by (auto simp: acl_map_def map_of_eq_None_iff image_image)
      then show ?thesis using True Insert_at sd by (simp add: set_ace_def Let_def fun_upd_idem)
    next
      case False
      then have s: "set_ace h sd a = sd\<lparr>aces := ?xs @ a # ?ys\<rparr>" using Insert_at by (simp add: set_ace_def Let_def)
      have "slot_of a \<notin> slot_of ` set ?xs" using fresh by (auto dest: in_set_takeD)
      then have "acl_map (sd\<lparr>aces := ?xs @ a # ?ys\<rparr>) = (acl_map sd)(slot_of a \<mapsto> Mask a)"
        using map_of_inserted [of a ?xs ?ys] by (simp add: acl_map_def)
      moreover have "acl.in_order h sd (?xs @ ?ys)" "list_all (\<lambda>a. Sid a \<in> ordered_sids sd) (?xs @ ?ys)"
        using io ids by simp_all
      note split = this [unfolded in_order_append list_all_append]
      ultimately show ?thesis unfolding s using oo base a i split False
        by (auto simp: sd_ok_aces_update in_order_append in_order_Cons)
    qed
  qed
  then show "sd_ok h (set_ace h sd a)"
    and "acl_map (set_ace h sd a) = (acl_map sd)(slot_of a := if Mask a = 0 then None else Some (Mask a))"
    by blast+
qed

section \<open>Reading permissions\<close>

definition mapi_bits :: "bool \<Rightarrow> u32 \<Rightarrow> u32" where
  "mapi_bits obj m = foldl (\<lambda>perms e.
     let c = (if obj then object_allowed e else container_allowed e)
     in if c = 0 then perms else if m AND c = c then perms OR mapi_permission e else perms) 0 permissions_map"

definition slot_mask :: "E2kSecurityDescriptor \<Rightarrow> slot \<Rightarrow> u32" where
  "slot_mask sd s = (case acl_map sd s of None \<Rightarrow> 0 | Some m \<Rightarrow> m)"

text \<open>The MAPI permissions of a SID: those of its two slots of allowed permissions.\<close>

definition permissions_of :: "E2kSecurityDescriptor \<Rightarrow> sid_ptr \<Rightarrow> u32" where
  "permissions_of sd p =
     mapi_bits True (slot_mask sd (p, True, False)) OR mapi_bits False (slot_mask sd (p, False, False))"

lemma mapi_of_ace_bits: "mapi_of_ace a = mapi_bits (has_flag E2K_OBJECT_INHERIT_ACE a) (Mask a)"
  by (simp add: mapi_of_ace_def mapi_bits_def)

lemma mapi_bits_0 [simp]: "mapi_bits obj 0 = 0"
  by (simp add: mapi_bits_def permissions_map_def pmap_def)

definition collect :: "sid_ptr \<Rightarrow> E2k_ACE list \<Rightarrow> u32 \<Rightarrow> u32" where
  "collect p as x = foldl (\<lambda>mapi_perms a.
       if Sid a \<noteq> p then mapi_perms
       else if AceType a = E2K_ACCESS_DENIED_ACE_TYPE then mapi_perms
       else mapi_perms OR mapi_of_ace a) x as"

lemma collect_shift: "collect p as x = x OR collect p as 0"
proof (induction as arbitrary: x)
  case (Cons a as)
  show ?case
    using Cons [of "x OR mapi_of_ace a"] Cons [of "mapi_of_ace a"] Cons [of x]
    by (simp add: collect_def or.assoc)
qed (simp add: collect_def)

lemma collect_slots:
  "distinct (map slot_of as) \<Longrightarrow>
   collect p as 0 = (case map_of (assoc as) (p, True, False) of None \<Rightarrow> 0 | Some m \<Rightarrow> mapi_bits True m) OR
     (case map_of (assoc as) (p, False, False) of None \<Rightarrow> 0 | Some m \<Rightarrow> mapi_bits False m)"
proof (induction as)
  case Nil
  then show ?case by (simp add: collect_def)
next
  case (Cons a as)
  then have n: "map_of (assoc as) (slot_of a) = None" by (auto simp: map_of_eq_None_iff image_image)
  have c: "collect p (a # as) 0 = (if slot_of a = (p, True, False) \<or> slot_of a = (p, False, False)
      then mapi_of_ace a OR collect p as 0 else collect p as 0)"
    using collect_shift [of p as "mapi_of_ace a"] by (auto simp: collect_def slot_of_def)
  consider "slot_of a = (p, True, False)" | "slot_of a = (p, False, False)"
    | "slot_of a \<noteq> (p, True, False)" "slot_of a \<noteq> (p, False, False)" by blast
  then show ?case
  proof cases
    case 1
    then have "mapi_of_ace a = mapi_bits True (Mask a)" by (simp add: mapi_of_ace_bits slot_of_def)
    then show ?thesis using Cons 1 n c by simp
  next
    case 2
    then have "mapi_of_ace a = mapi_bits False (Mask a)" by (simp add: mapi_of_ace_bits slot_of_def)
    then show ?thesis using Cons 2 n c by (simp add: or.commute)
  next
    case 3
    then show ?thesis using Cons c by simp
  qed
qed

lemma get_permissions_map:
  assumes "sd_ok h sd" "sid_bytes h q = Inr b"
  shows "e2k_security_descriptor_get_permissions h sd q =
    Inr (case lookup_sid sd b of None \<Rightarrow> 0 | Some p \<Rightarrow> permissions_of sd p)"
proof -
  have "distinct (map slot_of (aces sd))" using assms slots_distinct by (auto simp: sd_ok_def)
  note c = collect_slots [OF this, folded acl_map_def]
  have "collect p (aces sd) 0 = permissions_of sd p" for p
    unfolding c permissions_of_def slot_mask_def by (simp split: option.split)
  then show ?thesis
    using assms by (simp add: e2k_security_descriptor_get_permissions_def canonical_def collect_def split: option.split)
qed

text \<open>The masks computed from a set of permissions give the set back.\<close>

lemma and_single: "x AND 2 ^ n = (if bit x n then 2 ^ n else 0)" for x :: u32
  by (rule bit_word_eqI) (auto simp: bit_simps)

lemmas and_bit = and_single [of _ 0, simplified] and_single [of _ 1, simplified] and_single [of _ 3, simplified]
  and_single [of _ 4, simplified] and_single [of _ 5, simplified] and_single [of _ 6, simplified]
  and_single [of _ 7, simplified] and_single [of _ 8, simplified] and_single [of _ 9, simplified]
  and_single [of _ 10, simplified]

lemma masks_foldl:
  "obj_allowed (masks_of perms) = foldl (\<lambda>x e. x OR (if mapi_permission e AND perms = 0 then 0 else object_allowed e)) 0 permissions_map"
  "cont_allowed (masks_of perms) = foldl (\<lambda>x e. x OR (if mapi_permission e AND perms = 0 then 0 else container_allowed e)) 0 permissions_map"
proof -
  define f where "f = (\<lambda>ms (m :: E2kPermissionsMap). if mapi_permission m AND perms = 0 then ms
     else \<lparr>obj_allowed = obj_allowed ms OR object_allowed m,
           obj_denied = obj_denied ms AND NOT (object_not_denied m),
           cont_allowed = cont_allowed ms OR container_allowed m,
           cont_denied = cont_denied ms AND NOT (container_not_denied m)\<rparr>)"
  have "obj_allowed (foldl f ms es) =
      foldl (\<lambda>x e. x OR (if mapi_permission e AND perms = 0 then 0 else object_allowed e)) (obj_allowed ms) es"
    and "cont_allowed (foldl f ms es) =
      foldl (\<lambda>x e. x OR (if mapi_permission e AND perms = 0 then 0 else container_allowed e)) (cont_allowed ms) es" for ms es
    by (induction es arbitrary: ms) (auto simp: f_def)
  note * = this
  show "obj_allowed (masks_of perms) = foldl (\<lambda>x e. x OR (if mapi_permission e AND perms = 0 then 0 else object_allowed e)) 0 permissions_map"
    "cont_allowed (masks_of perms) = foldl (\<lambda>x e. x OR (if mapi_permission e AND perms = 0 then 0 else container_allowed e)) 0 permissions_map"
    unfolding masks_of_def f_def [symmetric] * by simp_all
qed

lemma obj_allowed_bits:
  "obj_allowed (masks_of perms) = (if bit perms 0 then 0x1208a9 else 0) OR (if bit perms 3 then 0x200 else 0) OR
     (if bit perms 4 then 0x400 else 0) OR (if bit perms 5 then 0x0c0116 else 0) OR (if bit perms 6 then 0x010000 else 0)"
  unfolding masks_foldl
  by (simp add: permissions_map_def pmap_def permission_bits and_bit and.commute [of _ perms] or.assoc)

lemma object_masks: "mapi_bits True (obj_allowed (masks_of perms)) = perms AND 0x79"
proof -
  have s: "perms AND 0x79 = (perms AND 1) OR (perms AND 8) OR (perms AND 16) OR (perms AND 32) OR (perms AND 64)"
    by (simp flip: bit.conj_disj_distrib)
  have b: "perms AND 1 = (if bit perms 0 then 1 else 0)" using and_bit(1) by simp
  show ?thesis
    unfolding s b and_bit obj_allowed_bits
    by (cases "bit perms 0"; cases "bit perms 3"; cases "bit perms 4"; cases "bit perms 5"; cases "bit perms 6";
        simp add: mapi_bits_def permissions_map_def pmap_def permission_bits Let_def)
qed

lemma cont_allowed_bits:
  "cont_allowed (masks_of perms) = (if bit perms 1 then 0x2 else 0) OR (if bit perms 7 then 0x4 else 0) OR
     (if bit perms 8 then 0x0d4110 else 0) OR (if bit perms 9 then 0x8000 else 0) OR (if bit perms 10 then 0x1208a9 else 0)"
  unfolding masks_foldl
  by (simp add: permissions_map_def pmap_def permission_bits and_bit and.commute [of _ perms] or.assoc)

lemma container_masks: "mapi_bits False (cont_allowed (masks_of perms)) = perms AND 0x782"
proof -
  have s: "perms AND 0x782 = (perms AND 2) OR (perms AND 128) OR (perms AND 256) OR (perms AND 512) OR (perms AND 1024)"
    by (simp flip: bit.conj_disj_distrib)
  show ?thesis
    unfolding s and_bit cont_allowed_bits
    by (cases "bit perms (Suc 0)"; cases "bit perms 7"; cases "bit perms 8"; cases "bit perms 9"; cases "bit perms 10";
        simp add: mapi_bits_def permissions_map_def pmap_def permission_bits Let_def)
qed

section \<open>Setting permissions\<close>

definition all_permissions :: u32 where
  "all_permissions = 0x7fb"

lemma masks_mapi:
  "mapi_bits True (obj_allowed (masks_of perms)) OR mapi_bits False (cont_allowed (masks_of perms)) = perms AND all_permissions"
  unfolding object_masks container_masks all_permissions_def by (simp flip: bit.conj_disj_distrib)

text \<open>
  The SID objects the operation is about: the canonical one is either a new object, or an object of
  the table that has been given a number; only then are its entries distinguished from others.
\<close>

definition settled :: "sid_heap \<Rightarrow> E2kSecurityDescriptor \<Rightarrow> sid_ptr \<Rightarrow> byte list \<Rightarrow> bool" where
  "settled h sd p b \<longleftrightarrow> sid_bytes h p = Inr b \<and> (case lookup_sid sd b of
     None \<Rightarrow> known_type (e2k_sid_get_sid_type (h ! p))
   | Some c \<Rightarrow> c \<in> ordered_sids sd \<and> (c = default_sid sd \<or> known_type (e2k_sid_get_sid_type (h ! c))))"

text \<open>The descriptor and the canonical pointer before the entries are set.\<close>

definition admit :: "E2kSecurityDescriptor \<Rightarrow> byte list \<Rightarrow> sid_ptr \<Rightarrow> sid_ptr \<times> E2kSecurityDescriptor" where
  "admit sd b p = (case lookup_sid sd b of
     None \<Rightarrow> (p, append_order p (insert_sid b p sd)) | Some c \<Rightarrow> (c, sd))"

lemma table_entry:
  "table_ok h sd \<Longrightarrow> (k, c) \<in> set (sids sd) \<Longrightarrow> \<exists>b. sid_bytes h c = Inr b \<and> e2k_sid_binary_sid_equal k b"
  by (force simp: table_ok_def list_all_iff)

lemma sid_table_lookup:
  assumes "table_ok h sd" "lookup_sid sd b = Some c"
  shows "\<exists>b'. sid_bytes h c = Inr b' \<and> e2k_sid_binary_sid_equal b' b"
proof -
  obtain k where k: "(k, c) \<in> set (sids sd)" "e2k_sid_binary_sid_equal k b"
    using hash_lookup_in [OF assms(2) [unfolded lookup_sid_def]] by blast
  obtain b' where b': "sid_bytes h c = Inr b'" "e2k_sid_binary_sid_equal k b'"
    using table_entry [OF assms(1) k(1)] by blast
  have "e2k_sid_binary_sid_equal b' b" by (rule sids.eq_trans [OF sids.eq_sym [OF b'(2)] k(2)])
  with b' show ?thesis by blast
qed

lemma table_member:
  assumes "table_ok h sd" "sid_bytes h p = Inr b" "p \<in> snd ` set (sids sd)"
  shows "lookup_sid sd b \<noteq> None"
proof -
  obtain k where k: "(k, p) \<in> set (sids sd)" using assms(3) by auto
  then have "e2k_sid_binary_sid_equal k b" using table_entry [OF assms(1) k] assms(2) by auto
  then show ?thesis using k unfolding lookup_sid_def sids.lookup_None by force
qed

lemma lookup_after_insert:
  "lookup_sid (insert_sid b p sd) b' = (if e2k_sid_binary_sid_equal b' b then Some p else lookup_sid sd b')"
  by (simp add: lookup_sid_def insert_sid_def sids.lookup_insert)

lemma update_fresh: "p \<notin> fst ` set xs \<Longrightarrow> AList.update p v xs = xs @ [(p, v)]"
  by (induction xs) auto

lemma order_old: "p \<notin> ordered_sids sd \<Longrightarrow> q \<noteq> p \<Longrightarrow> order_of (append_order p sd) q = order_of sd q"
  by (simp add: order_of_def append_order_def direct_lookup_def ordered_sids_def update_conv')

lemma admit_ok:
  assumes sd: "sd_ok h sd" and s: "settled h sd p b" and a: "admit sd b p = (c, sd')"
  shows "sd_ok h sd'" "c \<in> ordered_sids sd'" "acl_map sd' = acl_map sd" "default_sid sd' = default_sid sd"
    "c = default_sid sd' \<or> known_type (e2k_sid_get_sid_type (h ! c))"
    "lookup_sid sd' b' = (if e2k_sid_binary_sid_equal b' b then Some c else lookup_sid sd b')"
proof -
  have b: "sid_bytes h p = Inr b" using s by (simp add: settled_def)
  have "sd_ok h sd' \<and> c \<in> ordered_sids sd' \<and> acl_map sd' = acl_map sd \<and> default_sid sd' = default_sid sd \<and>
    (c = default_sid sd' \<or> known_type (e2k_sid_get_sid_type (h ! c))) \<and>
    lookup_sid sd' b' = (if e2k_sid_binary_sid_equal b' b then Some c else lookup_sid sd b')"
  proof (cases "lookup_sid sd b")
    case (Some d)
    then have "c = d" "sd' = sd" using a by (simp_all add: admit_def)
    moreover have "lookup_sid sd b' = lookup_sid sd b" if "e2k_sid_binary_sid_equal b' b"
      using sids.lookup_cong that by (simp add: lookup_sid_def)
    ultimately show ?thesis using sd s Some by (auto simp: settled_def)
  next
    case None
    then have e: "c = p" "sd' = append_order p (insert_sid b p sd)" using a by (auto simp: admit_def)
    have new: "p \<notin> ordered_sids sd" 
    proof
      assume "p \<in> ordered_sids sd"
      then have "p \<in> snd ` set (sids sd)" using sd by (auto simp only: sd_ok_def)
      moreover have "table_ok h sd" using sd by (simp add: sd_ok_def)
      ultimately show False using table_member b None by blast
    qed
    have ord: "sid_order sd' = sid_order sd @ [(p, Suc (length (sid_order sd)))]"
      using new by (simp add: e append_order_def insert_sid_def update_fresh ordered_sids_def)
    have tab: "sids sd' = sids sd @ [(b, p)]"
      using None by (simp add: e append_order_def insert_sid_def lookup_sid_def hash_insert_fresh)
    have same: "aces sd' = aces sd" "default_sid sd' = default_sid sd"
      by (simp_all add: e append_order_def insert_sid_def)
    have ids: "ordered_sids sd' = insert p (ordered_sids sd)" using ord by (auto simp: ordered_sids_def)
    have oo: "order_ok sd'" using sd new ord by (auto simp: sd_ok_def order_ok_def ordered_sids_def)
    have "order_of sd' q = order_of sd q" if "q \<noteq> p" for q
      using that ord by (auto simp: order_of_def direct_lookup_def map_add_def split: option.split)
    note ord_same = this
    have k: "ace_key h sd' x = ace_key h sd x" if "x \<in> set (aces sd)" for x
    proof -
      have "Sid x \<noteq> p" using that sd new by (auto simp: sd_ok_def acl_ok_def list_all_iff)
      then show ?thesis by (simp add: ace_key_def section_of_def Let_def same(2) ord_same)
    qed
    have okx: "ok_ace h sd' x = ok_ace h sd x" for x by (simp add: ok_ace_def section_of_def same)
    have io: "acl.in_order h sd (aces sd)" using sd by (simp add: sd_ok_def acl_ok_def)
    then have "acl.in_order h sd' (aces sd)"
      unfolding acl.in_order_def using okx k by (auto elim!: sorted_wrt_mono_rel [rotated] simp: list_all_iff)
    then have "acl_ok h sd'" using sd ids same by (auto simp: sd_ok_def acl_ok_def list_all_iff)
    moreover have "table_ok h sd'" using sd b tab sids.eq_refl by (auto simp: sd_ok_def table_ok_def)
    moreover have "ordered_sids sd' \<subseteq> snd ` set (sids sd')" using sd ids tab by (auto simp: sd_ok_def)
    moreover have "lookup_sid sd' b' = (if e2k_sid_binary_sid_equal b' b then Some c else lookup_sid sd b')"
      using lookup_after_insert [of b p sd b'] by (simp add: e lookup_sid_def append_order_def)
    ultimately show ?thesis using oo s None ids same by (auto simp: sd_ok_def settled_def e(1) acl_map_def)
  qed
  then show "sd_ok h sd'" "c \<in> ordered_sids sd'" "acl_map sd' = acl_map sd" "default_sid sd' = default_sid sd"
    "c = default_sid sd' \<or> known_type (e2k_sid_get_sid_type (h ! c))"
    "lookup_sid sd' b' = (if e2k_sid_binary_sid_equal b' b then Some c else lookup_sid sd b')"
    by blast+
qed

lemma set_ace_keeps: "default_sid (set_ace h sd a) = default_sid sd" "sids (set_ace h sd a) = sids sd"
    "sid_order (set_ace h sd a) = sid_order sd"
  by (simp_all add: set_ace_def Let_def split: position.splits)

lemma lookup_set_ace [simp]: "lookup_sid (set_ace h sd a) = lookup_sid sd"
  by (rule ext) (simp add: lookup_sid_def set_ace_keeps)

lemma ordered_set_ace [simp]: "ordered_sids (set_ace h sd a) = ordered_sids sd"
  by (simp add: ordered_sids_def set_ace_keeps)

definition object_flags :: byte where
  "object_flags = E2K_OBJECT_INHERIT_ACE OR E2K_INHERIT_ONLY_ACE"

lemma new_ace_ok:
  "c = default_sid sd \<or> known_type (e2k_sid_get_sid_type (h ! c)) \<Longrightarrow> t \<in> {0, 1} \<Longrightarrow> ok_ace h sd (new_ace z c t f m)"
  by (auto simp: ok_ace_def section_of_def new_ace_def known_type_def)

lemma new_ace_slot:
  "slot_of (new_ace z c t object_flags m) = (c, True, t = E2K_ACCESS_DENIED_ACE_TYPE)"
  "slot_of (new_ace z c t E2K_CONTAINER_INHERIT_ACE m) = (c, False, t = E2K_ACCESS_DENIED_ACE_TYPE)"
  by (simp_all add: slot_of_def new_ace_def has_flag_def object_flags_def E2K_OBJECT_INHERIT_ACE_def
      E2K_INHERIT_ONLY_ACE_def E2K_CONTAINER_INHERIT_ACE_def)

lemma new_ace_fields [simp]: "Mask (new_ace z c t f m) = m" "Sid (new_ace z c t f m) = c"
  by (simp_all add: new_ace_def)

abbreviation stored :: "u32 \<Rightarrow> u32 option" where
  "stored m \<equiv> if m = 0 then None else Some m"

text \<open>What the operation does to the map: two slots of the SID, or four if it is not the default.\<close>

lemma set_permissions_refines:
  assumes sd: "sd_ok h sd" and s: "settled h sd p b"
  shows "\<exists>c sd'. e2k_security_descriptor_set_permissions h sd p perms = Inr sd' \<and> sd_ok h sd' \<and>
    default_sid sd' = default_sid sd \<and>
    (\<forall>b'. lookup_sid sd' b' = (if e2k_sid_binary_sid_equal b' b then Some c else lookup_sid sd b')) \<and>
    c \<in> ordered_sids sd' \<and>
    (let ms = masks_of perms;
         m = (acl_map sd)((c, True, False) := stored (obj_allowed ms), (c, False, False) := stored (cont_allowed ms))
     in acl_map sd' = (if c = default_sid sd then m
          else m((c, True, True) := stored (obj_denied ms), (c, False, True) := stored (cont_denied ms))))"
proof -
  obtain c sd1 where a: "admit sd b p = (c, sd1)" by fastforce
  note ok1 = admit_ok [OF sd s a]
  have b: "sid_bytes h p = Inr b" using s by (simp add: settled_def)
  define z where "z = (of_nat (sizeof_ACE_start + E2K_SID_BINARY_SID_LEN b) :: u16)"
  define a1 where "a1 = new_ace z c E2K_ACCESS_ALLOWED_ACE_TYPE object_flags (obj_allowed (masks_of perms))"
  define a2 where "a2 = new_ace z c E2K_ACCESS_DENIED_ACE_TYPE object_flags (obj_denied (masks_of perms))"
  define a3 where "a3 = new_ace z c E2K_ACCESS_ALLOWED_ACE_TYPE E2K_CONTAINER_INHERIT_ACE (cont_allowed (masks_of perms))"
  define a4 where "a4 = new_ace z c E2K_ACCESS_DENIED_ACE_TYPE E2K_CONTAINER_INHERIT_ACE (cont_denied (masks_of perms))"
  note as = a1_def a2_def a3_def a4_def
  have t: "E2K_ACCESS_ALLOWED_ACE_TYPE \<in> {0, 1}" "E2K_ACCESS_DENIED_ACE_TYPE \<in> {0, 1}"
    "E2K_ACCESS_ALLOWED_ACE_TYPE \<noteq> E2K_ACCESS_DENIED_ACE_TYPE"
    by (simp_all add: E2K_ACCESS_ALLOWED_ACE_TYPE_def E2K_ACCESS_DENIED_ACE_TYPE_def)
  have step: "sd_ok h (set_ace h x e)"
      "acl_map (set_ace h x e) = (acl_map x)(slot_of e := stored (Mask e))"
    if "e \<in> {a1, a2, a3, a4}" "sd_ok h x" "default_sid x = default_sid sd1" "ordered_sids x = ordered_sids sd1" for x e
  proof -
    have "ok_ace h x e" "Sid e = c" using that ok1 t new_ace_ok [of c x h] by (auto simp: as)
    then show "sd_ok h (set_ace h x e)" "acl_map (set_ace h x e) = (acl_map x)(slot_of e := stored (Mask e))"
      using set_ace_refines [of h x e] that ok1 by auto
  qed
  have res: "e2k_security_descriptor_set_permissions h sd p perms = Inr
     (if c = default_sid sd1 then set_ace h (set_ace h sd1 a1) a3
      else set_ace h (set_ace h (set_ace h (set_ace h sd1 a1) a2) a3) a4)"
    using a by (simp add: e2k_security_descriptor_set_permissions_def b Let_def admit_def as z_def set_ace_keeps
        split: option.splits flip: object_flags_def)
  have sl: "slot_of a1 = (c, True, False)" "slot_of a2 = (c, True, True)" "slot_of a3 = (c, False, False)"
    "slot_of a4 = (c, False, True)" using t by (simp_all add: as new_ace_slot)
  have mk: "Mask a1 = obj_allowed (masks_of perms)" "Mask a2 = obj_denied (masks_of perms)"
    "Mask a3 = cont_allowed (masks_of perms)" "Mask a4 = cont_denied (masks_of perms)" by (simp_all add: as)
  show ?thesis
  proof (cases "c = default_sid sd1")
    case True
    then show ?thesis using ok1 res
      by (intro exI [of _ c] exI [of _ "set_ace h (set_ace h sd1 a1) a3"])
        (simp add: step set_ace_keeps sl Let_def mk)
  next
    case False
    then show ?thesis using ok1 res
      by (intro exI [of _ c] exI [of _ "set_ace h (set_ace h (set_ace h (set_ace h sd1 a1) a2) a3) a4"])
        (simp add: step set_ace_keeps sl Let_def mk fun_upd_twist)
  qed
qed


section \<open>Properties\<close>

lemma get_after_set:
  assumes sd: "sd_ok h sd" and s: "settled h sd p b"
  shows "\<exists>sd'. e2k_security_descriptor_set_permissions h sd p perms = Inr sd' \<and> sd_ok h sd' \<and>
    e2k_security_descriptor_get_permissions h sd' p = Inr (perms AND all_permissions) \<and>
    (\<forall>q bq. sid_bytes h q = Inr bq \<longrightarrow> \<not> e2k_sid_binary_sid_equal bq b \<longrightarrow>
       e2k_security_descriptor_get_permissions h sd' q = e2k_security_descriptor_get_permissions h sd q)"
proof -
  from set_permissions_refines [OF sd s, of perms] obtain c sd' where
    set: "e2k_security_descriptor_set_permissions h sd p perms = Inr sd'" and ok: "sd_ok h sd'" and
    look: "\<And>b'. lookup_sid sd' b' = (if e2k_sid_binary_sid_equal b' b then Some c else lookup_sid sd b')" and
    acl: "let ms = masks_of perms;
         m = (acl_map sd)((c, True, False) := stored (obj_allowed ms), (c, False, False) := stored (cont_allowed ms))
     in acl_map sd' = (if c = default_sid sd then m
          else m((c, True, True) := stored (obj_denied ms), (c, False, True) := stored (cont_denied ms)))"
    by blast
  have b: "sid_bytes h p = Inr b" using s by (simp add: settled_def)
  have "acl_map sd' (c, True, False) = stored (obj_allowed (masks_of perms))"
    "acl_map sd' (c, False, False) = stored (cont_allowed (masks_of perms))"
    using acl by (simp_all add: Let_def split: if_split_asm)
  then have mine: "permissions_of sd' c = perms AND all_permissions"
    by (simp add: permissions_of_def slot_mask_def flip: masks_mapi)
  have other: "permissions_of sd' d = permissions_of sd d" if "d \<noteq> c" for d
    using acl that by (simp add: permissions_of_def slot_mask_def Let_def split: if_split_asm)
  have "e2k_security_descriptor_get_permissions h sd' p = Inr (perms AND all_permissions)"
    using get_permissions_map [OF ok b] look mine sids.eq_refl by simp
  moreover have "e2k_security_descriptor_get_permissions h sd' q = e2k_security_descriptor_get_permissions h sd q"
    if q: "sid_bytes h q = Inr bq" "\<not> e2k_sid_binary_sid_equal bq b" for q bq
  proof -
    have "d \<noteq> c" if "lookup_sid sd bq = Some d" for d
    proof
      assume "d = c"
      then have "lookup_sid sd' bq = Some c" "lookup_sid sd' b = Some c" using that q look sids.eq_refl by simp_all
      then obtain b1 b2 where "sid_bytes h c = Inr b1" "e2k_sid_binary_sid_equal b1 bq"
        "sid_bytes h c = Inr b2" "e2k_sid_binary_sid_equal b2 b"
        using sid_table_lookup [of h sd'] ok by (meson sd_ok_def)
      then show False using q(2) sids.eq_sym [of b1 bq] sids.eq_trans [of bq b1 b] by simp
    qed
    then show ?thesis
      using get_permissions_map [OF ok q(1)] get_permissions_map [OF sd q(1)] look q(2) other
      by (auto split: option.split)
  qed
  ultimately show ?thesis using set ok by blast
qed

lemma has_mask_update: "has_flag b (a\<lparr>Mask := m\<rparr>) = has_flag b a"
  by (simp add: has_flag_def)

lemma remove_sid_refines:
  assumes sd: "sd_ok h sd" and b: "sid_bytes h p = Inr b"
  shows "\<exists>sd'. e2k_security_descriptor_remove_sid h sd p = Inr sd' \<and> sd_ok h sd' \<and>
    (\<forall>b'. lookup_sid sd' b' = lookup_sid sd b') \<and>
    acl_map sd' = (\<lambda>s. if lookup_sid sd b = Some (fst s) then map_option (\<lambda>_. 0) (acl_map sd s) else acl_map sd s)"
proof (cases "lookup_sid sd b")
  case None
  then show ?thesis using sd b by (simp add: e2k_security_descriptor_remove_sid_def canonical_def)
next
  case (Some c)
  define f where "f = (\<lambda>a :: E2k_ACE. if Sid a = c then a\<lparr>Mask := 0\<rparr> else a)"
  have r: "e2k_security_descriptor_remove_sid h sd p = Inr (sd\<lparr>aces := map f (aces sd)\<rparr>)"
    using Some b by (simp add: e2k_security_descriptor_remove_sid_def canonical_def f_def)
  have f: "ace_key h sd (f a) = ace_key h sd a" "ok_ace h sd (f a) = ok_ace h sd a" "Sid (f a) = Sid a" for a
    by (simp_all add: f_def)
  have slots: "slot_of (f a) = slot_of a" "Mask (f a) = (if Sid a = c then 0 else Mask a)" "Sid a = fst (slot_of a)" for a
    by (simp_all add: f_def slot_of_def has_mask_update)
  have "sd_ok h (sd\<lparr>aces := map f (aces sd)\<rparr>)"
    unfolding sd_ok_aces_update
    using sd by (simp add: sd_ok_def acl_ok_def acl.in_order_def sorted_wrt_map f list_all_iff)
  moreover have "map_of (assoc (map f as)) s = (if c = fst s then map_option (\<lambda>_. 0) (map_of (assoc as) s) else map_of (assoc as) s)"
    for as s
    by (induction as) (auto simp: slots)
  ultimately show ?thesis
    using r Some by (auto simp: acl_map_def lookup_sid_def fun_eq_iff)
qed


text \<open>A heap with the default SID and two users, and a descriptor without entries.\<close>

definition sample_heap :: sid_heap where
  "sample_heap =
    [\<lparr>sid_type = E2K_SID_TYPE_WELL_KNOWN_GROUP, binary_sid = Some (sid_bin 1 1 [0]), string_sid = None, display_name = None\<rparr>,
     \<lparr>sid_type = E2K_SID_TYPE_USER, binary_sid = Some (sid_bin 1 5 [1]), string_sid = None, display_name = None\<rparr>,
     \<lparr>sid_type = E2K_SID_TYPE_USER, binary_sid = Some (sid_bin 1 5 [2]), string_sid = None, display_name = None\<rparr>]"

definition sample_sd :: "(byte list, sid_ptr) ghash \<Rightarrow> E2kSecurityDescriptor" where
  "sample_sd t = \<lparr>header = [2, 0], control_flags = 4, aces = [], default_sid = 0, owner = 0, group = 0,
     sids = t, sid_order = []\<rparr>"

lemma sample_sd_ok: "sd_ok sample_heap (sample_sd [(sid_bin 1 1 [0], 0)])"
  by (simp add: sd_ok_def order_ok_def table_ok_def acl_ok_def acl.in_order_def ordered_sids_def sample_sd_def
      sid_bytes_def sample_heap_def e2k_sid_get_binary_sid_def sids.eq_refl)

lemma sample_bins: "\<not> e2k_sid_binary_sid_equal (sid_bin 1 1 [0]) (sid_bin 1 5 [1])"
  "\<not> e2k_sid_binary_sid_equal (sid_bin 1 5 [2]) (sid_bin 1 5 [1])"
  "\<not> e2k_sid_binary_sid_equal (sid_bin 1 5 [1]) (sid_bin 1 5 [2])"
  by (simp_all add: e2k_sid_binary_sid_equal_def E2K_SID_BINARY_SID_LEN_def sid_bin_def le32_alt)

lemma sample_settled: "settled sample_heap (sample_sd [(sid_bin 1 1 [0], 0)]) 1 (sid_bin 1 5 [1])"
proof -
  have "lookup_sid (sample_sd [(sid_bin 1 1 [0], 0)]) (sid_bin 1 5 [1]) = None"
    unfolding lookup_sid_def sids.lookup_None by (simp add: sample_sd_def sample_bins)
  then show ?thesis
    by (simp add: settled_def sid_bytes_def sample_heap_def e2k_sid_get_binary_sid_def known_type_def e2k_sid_get_sid_type_def)
qed


text \<open>
  C35. After a SID is removed it has no permissions, every other SID has what it had, and the
  descriptor stays well-formed.
\<close>

theorem remove_sid_get:
  assumes "sd_ok h sd" "sid_bytes h p = Inr b"
  shows "\<exists>sd'. e2k_security_descriptor_remove_sid h sd p = Inr sd' \<and> sd_ok h sd' \<and>
    e2k_security_descriptor_get_permissions h sd' p = Inr 0 \<and>
    (\<forall>q bq. sid_bytes h q = Inr bq \<longrightarrow> lookup_sid sd bq \<noteq> lookup_sid sd b \<longrightarrow>
       e2k_security_descriptor_get_permissions h sd' q = e2k_security_descriptor_get_permissions h sd q)"
proof -
  from remove_sid_refines [OF assms] obtain sd' where
    r: "e2k_security_descriptor_remove_sid h sd p = Inr sd'" and ok: "sd_ok h sd'" and
    look: "\<And>b'. lookup_sid sd' b' = lookup_sid sd b'" and
    acl: "acl_map sd' = (\<lambda>s. if lookup_sid sd b = Some (fst s) then map_option (\<lambda>_. 0) (acl_map sd s) else acl_map sd s)"
    by blast
  have "permissions_of sd' c = (if lookup_sid sd b = Some c then 0 else permissions_of sd c)" for c
    by (simp add: permissions_of_def slot_mask_def acl split: option.split)
  then show ?thesis
    using r ok get_permissions_map [OF ok] get_permissions_map [OF assms(1)] assms(2) look
    by (intro exI [of _ sd']) (auto split: option.splits)
qed

lemma remove_sid_get_witness:
  "\<exists>sd'. e2k_security_descriptor_remove_sid sample_heap (sample_sd [(sid_bin 1 1 [0], 0)]) 1 = Inr sd' \<and>
     e2k_security_descriptor_get_permissions sample_heap sd' 1 = Inr 0"
  using remove_sid_get [OF sample_sd_ok, of 1 "sid_bin 1 5 [1]"] sample_settled by (auto simp: settled_def)

text \<open>
  C17. Storing an entry refines storing its mask in the slot of the abstract map, and keeps the
  invariant: the binary search of the sorted array finds the entry or its place.
\<close>

theorem set_ace_refinement:
  assumes "sd_ok h sd" "ok_ace h sd a" "Sid a \<in> ordered_sids sd"
  shows "sd_ok h (set_ace h sd a) \<and>
    acl_map (set_ace h sd a) = (acl_map sd)(slot_of a := if Mask a = 0 then None else Some (Mask a))"
  using set_ace_refines [OF assms] by blast


lemma set_ace_refinement_witness:
  "acl_map (set_ace sample_heap ((sample_sd [(sid_bin 1 1 [0], 0)])\<lparr>sid_order := [(0, 1)]\<rparr>)
     (new_ace 20 0 0 object_flags 7)) (0, True, False) = Some 7"
proof -
  have "sd_ok sample_heap ((sample_sd [(sid_bin 1 1 [0], 0)])\<lparr>sid_order := [(0, 1)]\<rparr>)"
    by (simp add: sd_ok_def order_ok_def table_ok_def acl_ok_def acl.in_order_def ordered_sids_def sample_sd_def
        sid_bytes_def sample_heap_def e2k_sid_get_binary_sid_def sids.eq_refl)
  from set_ace_refinement [OF this, of "new_ace 20 0 0 object_flags 7"]
  show ?thesis
    by (simp add: new_ace_ok new_ace_slot ordered_sids_def sample_sd_def E2K_ACCESS_DENIED_ACE_TYPE_def)
qed

text \<open>
  Two users that the XML form names but no entry of the access control list mentions have no
  number, and share their entries: rights given to the second replace those of the first, and the
  second has none.
\<close>

lemma unnumbered_sids_share_entries:
  "(let sd = sample_sd [(sid_bin 1 1 [0], 0), (sid_bin 1 5 [1], 1), (sid_bin 1 5 [2], 2)] in
    ok_bind (e2k_security_descriptor_set_permissions sample_heap sd 1 0x401) (\<lambda>sd.
    ok_bind (e2k_security_descriptor_set_permissions sample_heap sd 2 0x4fb) (\<lambda>sd.
    ok_bind (e2k_security_descriptor_get_permissions sample_heap sd 1) (\<lambda>p1.
    ok_bind (e2k_security_descriptor_get_permissions sample_heap sd 2) (\<lambda>p2. Inr (p1, p2)))))) =
   Inr (0x4fb, 0)"
  by code_simp

lemma power_2_32: "(2 :: int) ^ 32 = 4294967296"
  by simp

lemma wrapped_difference:
  "m < k \<Longrightarrow> k < 65536 \<Longrightarrow> (int m - int k) mod 2 ^ 32 = int m - int k + 2 ^ 32"
  by (subst mod_add_self2 [symmetric], intro mod_pos_pos_trivial) auto

lemma remaining_wraps:
  assumes "length binsd < unat off" and that: "n \<le> 65536"
  shows "\<not> remaining binsd off < of_nat n"
proof -
  have o: "unat off < 65536" using unsigned_less [of off] by simp
  have "remaining binsd off = of_int (int (length binsd) - int (unat off))"
    by (simp add: remaining_def)
  then have "uint (remaining binsd off) = (int (length binsd) - int (unat off)) mod 2 ^ 32"
    by (simp only: unsigned_of_int) (simp add: take_bit_eq_mod)
  also have "\<dots> = int (length binsd) - int (unat off) + 2 ^ 32"
    using assms(1) o by (rule wrapped_difference)
  finally have "uint (remaining binsd off) = int (length binsd) - int (unat off) + 2 ^ 32" .
  then have "65536 \<le> uint (remaining binsd off)" using o power_2_32 by linarith
  moreover have "uint (of_nat n :: u32) = int n" using that by (intro uint_of_nat_u32) simp
  ultimately show ?thesis using that by (simp add: word_less_def)
qed

text \<open>
  An offset behind the end of the data is not rejected: the unsigned difference wraps around,
  both length tests pass, and the SID is read outside the buffer.
\<close>

theorem parse_sid_overread:
  assumes "length binsd < unat off"
  shows "parse_sid sd binsd off = Inl Undefined"
  using remaining_wraps [OF assms(1), of 8] assms by (simp add: parse_sid_def E2K_SID_BINARY_SID_MIN_LEN_def)

lemma parse_sid_overread_witness: "parse_sid (sample_sd []) [1, 2, 3, 4, 5, 6, 7, 8, 9, 10] 60000 = Inl Undefined"
  by (rule parse_sid_overread) simp


end
