(* ===== verification/Descriptor_Binary.thy ===== *)
theory Descriptor_Binary
  imports Permissions
begin

text \<open>
  The binary form of a security descriptor: what \<open>e2k_security_descriptor_to_binary\<close> writes is
  read back by the steps of \<open>e2k_security_descriptor_new\<close> that follow the XML form, for
  descriptors that keep the invariant and whose binary form has less than 65536 bytes.
\<close>

section \<open>Reading and writing one SID\<close>

definition whole_sid :: "byte list \<Rightarrow> bool" where
  "whole_sid b \<longleftrightarrow> 8 \<le> length b \<and> E2K_SID_BINARY_SID_LEN b = length b"

lemma remaining_nat:
  assumes "n \<le> length m" "length m < 65536"
  shows "remaining m (of_nat n) = of_nat (length m - n)"
proof -
  have u: "unat (of_nat n :: u16) = n" using assms by (simp add: unat_of_nat)
  have "(of_nat (unat (of_nat n :: u16)) :: u32) = ucast (of_nat n :: u16)" by (rule of_nat_unat)
  then have "(ucast (of_nat n :: u16) :: u32) = of_nat n" unfolding u by (rule sym)
  then show ?thesis using assms by (simp add: remaining_def of_nat_diff)
qed

lemma unat_u16_nat: "n < 65536 \<Longrightarrow> unat (of_nat n :: u16) = n"
  by (simp add: unat_of_nat)

lemma less_u32_nat: "m < 65536 \<Longrightarrow> n < 65536 \<Longrightarrow> (of_nat m :: u32) < of_nat n \<longleftrightarrow> m < n"
  by (simp add: word_less_nat_alt unat_of_nat_u32)

lemma whole_sid_equal:
  assumes "whole_sid b"
  shows "e2k_sid_binary_sid_equal (b @ r) b" "E2K_SID_BINARY_SID_LEN (b @ r) = length b"
proof -
  have "(b @ r) ! 1 = b ! 1" using assms by (simp add: whole_sid_def nth_append)
  then show "E2K_SID_BINARY_SID_LEN (b @ r) = length b"
    using assms by (simp add: whole_sid_def E2K_SID_BINARY_SID_LEN_def)
  then show "e2k_sid_binary_sid_equal (b @ r) b"
    using assms by (simp add: e2k_sid_binary_sid_equal_def whole_sid_def)
qed

lemma parse_sid_at:
  assumes b: "whole_sid b" and l: "lookup_sid sd b = Some p"
    and n: "length pre + length b + length post < 65536"
  shows "parse_sid sd (pre @ b @ post) (of_nat (length pre)) = Inr (p, of_nat (length pre + length b))"
proof -
  have r: "remaining (pre @ b @ post) (of_nat (length pre)) = of_nat (length b + length post)"
    using remaining_nat [of "length pre" "pre @ b @ post"] n by simp
  have "lookup_sid sd (b @ post) = Some p"
    using l unfolding lookup_sid_def sids.lookup_cong [OF whole_sid_equal(1) [OF b]] .
  then show ?thesis
    unfolding parse_sid_def r
    using n b whole_sid_equal(2) [OF b, of post]
    by (simp only: less_u32_nat E2K_SID_BINARY_SID_MIN_LEN_def) (simp add: unat_u16_nat whole_sid_def Let_def less_u32_nat
        flip: of_nat_add)
qed

lemma u16_at_append: "u16_at (pre @ xs) (length pre + k) = u16_at xs k"
  by (simp add: u16_at_def nth_append)

lemma u32_at_append: "u32_at (pre @ xs) (length pre + k) = u32_at xs k"
  by (simp add: u32_at_def nth_append)

lemma u16_at_le16: "u16_at (le16 v @ r) 0 = v"
  by (simp add: u16_at_def le16_alt)

lemma u32_at_le32: "u32_at (le32 v @ r) 0 = v"
  by (simp add: u32_at_def le32_alt numeral_2_eq_2 numeral_3_eq_3)

section \<open>The entries\<close>

definition ace_bytes :: "sid_heap \<Rightarrow> E2k_ACE \<Rightarrow> byte list" where
  "ace_bytes h a = ace_start a @ projr (sid_bytes h (Sid a))"

text \<open>What an entry needs to be read back.\<close>

definition wf_ace :: "sid_heap \<Rightarrow> E2kSecurityDescriptor \<Rightarrow> E2k_ACE \<Rightarrow> bool" where
  "wf_ace h sd a \<longleftrightarrow> (\<exists>b. sid_bytes h (Sid a) = Inr b \<and> whole_sid b \<and> lookup_sid sd b = Some (Sid a) \<and>
     AceSize a = of_nat (8 + length b)) \<and>
     has_flag E2K_OBJECT_INHERIT_ACE a = has_flag E2K_INHERIT_ONLY_ACE a"

definition add_ace :: "E2k_ACE \<Rightarrow> E2kSecurityDescriptor \<Rightarrow> E2kSecurityDescriptor" where
  "add_ace a sd = (let sd = (if order_of sd (Sid a) = 0 then append_order (Sid a) sd else sd)
     in sd\<lparr>aces := aces sd @ [a]\<rparr>)"

lemma add_ace_sids [simp]: "sids (add_ace a sd) = sids sd"
  by (simp add: add_ace_def Let_def append_order_def)

lemma wf_ace_add [simp]: "wf_ace h (add_ace b sd) a = wf_ace h sd a"
  by (simp add: wf_ace_def lookup_sid_def)

lemma ace_start_reads:
  "(ace_start a @ r) ! 0 = AceType a" "(ace_start a @ r) ! 1 = AceFlags a"
  "u16_at (ace_start a @ r) 2 = AceSize a" "u32_at (ace_start a @ r) 4 = Mask a" "length (ace_start a) = 8"
  by (simp_all add: ace_start_def u16_at_def u32_at_def le16_alt le32_alt)

lemma parse_aces_written:
  "\<forall>a \<in> set as. wf_ace h sd a \<Longrightarrow> length (pre @ concat (map (ace_bytes h) as) @ post) < 65536 \<Longrightarrow>
   parse_aces (length as) (pre @ concat (map (ace_bytes h) as) @ post) (of_nat (length pre)) sd = Inr (fold add_ace as sd)"
proof (induction as arbitrary: pre sd)
  case (Cons a as)
  let ?r = "concat (map (ace_bytes h) as) @ post"
  from Cons.prems obtain b where b: "sid_bytes h (Sid a) = Inr b" "whole_sid b" "lookup_sid sd b = Some (Sid a)"
    and fl: "has_flag E2K_OBJECT_INHERIT_ACE a = has_flag E2K_INHERIT_ONLY_ACE a"
    by (auto simp: wf_ace_def)
  have mem: "pre @ concat (map (ace_bytes h) (a # as)) @ post = pre @ ace_start a @ b @ ?r"
    by (simp add: ace_bytes_def b)
  have len: "length pre + (8 + (length b + length ?r)) < 65536"
    using Cons.prems(2) unfolding mem by (simp add: ace_start_reads(5))
  let ?m = "pre @ ace_start a @ b @ ?r"
  have rem: "remaining ?m (of_nat (length pre)) = of_nat (8 + (length b + length ?r))"
    using remaining_nat [of "length pre" ?m] len by (simp add: ace_start_reads(5))
  have n16: "\<not> (of_nat (8 + (length b + length ?r)) :: u32) < of_nat 16"
    using len b(2) by (simp only: less_u32_nat) (simp add: whole_sid_def)
  have sid: "parse_sid sd ?m (of_nat (length pre) + 8) = Inr (Sid a, of_nat (length (pre @ ace_start a @ b)))"
    using parse_sid_at [OF b(2,3), of "pre @ ace_start a" ?r] len by (simp add: ace_start_reads(5) add.commute)
  have rec: "parse_aces (length as) ?m (of_nat (length (pre @ ace_start a @ b))) (add_ace a sd) = Inr (fold add_ace as (add_ace a sd))"
    using Cons.IH [of "add_ace a sd" "pre @ ace_start a @ b"] Cons.prems(1) len by (simp add: ace_start_reads(5))
  have u: "unat (of_nat (length pre) :: u16) = length pre" using len by (simp add: unat_u16_nat)
  have at: "ace_at ?m (length pre) = a\<lparr>Sid := 0\<rparr>"
  proof -
    have z: "(pre @ X) ! length pre = X ! 0" for X :: "byte list" by (simp add: nth_append)
    show ?thesis
      using ace_start_reads(1-4) [of a "b @ ?r"]
      unfolding ace_at_def u16_at_append u32_at_append nth_append_length_plus z by simp
  qed
  define M where "M = ?m"
  have buf: "has_flag f (a\<lparr>Sid := 0\<rparr>) = has_flag f a" "a\<lparr>Sid := 0, Sid := Sid a\<rparr> = a" for f
    by (simp_all add: has_flag_def)
  have l: "\<not> length M < length pre + 8" by (simp add: M_def ace_start_reads(5))
  show ?case
    using n16 l fl sid [folded M_def] rec [folded M_def]
    unfolding mem M_def [symmetric] list.size(4) add_Suc_right add_0_right parse_aces.simps rem [folded M_def]
      struct_sizes u at [folded M_def]
    by (simp add: buf add_ace_def [of a sd] Let_def)
qed simp


section \<open>The whole descriptor\<close>

definition live :: "E2k_ACE list \<Rightarrow> E2k_ACE list" where
  "live as = filter (\<lambda>a. Mask a \<noteq> 0) as"

definition wf_sid :: "sid_heap \<Rightarrow> E2kSecurityDescriptor \<Rightarrow> sid_ptr \<Rightarrow> bool" where
  "wf_sid h sd p \<longleftrightarrow> (\<exists>b. sid_bytes h p = Inr b \<and> whole_sid b \<and> lookup_sid sd b = Some p)"

definition total_size :: "sid_heap \<Rightarrow> E2kSecurityDescriptor \<Rightarrow> nat" where
  "total_size h sd = length (header sd) + 28 + length (concat (map (ace_bytes h) (live (aces sd)))) +
     length (projr (sid_bytes h (owner sd))) + length (projr (sid_bytes h (group sd)))"

definition writable :: "sid_heap \<Rightarrow> E2kSecurityDescriptor \<Rightarrow> bool" where
  "writable h sd \<longleftrightarrow>
     2 \<le> length (header sd) \<and> take 2 (header sd) = le16 (of_nat (length (header sd))) \<and>
     control_flags sd AND (E2K_SE_DACL_PRESENT OR E2K_SE_SACL_PRESENT) = E2K_SE_DACL_PRESENT \<and>
     (\<forall>a \<in> set (live (aces sd)). wf_ace h sd a) \<and> wf_sid h sd (owner sd) \<and> wf_sid h sd (group sd) \<and>
     total_size h sd < 65536"

lemma if_range: "x \<in> S \<Longrightarrow> y \<in> S \<Longrightarrow> (if b then x else y) \<in> S"
  by simp

lemma ace_compar_range: "ace_compar h sd a b \<in> {- 1, 0, 1}"
  unfolding ace_compar_def Let_def by (intro if_range) simp_all

lemma write_aces_sorted:
  "acl.in_order h sd (live as) \<Longrightarrow> \<forall>a \<in> set (live as). wf_ace h sd a \<Longrightarrow>
   (\<forall>l. last_ace = Some l \<longrightarrow> ok_ace h sd l \<and> (\<forall>a \<in> set (live as). ace_key h sd l < ace_key h sd a)) \<Longrightarrow>
   write_aces h sd last_ace as binsd = Inr (binsd @ concat (map (ace_bytes h) (live as)))"
proof (induction as arbitrary: last_ace binsd)
  case (Cons a as)
  show ?case
  proof (cases "Mask a = 0")
    case True
    then show ?thesis using Cons by (simp add: live_def)
  next
    case False
    then have l: "live (a # as) = a # live as" by (simp add: live_def)
    from Cons.prems(1) have io: "ok_ace h sd a" "acl.in_order h sd (live as)"
      "\<forall>y \<in> set (live as). ace_key h sd a < ace_key h sd y" unfolding l in_order_Cons by auto
    from Cons.prems(2) obtain b where b: "sid_bytes h (Sid a) = Inr b" "whole_sid b" by (auto simp: l wf_ace_def)
    have e: "ace_bytes h a = ace_start a @ b" by (simp add: ace_bytes_def b)
    have "ace_compar h sd l a = - 1" if "last_ace = Some l" for l
    proof -
      have "ace_compar h sd l a < 0" using acl.less [of h sd l a] that Cons.prems(3) io l by auto
      then show ?thesis using ace_compar_range [of h sd l a] by auto
    qed
    moreover have "sid_data_of h (Sid a) = Inr b" using b by (simp add: sid_data_of_def whole_sid_def)
    moreover have "write_aces h sd (Some a) as (binsd @ ace_start a @ b) =
      Inr ((binsd @ ace_start a @ b) @ concat (map (ace_bytes h) (live as)))"
      by (rule Cons.IH) (use Cons.prems l io in auto)
    ultimately show ?thesis using False e by (auto simp: l split: option.split)
  qed
qed (simp add: live_def)

lemma in_order_live: "acl.in_order h sd as \<Longrightarrow> acl.in_order h sd (live as)"
  by (auto simp: acl.in_order_def live_def list_all_iff sorted_wrt_filter)

lemma acl_size_live:
  "\<forall>a \<in> set (live as). wf_ace h sd a \<Longrightarrow> length (concat (map (ace_bytes h) (live as))) < 65536 \<Longrightarrow>
   acl_size_of as = 8 + length (concat (map (ace_bytes h) (live as)))"
proof (induction as)
  case (Cons a as)
  show ?case
  proof (cases "Mask a = 0")
    case False
    then have l: "live (a # as) = a # live as" by (simp add: live_def)
    with Cons.prems(1) obtain b where b: "sid_bytes h (Sid a) = Inr b" "AceSize a = of_nat (8 + length b)"
      by (auto simp: wf_ace_def)
    then have "length (ace_bytes h a) = 8 + length b" by (simp add: ace_bytes_def ace_start_reads(5))
    moreover from this have "unat (AceSize a) = 8 + length b"
      using Cons.prems(2) unfolding b(2) by (intro unat_u16_nat) (simp add: l)
    ultimately show ?thesis using Cons False by (simp add: l acl_size_of_def)
  qed (use Cons in \<open>simp add: live_def acl_size_of_def\<close>)
qed (simp add: live_def acl_size_of_def sizeof_ACL_def)


lemma fold_add_ace:
  "aces (fold add_ace as sd) = aces sd @ as" "sids (fold add_ace as sd) = sids sd"
  "owner (fold add_ace as sd) = owner sd" "group (fold add_ace as sd) = group sd"
  "default_sid (fold add_ace as sd) = default_sid sd" "header (fold add_ace as sd) = header sd"
  "control_flags (fold add_ace as sd) = control_flags sd"
  by (induction as arbitrary: sd) (simp_all add: add_ace_def Let_def append_order_def)

lemma collect_live: "collect p (live as) x = collect p as x"
proof -
  have "mapi_of_ace a = 0" if "Mask a = 0" for a using that by (simp add: mapi_of_ace_bits)
  then show ?thesis by (induction as arbitrary: x) (auto simp: collect_def live_def)
qed

lemma rel_offset_nat: "n + k < 65536 \<Longrightarrow> rel_offset (of_nat n) k = of_nat (k + n)"
proof -
  assume a: "n + k < 65536"
  have "(of_nat n + of_nat k :: u32) = of_nat (k + n)" by simp
  moreover have "(ucast (of_nat (k + n) :: u32) :: u16) = of_nat (k + n)"
  proof -
    have "(ucast (of_nat (k + n) :: u32) :: u16) = of_nat (unat (of_nat (k + n) :: u32))" by (rule of_nat_unat [symmetric])
    also have "unat (of_nat (k + n) :: u32) = k + n" using a by (intro unat_of_nat_u32) simp
    finally show ?thesis .
  qed
  ultimately show ?thesis by (simp only: rel_offset_def)
qed

definition sd_bytes :: "u16 \<Rightarrow> nat \<Rightarrow> nat \<Rightarrow> byte list" where
  "sd_bytes control owner_off group_off =
     [E2K_SECURITY_DESCRIPTOR_REVISION, 0] @ le16 control @ le32 (of_nat owner_off) @ le32 (of_nat group_off) @
     le32 0 @ le32 (of_nat 20)"

definition acl_bytes :: "nat \<Rightarrow> nat \<Rightarrow> byte list" where
  "acl_bytes sz n = [E2K_ACL_REVISION, 0] @ le16 (of_nat sz) @ le16 (of_nat n) @ le16 0"

lemma sd_bytes_reads:
  "length (sd_bytes c o' g) = 20" "(sd_bytes c o' g @ r) ! 0 = E2K_SECURITY_DESCRIPTOR_REVISION"
  "u16_at (sd_bytes c o' g @ r) 2 = c" "u32_at (sd_bytes c o' g @ r) 4 = of_nat o'"
  "u32_at (sd_bytes c o' g @ r) 8 = of_nat g" "u32_at (sd_bytes c o' g @ r) 16 = of_nat 20"
  by (simp_all add: sd_bytes_def u16_at_def u32_at_def le16_alt le32_alt del: of_nat_numeral)

lemma acl_bytes_reads:
  "length (acl_bytes s n) = 8" "(acl_bytes s n @ r) ! 0 = E2K_ACL_REVISION"
  "u16_at (acl_bytes s n @ r) 2 = of_nat s" "u16_at (acl_bytes s n @ r) 4 = of_nat n"
  by (simp_all add: acl_bytes_def u16_at_def le16_alt)

text \<open>The layout of the written descriptor.\<close>

definition sd_image :: "sid_heap \<Rightarrow> E2kSecurityDescriptor \<Rightarrow> byte list \<Rightarrow> byte list \<Rightarrow> byte list" where
  "sd_image h sd ob gb = (let es = concat (map (ace_bytes h) (live (aces sd))) in
     header sd @ sd_bytes (control_flags sd) (28 + length es) (28 + length es + length ob) @
     acl_bytes (8 + length es) (length (live (aces sd))) @ es @ ob @ gb)"

lemma to_binary_image:
  assumes sd: "sd_ok h sd" and w: "writable h sd"
    and ob: "sid_bytes h (owner sd) = Inr ob" "whole_sid ob" and gb: "sid_bytes h (group sd) = Inr gb" "whole_sid gb"
  shows "e2k_security_descriptor_to_binary h sd = Inr (sd_image h sd ob gb)"
proof -
  let ?es = "concat (map (ace_bytes h) (live (aces sd)))"
  have wf: "\<forall>a \<in> set (live (aces sd)). wf_ace h sd a" and sz: "length ?es < 65536"
    using w by (simp_all add: writable_def total_size_def)
  have "sid_data_of h (owner sd) = Inr ob" "sid_data_of h (group sd) = Inr gb"
    using ob gb by (simp_all add: sid_data_of_def whole_sid_def)
  moreover have "acl.in_order h sd (live (aces sd))"
    using sd by (intro in_order_live) (simp add: sd_ok_def acl_ok_def)
  then have "write_aces h sd None (aces sd) ba = Inr (ba @ ?es)" for ba
    by (intro write_aces_sorted wf) auto
  moreover have "acl_size_of (aces sd) = 8 + length ?es" by (rule acl_size_live [OF wf sz])
  moreover have "ace_count_of (aces sd) = length (live (aces sd))" by (simp add: ace_count_of_def live_def)
  ultimately show ?thesis
    by (simp add: e2k_security_descriptor_to_binary_def sd_image_def Let_def sd_bytes_def acl_bytes_def struct_sizes add_ac
        del: of_nat_add)
qed

lemma parse_header_image:
  assumes w: "writable h sd"
  shows "parse_header (sd_image h sd ob gb) = Inr (length (header sd),
    \<lparr>Control = control_flags sd, Owner = of_nat (28 + length (concat (map (ace_bytes h) (live (aces sd))))),
     Group = of_nat (28 + length (concat (map (ace_bytes h) (live (aces sd)))) + length ob), Dacl = of_nat 20\<rparr>)"
proof -
  let ?hd = "header sd"
  have hl: "2 \<le> length ?hd" "length ?hd < 65536" "take 2 ?hd = le16 (of_nat (length ?hd))"
    using w by (simp_all add: writable_def total_size_def)
  obtain a b r where hd: "?hd = a # b # r" using hl(1) by (cases "?hd"; cases "tl ?hd") auto
  have u: "unat (u16_at (?hd @ x) 0) = length ?hd" for x
  proof -
    have "u16_at (?hd @ x) 0 = of_nat (length ?hd)" using hl(3) unfolding hd by (simp add: u16_at_def le16_alt)
    then show ?thesis using hl by (simp add: unat_u16_nat)
  qed
  let ?es = "concat (map (ace_bytes h) (live (aces sd)))"
  let ?s = "sd_bytes (control_flags sd) (28 + length ?es) (28 + length ?es + length ob)"
  let ?r = "acl_bytes (8 + length ?es) (length (live (aces sd))) @ ?es @ ob @ gb"
  have im: "sd_image h sd ob gb = ?hd @ ?s @ ?r" by (simp add: sd_image_def Let_def)
  define M where "M = ?hd @ ?s @ ?r"
  have z: "M ! length ?hd = E2K_SECURITY_DESCRIPTOR_REVISION"
    unfolding M_def using sd_bytes_reads(2) nth_append_length_plus [of ?hd "?s @ ?r" 0] by (simp only: add_0_right)
  have at: "u16_at M (length ?hd + 2) = control_flags sd" "u32_at M (length ?hd + 4) = of_nat (28 + length ?es)"
    "u32_at M (length ?hd + 8) = of_nat (28 + length ?es + length ob)" "u32_at M (length ?hd + 16) = of_nat 20"
    unfolding M_def u16_at_append u32_at_append sd_bytes_reads by (rule refl)+
  have l: "\<not> length M < 2" "\<not> length ?hd + 20 > length M" using hl by (simp_all add: M_def sd_bytes_reads(1))
  have um: "unat (u16_at M 0) = length ?hd" unfolding M_def by (rule u)
  have c: "control_flags sd AND (E2K_SE_DACL_PRESENT OR E2K_SE_SACL_PRESENT) = E2K_SE_DACL_PRESENT"
    using w by (simp add: writable_def)
  show ?thesis
    unfolding im M_def [symmetric] parse_header_def um Let_def z at struct_sizes c using l by simp
qed

lemma parse_acl_image:
  assumes w: "\<forall>a \<in> set as. wf_ace h s a"
    and n: "length pre + 8 + length (concat (map (ace_bytes h) as)) + length post < 65536"
  shows "parse_acl s (pre @ acl_bytes (8 + length (concat (map (ace_bytes h) as))) (length as) @
      concat (map (ace_bytes h) as) @ post) (of_nat (length pre)) = Inr (fold add_ace as s)"
proof -
  let ?es = "concat (map (ace_bytes h) as)"
  let ?a = "acl_bytes (8 + length ?es) (length as)"
  define M where "M = pre @ ?a @ ?es @ post"
  have rem: "remaining M (of_nat (length pre)) = of_nat (8 + (length ?es + length post))"
    using remaining_nat [of "length pre" M] n by (simp add: M_def acl_bytes_reads(1))
  have ge: "\<not> (of_nat (8 + (length ?es + length post)) :: u32) < of_nat 8"
    using n by (simp only: less_u32_nat)
  have cnt: "length as \<le> length ?es" using w by (induction as) (auto simp: ace_bytes_def ace_start_reads(5))
  have u: "unat (of_nat (length pre) :: u16) = length pre" "unat (of_nat (8 + length ?es) :: u16) = 8 + length ?es"
    "unat (of_nat (length as) :: u16) = length as"
    using n cnt by (intro unat_u16_nat, linarith)+
  have at: "M ! length pre = E2K_ACL_REVISION" "u16_at M (length pre + 2) = of_nat (8 + length ?es)"
    "u16_at M (length pre + 4) = of_nat (length as)"
    using nth_append_length_plus [of pre "?a @ ?es @ post" 0] acl_bytes_reads(2)
    unfolding M_def u16_at_append acl_bytes_reads by (simp_all only: add_0_right)
  have l: "\<not> length M < length pre + 8" "\<not> length pre + (8 + length ?es) > length M"
    by (simp_all add: M_def acl_bytes_reads(1))
  have "parse_aces (length as) M (of_nat (length pre) + of_nat 8) s = Inr (fold add_ace as s)"
    using parse_aces_written [OF w, of "pre @ ?a" post] n by (simp add: M_def acl_bytes_reads(1))
  then show ?thesis
    unfolding M_def [symmetric] parse_acl_def rem struct_sizes Let_def at u using ge l by simp
qed

definition sample_full :: E2kSecurityDescriptor where
  "sample_full = (sample_sd [(sid_bin 1 1 [0], 0)])\<lparr>sid_order := [(0, 1)], aces := [new_ace 20 0 0 object_flags 7]\<rparr>"

lemma sample_full_ok: "sd_ok sample_heap sample_full"
  by (simp add: sd_ok_def order_ok_def table_ok_def acl_ok_def acl.in_order_def ordered_sids_def sample_sd_def sample_full_def
      sid_bytes_def sample_heap_def e2k_sid_get_binary_sid_def sids.eq_refl new_ace_ok)

lemma sample_full_writable: "writable sample_heap sample_full"
proof -
  have s: "sid_bytes sample_heap 0 = Inr (sid_bin 1 1 [0])"
    by (simp add: sid_bytes_def sample_heap_def e2k_sid_get_binary_sid_def)
  have w: "whole_sid (sid_bin 1 1 [0])" by (simp add: whole_sid_def sid_len_bin length_sid_bin)
  have l: "lookup_sid sample_full (sid_bin 1 1 [0]) = Some 0"
    by (simp add: lookup_sid_def sample_full_def sample_sd_def hash_lookup_Cons sids.match_eq sids.eq_refl)
  have f: "has_flag E2K_OBJECT_INHERIT_ACE (new_ace 20 0 0 object_flags 7) = has_flag E2K_INHERIT_ONLY_ACE (new_ace 20 0 0 object_flags 7)"
    by (simp add: has_flag_def new_ace_def object_flags_def E2K_OBJECT_INHERIT_ACE_def E2K_INHERIT_ONLY_ACE_def)
  have as: "live (aces sample_full) = [new_ace 20 0 0 object_flags 7]" by (simp add: live_def sample_full_def)
  have fields: "owner sample_full = 0" "group sample_full = 0" "header sample_full = [2, 0]" "control_flags sample_full = 4"
    by (simp_all add: sample_full_def sample_sd_def)
  have wa: "wf_ace sample_heap sample_full (new_ace 20 0 0 object_flags 7)"
    using s w l f by (simp add: wf_ace_def length_sid_bin) (simp add: new_ace_def)
  have ws: "wf_sid sample_heap sample_full 0" using s w l by (simp add: wf_sid_def)
  show ?thesis
    unfolding writable_def total_size_def as fields using wa ws s
    by (simp add: le16_alt E2K_SE_DACL_PRESENT_def E2K_SE_SACL_PRESENT_def ace_bytes_def ace_start_reads(5) length_sid_bin)
qed

text \<open>
  C11. A descriptor that keeps the invariant is written without an order mismatch, and reading the
  bytes gives its header, flags, owner, group and entries, those with an empty mask left out; the
  permissions of every SID are the same.
\<close>

theorem descriptor_roundtrip:
  assumes sd: "sd_ok h sd" and w: "writable h sd"
  shows "\<exists>bin rel sd'. e2k_security_descriptor_to_binary h sd = Inr bin \<and>
    parse_header bin = Inr (length (header sd), rel) \<and> take (length (header sd)) bin = header sd \<and>
    Control rel = control_flags sd \<and>
    parse_parts bin (length (header sd)) rel (sd\<lparr>aces := [], sid_order := []\<rparr>) = Inr sd' \<and>
    aces sd' = filter (\<lambda>a. Mask a \<noteq> 0) (aces sd) \<and> owner sd' = owner sd \<and> group sd' = group sd \<and>
    (\<forall>p. e2k_security_descriptor_get_permissions h sd' p = e2k_security_descriptor_get_permissions h sd p)"
proof -
  from w obtain ob gb where ob: "sid_bytes h (owner sd) = Inr ob" "whole_sid ob" "lookup_sid sd ob = Some (owner sd)"
    and gb: "sid_bytes h (group sd) = Inr gb" "whole_sid gb" "lookup_sid sd gb = Some (group sd)"
    by (auto simp: writable_def wf_sid_def)
  let ?as = "live (aces sd)" and ?hd = "header sd"
  let ?es = "concat (map (ace_bytes h) ?as)"
  let ?s = "sd_bytes (control_flags sd) (28 + length ?es) (28 + length ?es + length ob)"
  let ?a = "acl_bytes (8 + length ?es) (length ?as)"
  have sz: "length ?hd + 28 + length ?es + length ob + length gb < 65536"
    using w by (simp add: writable_def total_size_def ob gb)
  have bin: "e2k_security_descriptor_to_binary h sd = Inr (sd_image h sd ob gb)"
    by (rule to_binary_image [OF sd w ob(1,2) gb(1,2)])
  let ?sd0 = "sd\<lparr>aces := [], sid_order := []\<rparr>"
  let ?sd1 = "?sd0\<lparr>owner := owner sd, group := group sd\<rparr>"
  have im: "sd_image h sd ob gb = (?hd @ ?s @ ?a @ ?es) @ ob @ gb"
    "sd_image h sd ob gb = (?hd @ ?s @ ?a @ ?es @ ob) @ gb @ []"
    "sd_image h sd ob gb = (?hd @ ?s) @ ?a @ ?es @ (ob @ gb)"
    by (simp_all add: sd_image_def Let_def)
  have ls: "lookup_sid ?sd0 ob = Some (owner sd)" "lookup_sid ?sd0 gb = Some (group sd)"
    using ob gb by (simp_all add: lookup_sid_def)
  have po: "parse_sid ?sd0 (sd_image h sd ob gb) (of_nat (length ?hd + (28 + length ?es))) =
      Inr (owner sd, of_nat (length ?hd + 28 + length ?es + length ob))"
    using parse_sid_at [OF ob(2) ls(1), of "?hd @ ?s @ ?a @ ?es" gb] sz unfolding im(1)
    by (simp add: sd_bytes_reads(1) acl_bytes_reads(1) add_ac)
  have pg: "parse_sid ?sd0 (sd_image h sd ob gb) (of_nat (length ?hd + (28 + length ?es + length ob))) =
      Inr (group sd, of_nat (length ?hd + 28 + length ?es + length ob + length gb))"
    using parse_sid_at [OF gb(2) ls(2), of "?hd @ ?s @ ?a @ ?es @ ob" "[]"] sz unfolding im(2)
    by (simp add: sd_bytes_reads(1) acl_bytes_reads(1) add_ac)
  have pa: "parse_acl ?sd1 (sd_image h sd ob gb) (of_nat (length ?hd + 20)) = Inr (fold add_ace ?as ?sd1)"
  proof -
    have "\<forall>a \<in> set ?as. wf_ace h ?sd1 a" using w by (simp add: writable_def wf_ace_def lookup_sid_def)
    from parse_acl_image [OF this, of "?hd @ ?s" "ob @ gb"] show ?thesis
      using sz unfolding im(3) by (simp add: sd_bytes_reads(1))
  qed
  have ro: "rel_offset (of_nat (28 + length ?es)) (length ?hd) = of_nat (length ?hd + (28 + length ?es))"
    "rel_offset (of_nat (28 + length ?es + length ob)) (length ?hd) = of_nat (length ?hd + (28 + length ?es + length ob))"
    "rel_offset (of_nat 20) (length ?hd) = of_nat (length ?hd + 20)"
    using sz by (intro rel_offset_nat, linarith)+
  let ?rel = "\<lparr>Control = control_flags sd, Owner = of_nat (28 + length ?es),
     Group = of_nat (28 + length ?es + length ob), Dacl = of_nat 20\<rparr>"
  have pp: "parse_parts (sd_image h sd ob gb) (length ?hd) ?rel ?sd0 = Inr (fold add_ace ?as ?sd1)"
    unfolding parse_parts_def sd_relative.simps ro po pg by (simp only: ok_bind_Inr prod.case pa)
  have "e2k_security_descriptor_get_permissions h (fold add_ace ?as ?sd1) p =
      e2k_security_descriptor_get_permissions h sd p" for p
  proof -
    have "lookup_sid (fold add_ace ?as ?sd1) = lookup_sid sd" by (rule ext) (simp add: lookup_sid_def fold_add_ace(2))
    moreover have "aces (fold add_ace ?as ?sd1) = ?as" by (simp add: fold_add_ace(1))
    ultimately show ?thesis
      unfolding e2k_security_descriptor_get_permissions_def canonical_def collect_def [symmetric]
      by (simp only: collect_live)
  qed
  then show ?thesis
    using bin pp parse_header_image [OF w, of ob gb]
    by (intro exI [of _ "sd_image h sd ob gb"] exI [of _ ?rel] exI [of _ "fold add_ace ?as ?sd1"])
      (simp add: fold_add_ace live_def [symmetric], simp add: sd_image_def Let_def)
qed



lemma descriptor_roundtrip_witness:
  "\<exists>bin rel sd'. e2k_security_descriptor_to_binary sample_heap sample_full = Inr bin \<and> parse_header bin = Inr (2, rel) \<and>
     parse_parts bin 2 rel (sample_full\<lparr>aces := [], sid_order := []\<rparr>) = Inr sd' \<and> aces sd' = [new_ace 20 0 0 object_flags 7]"
proof -
  have h: "header sample_full = [2, 0]" "filter (\<lambda>a. Mask a \<noteq> 0) (aces sample_full) = [new_ace 20 0 0 object_flags 7]"
    by (simp_all add: sample_full_def sample_sd_def)
  then have n: "length (header sample_full) = 2" by simp
  show ?thesis using descriptor_roundtrip [OF sample_full_ok sample_full_writable, unfolded n, unfolded h] by blast
qed

end
