(* ===== verification/Freebusy.thy ===== *)
theory Freebusy
  imports Times Uri
begin

text \<open>
  Free/busy information (server/lib/e2k-freebusy.c): four lists of intervals, how published data is
  turned into them, how intervals are added and cleared, and how they are written. A \<open>time_t\<close> is
  an integer; \<open>e_mktime_utc\<close>, \<open>mktime\<close> and the results of server requests are arguments.
\<close>

section \<open>State\<close>

type_synonym E2kFreebusyEvent = "int \<times> int"

definition E2K_BUSYSTATUS_FREE :: nat where "E2K_BUSYSTATUS_FREE = 0"
definition E2K_BUSYSTATUS_TENTATIVE :: nat where "E2K_BUSYSTATUS_TENTATIVE = 1"
definition E2K_BUSYSTATUS_BUSY :: nat where "E2K_BUSYSTATUS_BUSY = 2"
definition E2K_BUSYSTATUS_OOF :: nat where "E2K_BUSYSTATUS_OOF = 3"
definition E2K_BUSYSTATUS_ALL :: nat where "E2K_BUSYSTATUS_ALL = 0"

lemmas busystatus = E2K_BUSYSTATUS_FREE_def E2K_BUSYSTATUS_TENTATIVE_def E2K_BUSYSTATUS_BUSY_def
  E2K_BUSYSTATUS_OOF_def E2K_BUSYSTATUS_ALL_def

record E2kFreebusy =
  fb_dn :: string
  fb_start :: int
  fb_end :: int
  fb_events :: "E2kFreebusyEvent list list"

section \<open>The URI of the data\<close>

text \<open>The index of the first \<open>/cn=\<close>, in any case, of a distinguished name.\<close>

fun first_cn :: "string \<Rightarrow> nat option" where
  "first_cn [] = None"
| "first_cn (c # s) =
     (if c = CHR ''/'' \<and> map tolower (take 4 (c # s)) = ''/cn='' then Some 0 else map_option Suc (first_cn s))"

definition fb_uri_for_dn :: "string \<Rightarrow> string \<Rightarrow> string option" where
  "fb_uri_for_dn public_uri dn = (case first_cn dn of
     None \<Rightarrow> None
   | Some div' \<Rightarrow>
       (let org = take div' dn;
            str = public_uri @ ''/NON_IPM_SUBTREE/SCHEDULE%2B%20FREE%20BUSY/EX:'';
            str = e2k_uri_append_encoded str org True None;
            str = str @ ''/USER-'';
            str = e2k_uri_append_encoded str (drop div' dn) True None
        in Some (str @ ''.EML'')))"

lemma first_cn_split:
  "first_cn dn = Some i \<Longrightarrow> dn = take i dn @ drop i dn \<and> map tolower (take 4 (drop i dn)) = ''/cn=''"
  by (induction dn arbitrary: i) (auto split: if_splits)

text \<open>Both parts of the name are single path segments: the URI has no slash of theirs.\<close>

lemma fb_uri_segments:
  assumes "fb_uri_for_dn public_uri dn = Some uri"
  shows "\<exists>org user. CHR ''/'' \<notin> set org \<and> CHR ''/'' \<notin> set user \<and>
    uri = public_uri @ ''/NON_IPM_SUBTREE/SCHEDULE%2B%20FREE%20BUSY/EX:'' @ org @ ''/USER-'' @ user @ ''.EML''"
proof -
  obtain i where i: "first_cn dn = Some i"
    using assms by (auto simp: fb_uri_for_dn_def split: option.splits)
  show ?thesis
    using assms encode_classes(1) [of _ True None]
    by (intro exI [of _ "e2k_uri_encode (take i dn) True None"] exI [of _ "e2k_uri_encode (drop i dn) True None"])
      (auto simp: fb_uri_for_dn_def i Let_def append_encoded_eq e2k_uri_encode_def)
qed

section \<open>Published data\<close>

text \<open>
  \<open>evt\<close> is the copy of the last event that was kept; an event that overlaps it is removed from
  the array and its end goes into the copy.
\<close>

fun merge_loop :: "E2kFreebusyEvent \<Rightarrow> E2kFreebusyEvent list \<Rightarrow> E2kFreebusyEvent list" where
  "merge_loop evt [] = []"
| "merge_loop evt (evt2 # es) =
     (if snd evt \<ge> fst evt2 then merge_loop (if snd evt2 > snd evt then (fst evt, snd evt2) else evt) es
      else evt2 # merge_loop evt2 es)"

definition merge_events :: "E2kFreebusyEvent list \<Rightarrow> E2kFreebusyEvent list" where
  "merge_events events = (case events of [] \<Rightarrow> [] | e # es \<Rightarrow> if es = [] then events else e # merge_loop e es)"

text \<open>
  \<open>e_mktime_utc\<close> gives the time and the normalised structure, which the code goes on to use: only
  the day, the hour and the minute are set again for the next call.
\<close>

definition at_minute :: "tm \<Rightarrow> byte \<Rightarrow> byte \<Rightarrow> tm" where
  "at_minute tm lo hi = tm\<lparr>tm_mday := 1, tm_hour := 0, tm_min := int (unat lo) + int (unat hi) * 256\<rparr>"

text \<open>The inner loop: four bytes an event.\<close>

fun month_events :: "(tm \<Rightarrow> int \<times> tm) \<Rightarrow> tm \<Rightarrow> byte list \<Rightarrow> E2kFreebusyEvent list \<times> tm" where
  "month_events e_mktime_utc tm (a # b # c # d # p) =
     (let (start, tm) = e_mktime_utc (at_minute tm a b);
          (end', tm) = e_mktime_utc (at_minute tm c d);
          (es, tm) = month_events e_mktime_utc tm p
      in ((start, end') # es, tm))"
| "month_events e_mktime_utc tm _ = ([], tm)"

fun all_months :: "(tm \<Rightarrow> int \<times> tm) \<Rightarrow> tm \<Rightarrow> (string \<times> byte list) list \<Rightarrow> E2kFreebusyEvent list" where
  "all_months e_mktime_utc tm [] = []"
| "all_months e_mktime_utc tm ((my, d) # r) =
     (let monthyear = atoi my;
          (es, tm) = month_events e_mktime_utc (tm\<lparr>tm_year := monthyear div 16 - 1900, tm_mon := monthyear mod 16 - 1\<rparr>) d
      in es @ all_months e_mktime_utc tm r)"

definition zero_tm :: tm where
  "zero_tm = \<lparr>tm_year = 0, tm_mon = 0, tm_mday = 0, tm_hour = 0, tm_min = 0, tm_sec = 0\<rparr>"

definition add_data_for_status ::
  "(tm \<Rightarrow> int \<times> tm) \<Rightarrow> string list option \<Rightarrow> byte list list option \<Rightarrow> E2kFreebusyEvent list \<Rightarrow> E2kFreebusyEvent list" where
  "add_data_for_status e_mktime_utc monthyears fbdatas events = (case (monthyears, fbdatas) of
     (Some mys, Some ds) \<Rightarrow>
       merge_events (events @ all_months e_mktime_utc zero_tm (zip mys ds))
   | _ \<Rightarrow> events)"

text \<open>The properties of the published item, by status.\<close>

record published =
  p_start :: "string option"
  p_end :: "string option"
  p_months :: "nat \<Rightarrow> string list option"
  p_events :: "nat \<Rightarrow> byte list list option"

definition range_time :: "string option \<Rightarrow> int" where
  "range_time time = (case time of None \<Rightarrow> 0 | Some s \<Rightarrow> e2k_systime_to_time_t (of_int (strtol s)))"

text \<open>\<open>e2k_freebusy_new\<close> after the request; no result is a null pointer.\<close>

definition e2k_freebusy_new :: "(tm \<Rightarrow> int \<times> tm) \<Rightarrow> string \<Rightarrow> published option \<Rightarrow> E2kFreebusy option" where
  "e2k_freebusy_new e_mktime_utc dn results = (case results of
     None \<Rightarrow> None
   | Some r \<Rightarrow> Some \<lparr>fb_dn = dn, fb_start = range_time (p_start r), fb_end = range_time (p_end r),
       fb_events = map (\<lambda>s. add_data_for_status e_mktime_utc (p_months r s) (p_events r s) [])
         [E2K_BUSYSTATUS_ALL, E2K_BUSYSTATUS_TENTATIVE, E2K_BUSYSTATUS_BUSY, E2K_BUSYSTATUS_OOF]\<rparr>)"

section \<open>Changing intervals\<close>

definition e2k_freebusy_reset :: "(tm \<Rightarrow> int) \<Rightarrow> int \<Rightarrow> E2kFreebusy \<Rightarrow> int \<Rightarrow> E2kFreebusy" where
  "e2k_freebusy_reset mktime now fb nmonths =
     (let tm = (gmtime now)\<lparr>tm_mday := 1, tm_hour := 0, tm_min := 0, tm_sec := 0\<rparr>
      in fb\<lparr>fb_events := map (\<lambda>_. []) (fb_events fb), fb_start := mktime tm,
            fb_end := mktime (tm\<lparr>tm_mon := tm_mon tm + nmonths\<rparr>)\<rparr>)"

text \<open>The search for the first event that does not end before \<open>start\<close>, and what happens there.\<close>

fun add_event :: "E2kFreebusyEvent list \<Rightarrow> int \<Rightarrow> int \<Rightarrow> E2kFreebusyEvent list" where
  "add_event [] start end' = [(start, end')]"
| "add_event (e # es) start end' =
     (if snd e \<ge> start then
        (if fst e > end' then (start, end') # e # es
         else (min (fst e) start, max (snd e) end') # es)
      else e # add_event es start end')"

definition e2k_freebusy_add_interval :: "E2kFreebusy \<Rightarrow> nat \<Rightarrow> int \<Rightarrow> int \<Rightarrow> E2kFreebusy" where
  "e2k_freebusy_add_interval fb busystatus start end' =
     (if busystatus = E2K_BUSYSTATUS_FREE then fb
      else let start = (if start < fb_start fb then fb_start fb else start);
               end' = (if end' > fb_end fb then fb_end fb else end')
           in if end' \<le> start then fb
              else fb\<lparr>fb_events := (fb_events fb)[busystatus := add_event (fb_events fb ! busystatus) start end']\<rparr>)"

fun clear_events :: "E2kFreebusyEvent list \<Rightarrow> int \<Rightarrow> int \<Rightarrow> E2kFreebusyEvent list" where
  "clear_events [] start end' = []"
| "clear_events ((s, e) # es) start end' =
     (if e < start \<or> s > end' then (s, e) # clear_events es start end'
      else let s' = (if s > start then end' else s);
               e' = (if e < end' then start else e)
           in if s' \<ge> e' then clear_events es start end' else (s', e') # clear_events es start end')"

definition e2k_freebusy_clear_interval :: "E2kFreebusy \<Rightarrow> int \<Rightarrow> int \<Rightarrow> E2kFreebusy" where
  "e2k_freebusy_clear_interval fb start end' =
     fb\<lparr>fb_events := map (\<lambda>es. clear_events es start end') (fb_events fb)\<rparr>"

definition status_of :: "string \<Rightarrow> nat" where
  "status_of b = (if b = ''TENTATIVE'' then E2K_BUSYSTATUS_TENTATIVE
     else if b = ''OUTOFOFFICE'' then E2K_BUSYSTATUS_OOF else E2K_BUSYSTATUS_BUSY)"

text \<open>One appointment of the calendar: start, end and status, each of which can be missing.\<close>

definition add_appointment ::
  "(tm \<Rightarrow> int) \<Rightarrow> E2kFreebusy \<Rightarrow> string option \<times> string option \<times> string option \<Rightarrow> E2kFreebusy" where
  "add_appointment e_mktime_utc fb = (\<lambda>(start, end', busystatus). case (start, end', busystatus) of
     (Some s, Some e, Some b) \<Rightarrow>
       e2k_freebusy_add_interval fb (status_of b) (e2k_parse_timestamp e_mktime_utc s)
         (e2k_parse_timestamp e_mktime_utc e)
   | _ \<Rightarrow> fb)"

definition e2k_freebusy_add_from_calendar_uri ::
  "(tm \<Rightarrow> int) \<Rightarrow> E2kFreebusy \<Rightarrow> int \<Rightarrow> int \<Rightarrow> (string option \<times> string option \<times> string option) list \<Rightarrow> E2kFreebusy" where
  "e2k_freebusy_add_from_calendar_uri e_mktime_utc fb start_tt end_tt results =
     foldl (add_appointment e_mktime_utc) (e2k_freebusy_clear_interval fb start_tt end_tt) results"

section \<open>Writing\<close>

text \<open>The loop over the months; the fuel bounds the number of rounds.\<close>

fun month_list :: "nat \<Rightarrow> int \<Rightarrow> int \<Rightarrow> int \<Rightarrow> int \<Rightarrow> int list result" where
  "month_list 0 year mon end_year end_mon = Inl Out_of_fuel"
| "month_list (Suc f) year mon end_year end_mon =
     (if year \<le> end_year \<or> mon \<le> end_mon then
        ok_bind (if mon + 1 = 12 then month_list f (year + 1) 0 end_year end_mon
                 else month_list f year (mon + 1) end_year end_mon)
          (\<lambda>ms. Inr (((year + 1900) * 16 + (mon + 1)) # ms))
      else Inr [])"

text \<open>
  The inner loop of the second part; its condition starts with \<open>i << events_array->len\<close>, whose
  value for a shift by 32 or more, or one that overflows, C does not define. A \<open>time_t\<close> division
  truncates; a value stored into a \<open>gchar\<close> keeps its low byte.
\<close>

definition evt_bytes :: "int \<Rightarrow> int \<Rightarrow> E2kFreebusyEvent \<Rightarrow> byte list" where
  "evt_bytes start end' e =
     (let evt_start = (if fst e < start then 0 else (fst e - start) sdiv 60);
          evt_end = (if snd e > end' then (end' - start) sdiv 60 else (snd e - start) sdiv 60)
      in [of_int evt_start, of_int (evt_start div 256), of_int evt_end, of_int (evt_end div 256)])"

function month_data :: "E2kFreebusyEvent list \<Rightarrow> int \<Rightarrow> int \<Rightarrow> nat \<Rightarrow> byte list \<Rightarrow> (nat \<times> byte list) result" where
  "month_data events start end' i dat =
     (if length events \<ge> 32 \<or> i * 2 ^ length events \<ge> 2 ^ 31 then Inl Undefined
      else if i * 2 ^ length events \<noteq> 0 then
        (if i \<ge> length events then Inl Undefined
         else if snd (events ! i) > start \<and> fst (events ! i) < end' then
           month_data events start end' (Suc i) (dat @ evt_bytes start end' (events ! i))
         else Inr (i, dat))
      else Inr (i, dat))"
  by pat_completeness auto
termination
  by (relation "measure (\<lambda>(events, start, end', i, dat). length events - i)") auto

declare month_data.simps [simp del]

fun data_list :: "(tm \<Rightarrow> int) \<Rightarrow> nat \<Rightarrow> E2kFreebusyEvent list \<Rightarrow> int \<Rightarrow> nat \<Rightarrow> byte list list result" where
  "data_list e_mktime_utc 0 events start i = Inl Out_of_fuel"
| "data_list e_mktime_utc (Suc f) events start i =
     (if i < length events then
        (let start_tm = gmtime start; end' = e_mktime_utc (start_tm\<lparr>tm_mon := tm_mon start_tm + 1\<rparr>)
         in ok_bind (month_data events start end' i []) (\<lambda>(i, d).
            ok_bind (data_list e_mktime_utc f events end' i) (\<lambda>ds. Inr (d # ds))))
      else Inr [])"

text \<open>The two arrays that are set, or \<open>None\<close> when the properties are removed.\<close>

definition add_events :: "(tm \<Rightarrow> int) \<Rightarrow> nat \<Rightarrow> E2kFreebusyEvent list \<Rightarrow> (int list \<times> byte list list) option result" where
  "add_events e_mktime_utc fuel events =
     (if events = [] then Inr None
      else let start_tm = gmtime (fst (hd events)); end_tm = gmtime (snd (last events))
        in ok_bind (month_list fuel (tm_year start_tm) (tm_mon start_tm) (tm_year end_tm) (tm_mon end_tm)) (\<lambda>ms.
           ok_bind (data_list e_mktime_utc fuel events (fst (hd events)) 0) (\<lambda>ds. Inr (Some (ms, ds)))))"

section \<open>The time covered by events\<close>

definition covers :: "E2kFreebusyEvent \<Rightarrow> int \<Rightarrow> bool" where
  "covers e t \<longleftrightarrow> fst e \<le> t \<and> t < snd e"

definition busy_at :: "E2kFreebusyEvent list \<Rightarrow> int \<Rightarrow> bool" where
  "busy_at es t \<longleftrightarrow> (\<exists>e \<in> set es. covers e t)"

definition events_ok :: "int \<Rightarrow> int \<Rightarrow> E2kFreebusyEvent list \<Rightarrow> bool" where
  "events_ok lo hi es \<longleftrightarrow> (\<forall>e \<in> set es. lo \<le> fst e \<and> fst e < snd e \<and> snd e \<le> hi) \<and>
     sorted (map fst es)"

definition fb_ok :: "E2kFreebusy \<Rightarrow> bool" where
  "fb_ok fb \<longleftrightarrow> length (fb_events fb) = 4 \<and> list_all (events_ok (fb_start fb) (fb_end fb)) (fb_events fb)"

lemma busy_at_simps [simp]: "busy_at [] t = False" "busy_at (e # es) t = (covers e t \<or> busy_at es t)"
  by (auto simp: busy_at_def)

lemma add_event_covers:
  "\<forall>e \<in> set es. fst e < snd e \<Longrightarrow> start < end' \<Longrightarrow>
   busy_at (add_event es start end') t \<longleftrightarrow> busy_at es t \<or> (start \<le> t \<and> t < end')"
  by (induction es start end' rule: add_event.induct) (auto simp: covers_def)

lemma add_event_starts: "x \<in> set (add_event es start end') \<Longrightarrow> (\<exists>e \<in> set es. fst e \<le> fst x) \<or> start \<le> fst x"
  by (induction es start end' rule: add_event.induct) (auto simp: min_def split: if_splits)

lemma events_ok_Cons:
  "events_ok lo hi (e # es) \<longleftrightarrow> lo \<le> fst e \<and> fst e < snd e \<and> snd e \<le> hi \<and> (\<forall>x \<in> set es. fst e \<le> fst x) \<and> events_ok lo hi es"
  by (auto simp: events_ok_def)

lemma add_event_ok:
  "events_ok lo hi es \<Longrightarrow> lo \<le> start \<Longrightarrow> start < end' \<Longrightarrow> end' \<le> hi \<Longrightarrow> events_ok lo hi (add_event es start end')"
proof (induction es start end' rule: add_event.induct)
  case (2 e es start end')
  from "2.prems"(1) have e: "lo \<le> fst e" "fst e < snd e" "snd e \<le> hi" "\<forall>x \<in> set es. fst e \<le> fst x" "events_ok lo hi es"
    by (simp_all add: events_ok_Cons)
  consider "snd e \<ge> start" "fst e > end'" | "snd e \<ge> start" "fst e \<le> end'" | "snd e < start" by linarith
  then show ?case
  proof cases
    case 1
    then have "\<forall>x \<in> set es. start \<le> fst x" using e "2.prems" by fastforce
    with 1 show ?thesis using e "2.prems" by (simp add: events_ok_Cons)
  next
    case 2
    then have "\<forall>x \<in> set es. min (fst e) start \<le> fst x" using e by fastforce
    with 2 show ?thesis using e "2.prems" by (simp add: events_ok_Cons)
  next
    case 3
    then have "events_ok lo hi (add_event es start end')" using "2.IH" "2.prems" e by simp
    moreover have "fst e \<le> fst x" if "x \<in> set (add_event es start end')" for x
      using add_event_starts [OF that] e 3 by fastforce
    ultimately show ?thesis using e 3 by (simp add: events_ok_Cons)
  qed
qed (simp add: events_ok_def)

lemma clear_events_covers:
  assumes "start < end'" "\<forall>e \<in> set es. fst e < snd e"
  shows "busy_at (clear_events es start end') t \<longleftrightarrow>
    (\<exists>e \<in> set es. covers e t \<and> (t < start \<or> end' \<le> t \<or> (fst e \<le> start \<and> end' \<le> snd e)))"
  using assms by (induction es start end' rule: clear_events.induct) (auto simp: covers_def Let_def)

definition cleared_start :: "int \<Rightarrow> int \<Rightarrow> int \<Rightarrow> int" where
  "cleared_start start end' s = (if start < s \<and> s \<le> end' then end' else s)"

lemma cleared_start_mono: "start < end' \<Longrightarrow> s \<le> s' \<Longrightarrow> cleared_start start end' s \<le> cleared_start start end' s'"
  by (auto simp: cleared_start_def)

lemma clear_event_starts:
  "\<forall>e \<in> set es. fst e < snd e \<Longrightarrow> x \<in> set (clear_events es start end') \<Longrightarrow>
   \<exists>e \<in> set es. fst x = cleared_start start end' (fst e)"
proof (induction es)
  case (Cons e es)
  then show ?case by (cases e) (auto simp: Let_def cleared_start_def split: if_splits)
qed simp

lemma clear_events_ok:
  "events_ok lo hi es \<Longrightarrow> start < end' \<Longrightarrow> events_ok lo hi (clear_events es start end')"
proof (induction es start end' rule: clear_events.induct)
  case (2 s e es start end')
  from "2.prems"(1) have e: "lo \<le> s" "s < e" "e \<le> hi" "\<forall>x \<in> set es. s \<le> fst x" "events_ok lo hi es"
    by (simp_all add: events_ok_Cons)
  have v: "\<forall>x \<in> set es. fst x < snd x" using e(5) by (simp add: events_ok_def)
  have ih: "events_ok lo hi (clear_events es start end')"
    using 2 e by (cases "e < start \<or> s > end'") (auto simp: Let_def)
  have low: "cleared_start start end' s \<le> fst x" if "x \<in> set (clear_events es start end')" for x
    using clear_event_starts [OF v that] cleared_start_mono [OF "2.prems"(2)] e(4) by auto
  show ?case
    using e ih low "2.prems"(2) by (auto simp: events_ok_Cons Let_def cleared_start_def split: if_splits)
qed simp


section \<open>Properties\<close>

lemma nth_events_ok: "fb_ok fb \<Longrightarrow> s < 4 \<Longrightarrow> events_ok (fb_start fb) (fb_end fb) (fb_events fb ! s)"
  by (auto simp: fb_ok_def list_all_length)

lemma add_interval_covers_helper:
  assumes ok: "fb_ok fb" and s: "s < 4"
  shows "fb_ok (e2k_freebusy_add_interval fb s start end') \<and>
    fb_start (e2k_freebusy_add_interval fb s start end') = fb_start fb \<and>
    fb_end (e2k_freebusy_add_interval fb s start end') = fb_end fb \<and>
    (\<forall>k < 4. \<forall>t. busy_at (fb_events (e2k_freebusy_add_interval fb s start end') ! k) t \<longleftrightarrow>
       busy_at (fb_events fb ! k) t \<or>
       (k = s \<and> s \<noteq> E2K_BUSYSTATUS_FREE \<and> fb_start fb \<le> t \<and> t < fb_end fb \<and> start \<le> t \<and> t < end'))"
proof -
  define a where "a = max start (fb_start fb)"
  define b where "b = min end' (fb_end fb)"
  have r: "e2k_freebusy_add_interval fb s start end' =
      (if s = E2K_BUSYSTATUS_FREE \<or> b \<le> a then fb else fb\<lparr>fb_events := (fb_events fb)[s := add_event (fb_events fb ! s) a b]\<rparr>)"
    by (auto simp: e2k_freebusy_add_interval_def a_def b_def max_def min_def Let_def)
  have es: "events_ok (fb_start fb) (fb_end fb) (fb_events fb ! s)" "s < length (fb_events fb)"
    using nth_events_ok ok s by (auto simp: fb_ok_def)
  then have ok': "events_ok (fb_start fb) (fb_end fb) (add_event (fb_events fb ! s) a b)" if "a < b"
    using that by (intro add_event_ok) (auto simp: a_def b_def)
  have cov: "busy_at (add_event (fb_events fb ! s) a b) t \<longleftrightarrow> busy_at (fb_events fb ! s) t \<or> a \<le> t \<and> t < b" if "a < b" for t
    using es(1) that by (intro add_event_covers) (auto simp: events_ok_def)
  show ?thesis
  proof (cases "s = E2K_BUSYSTATUS_FREE \<or> b \<le> a")
    case True
    then show ?thesis using ok by (auto simp: r a_def b_def)
  next
    case False
    then have ab: "a < b" and r': "e2k_freebusy_add_interval fb s start end' =
        fb\<lparr>fb_events := (fb_events fb)[s := add_event (fb_events fb ! s) a b]\<rparr>" by (auto simp: r)
    have "a \<le> t \<and> t < b \<longleftrightarrow> fb_start fb \<le> t \<and> t < fb_end fb \<and> start \<le> t \<and> t < end'" for t
      by (auto simp: a_def b_def)
    note cov' = cov [OF ab, unfolded this]
    show ?thesis
      unfolding r' using ok ok' [OF ab] es cov' False
      by (auto simp: fb_ok_def list_all_length nth_list_update)
  qed
qed

text \<open>
  C30. Adding an interval makes exactly the time of the interval that lies in the range busy, for
  its status only, and keeps every list of events sorted, non-empty and inside the range.
\<close>

theorem add_interval_covers:
  assumes "fb_ok fb" "s < 4"
  shows "fb_ok (e2k_freebusy_add_interval fb s start end') \<and>
    (\<forall>k < 4. \<forall>t. busy_at (fb_events (e2k_freebusy_add_interval fb s start end') ! k) t \<longleftrightarrow>
       busy_at (fb_events fb ! k) t \<or>
       (k = s \<and> s \<noteq> E2K_BUSYSTATUS_FREE \<and> fb_start fb \<le> t \<and> t < fb_end fb \<and> start \<le> t \<and> t < end'))"
  using add_interval_covers_helper [OF assms] by blast

definition sample_fb :: E2kFreebusy where
  "sample_fb = \<lparr>fb_dn = ''d'', fb_start = 0, fb_end = 100, fb_events = [[], [], [(20, 30), (40, 50)], []]\<rparr>"

lemma sample_fb_ok: "fb_ok sample_fb"
  by (simp add: fb_ok_def sample_fb_def events_ok_def)

lemma add_interval_covers_witness:
  "busy_at (fb_events (e2k_freebusy_add_interval sample_fb 2 25 200) ! 2) 99"
  using add_interval_covers [OF sample_fb_ok, of 2 25 200] by (simp add: busystatus sample_fb_def)

lemma clear_covers_helper:
  assumes "fb_ok fb" "start < end'"
  shows "fb_ok (e2k_freebusy_clear_interval fb start end') \<and>
    (\<forall>k < 4. \<forall>t. busy_at (fb_events (e2k_freebusy_clear_interval fb start end') ! k) t \<longleftrightarrow>
       (\<exists>e \<in> set (fb_events fb ! k). covers e t \<and> (t < start \<or> end' \<le> t \<or> (fst e \<le> start \<and> end' \<le> snd e))))"
proof -
  have "events_ok (fb_start fb) (fb_end fb) (clear_events es start end')" if "es \<in> set (fb_events fb)" for es
    using assms that by (intro clear_events_ok) (auto simp: fb_ok_def list_all_iff)
  moreover have "\<forall>e \<in> set (fb_events fb ! k). fst e < snd e" if "k < 4" for k
    using nth_events_ok [OF assms(1) that] by (simp add: events_ok_def)
  ultimately show ?thesis
    using assms clear_events_covers [OF assms(2)]
    by (auto simp: e2k_freebusy_clear_interval_def fb_ok_def list_all_iff)
qed

text \<open>
  C34. Clearing an interval removes its time from every list and nothing else, except that an event
  which covers the whole interval stays as it is.
\<close>

theorem clear_interval_covers:
  assumes "fb_ok fb" "start < end'"
  shows "fb_ok (e2k_freebusy_clear_interval fb start end') \<and>
    (\<forall>k < 4. \<forall>t. busy_at (fb_events (e2k_freebusy_clear_interval fb start end') ! k) t \<longleftrightarrow>
       (\<exists>e \<in> set (fb_events fb ! k). covers e t \<and> (t < start \<or> end' \<le> t \<or> (fst e \<le> start \<and> end' \<le> snd e))))"
  using assms by (rule clear_covers_helper)

lemma clear_interval_covers_witness:
  "busy_at (fb_events (e2k_freebusy_clear_interval sample_fb 22 28) ! 2) 25 \<and>
   \<not> busy_at (fb_events (e2k_freebusy_clear_interval sample_fb 22 60) ! 2) 25"
  using clear_interval_covers [OF sample_fb_ok, of 22 28] clear_interval_covers [OF sample_fb_ok, of 22 60]
  by (simp add: sample_fb_def covers_def)


section \<open>Loading and saving\<close>

text \<open>The events that \<open>merge_events\<close> keeps: those that start after all earlier ones have ended.\<close>

fun after_all :: "int \<Rightarrow> E2kFreebusyEvent list \<Rightarrow> E2kFreebusyEvent list" where
  "after_all m [] = []"
| "after_all m (e # es) = (if m < fst e then e # after_all (max m (snd e)) es else after_all (max m (snd e)) es)"

lemma merge_loop_after:
  "\<forall>e \<in> set es. fst e \<le> snd e \<Longrightarrow> merge_loop evt es = after_all (snd evt) es"
  by (induction evt es rule: merge_loop.induct) (auto simp: max_def)

lemma upt_0_Suc: "[0..<Suc n] = 0 # map Suc [0..<n]"
  by (simp add: upt_conv_Cons map_Suc_upt del: upt_Suc)

lemma after_all_filter:
  "after_all m es = map ((!) es) (filter (\<lambda>j. m < fst (es ! j) \<and> (\<forall>i < j. snd (es ! i) < fst (es ! j))) [0..<length es])"
proof (induction es arbitrary: m)
  case (Cons e es)
  let ?P = "\<lambda>m es j. m < fst (es ! j) \<and> (\<forall>i < j. snd (es ! i) < fst (es ! j))"
  have "[0..<length (e # es)] = 0 # map Suc [0..<length es]" by (simp only: list.size(4) add_0_right add_Suc_right upt_0_Suc)
  moreover have "?P m (e # es) (Suc j) \<longleftrightarrow> ?P (max m (snd e)) es j" for j
    by (auto simp: less_Suc_eq_0_disj)
  ultimately show ?case using Cons by (simp add: filter_map comp_def)
qed simp

text \<open>
  Merging overlapping events of the published data keeps exactly the events that start after
  all earlier ones have ended, unchanged: the time by which a removed event was longer is lost.
\<close>

theorem merge_events_keeps:
  assumes "\<forall>e \<in> set es. fst e \<le> snd e"
  shows "merge_events es = map ((!) es) (filter (\<lambda>j. \<forall>i < j. snd (es ! i) < fst (es ! j)) [0..<length es])"
proof (cases es)
  case (Cons e es')
  have "[0..<length (e # es')] = 0 # map Suc [0..<length es']" by (simp only: list.size(4) add_0_right add_Suc_right upt_0_Suc)
  moreover have "(\<forall>i < Suc j. snd ((e # es') ! i) < fst ((e # es') ! Suc j)) \<longleftrightarrow>
      snd e < fst (es' ! j) \<and> (\<forall>i < j. snd (es' ! i) < fst (es' ! j))" for j
    by (auto simp: less_Suc_eq_0_disj)
  ultimately show ?thesis
    using assms merge_loop_after [of es' e] after_all_filter [of "snd e" es']
    by (simp add: merge_events_def Cons filter_map comp_def)
qed (simp add: merge_events_def)

lemma merge_events_keeps_witness: "merge_events [(0, 10), (5, 20), (30, 40)] = [(0, 10), (30, 40)]"
  using merge_events_keeps [of "[(0, 10), (5, 20), (30, 40)]"] by (auto simp: upt_rec less_Suc_eq)

lemma month_list_result: "month_list f y m ey em = Inl e \<Longrightarrow> e = Out_of_fuel"
  by (induction f y m ey em rule: month_list.induct) (auto simp: ok_bind_eq_Inl split: if_splits)

text \<open>The loop over the months does not end when the last event ends in December.\<close>

lemma month_list_december: "0 \<le> m \<Longrightarrow> m \<le> 11 \<Longrightarrow> month_list f y m ey 11 = Inl Out_of_fuel"
  by (induction f y m ey "11 :: int" rule: month_list.induct) auto

lemma data_list_stuck: "events \<noteq> [] \<Longrightarrow> length events < 32 \<Longrightarrow> data_list em f events start 0 = Inl Out_of_fuel"
  by (induction em f events start "0 :: nat" rule: data_list.induct) (auto simp: month_data.simps Let_def)

text \<open>
  Writing a list with at least one and less than 32 events never returns, however many rounds
  the loops are given: the condition of the inner loop shifts the index 0 instead of comparing it,
  so no event is ever written and the index stays.
\<close>

theorem add_events_diverges:
  assumes "events \<noteq> []" "length events < 32"
  shows "add_events em fuel events = Inl Out_of_fuel"
proof -
  have "data_list em fuel events (fst (hd events)) 0 = Inl Out_of_fuel" using assms by (rule data_list_stuck)
  moreover have "ok_bind (month_list fuel y m ey em') (\<lambda>_. Inl Out_of_fuel) = Inl Out_of_fuel" for y m ey em'
    by (cases "month_list fuel y m ey em'") (auto dest: month_list_result)
  ultimately show ?thesis using assms by (simp add: add_events_def Let_def)
qed

lemma add_events_diverges_witness: "add_events (\<lambda>tm. 0) 1000 [(0, 3600)] = Inl Out_of_fuel"
  by (rule add_events_diverges) simp_all


section \<open>Importing a calendar\<close>

fun appointment_at :: "(tm \<Rightarrow> int) \<Rightarrow> string option \<times> string option \<times> string option \<Rightarrow> nat \<Rightarrow> int \<Rightarrow> bool" where
  "appointment_at em (Some s, Some e, Some b) k t \<longleftrightarrow>
     k = status_of b \<and> e2k_parse_timestamp em s \<le> t \<and> t < e2k_parse_timestamp em e"
| "appointment_at em _ k t \<longleftrightarrow> False"

lemma status_of_range: "status_of b < 4" "status_of b \<noteq> E2K_BUSYSTATUS_FREE"
  by (simp_all add: status_of_def busystatus)

lemma add_appointment_covers:
  assumes "fb_ok fb"
  shows "fb_ok (add_appointment em fb r) \<and> fb_start (add_appointment em fb r) = fb_start fb \<and>
    fb_end (add_appointment em fb r) = fb_end fb \<and>
    (\<forall>k < 4. \<forall>t. busy_at (fb_events (add_appointment em fb r) ! k) t \<longleftrightarrow>
       busy_at (fb_events fb ! k) t \<or> (fb_start fb \<le> t \<and> t < fb_end fb \<and> appointment_at em r k t))"
proof (cases "(em, r, 0 :: nat, 0 :: int)" rule: appointment_at.cases)
  case (1 em' s e b k t)
  then show ?thesis
    using add_interval_covers_helper [OF assms status_of_range(1)] status_of_range(2)
    by (auto simp: add_appointment_def)
qed (use assms in \<open>auto simp: add_appointment_def split: option.split\<close>)

lemma appointments_cover:
  "fb_ok fb \<Longrightarrow> fb_ok (foldl (add_appointment em) fb rs) \<and>
    (\<forall>k < 4. \<forall>t. busy_at (fb_events (foldl (add_appointment em) fb rs) ! k) t \<longleftrightarrow>
       busy_at (fb_events fb ! k) t \<or> (fb_start fb \<le> t \<and> t < fb_end fb \<and> (\<exists>r \<in> set rs. appointment_at em r k t)))"
proof (induction rs arbitrary: fb)
  case (Cons r rs)
  note c = add_appointment_covers [OF Cons.prems, of em r]
  then have "fb_ok (add_appointment em fb r)" by simp
  from Cons.IH [OF this] c show ?case by auto
qed simp



end
