(* ===== verification/Utils.thy ===== *)
theory Utils
  imports Restriction Uri Hash_Table
begin

text \<open>
  The helpers of server/lib/e2k-utils.c around Exchange entry ids: line endings, permanent URLs, the
  distinguished name inside an entry id, the entry ids of recipients, keys compared without case,
  and the test whether a restriction can only match folders. The time functions of that file are in
  theory Times.
\<close>

section \<open>Line endings and slashes\<close>

definition lf :: char where "lf = char_of (10 :: nat)"
definition cr :: char where "cr = char_of (13 :: nat)"

text \<open>The length computed for the copy, and the copy.\<close>

definition crlf_len :: "string \<Rightarrow> nat" where
  "crlf_len s = length s + length (filter (\<lambda>c. c = lf) s)"

fun e2k_lf_to_crlf :: "string \<Rightarrow> string" where
  "e2k_lf_to_crlf [] = []"
| "e2k_lf_to_crlf (c # s) = (if c = lf then [cr] else []) @ c # e2k_lf_to_crlf s"

definition e2k_crlf_to_lf :: "string \<Rightarrow> string" where
  "e2k_crlf_to_lf s = filter (\<lambda>c. c \<noteq> cr) s"

definition e2k_strdup_with_trailing_slash :: "string option \<Rightarrow> string option" where
  "e2k_strdup_with_trailing_slash path = (case path of
     None \<Rightarrow> None
   | Some s \<Rightarrow>
       if s = [] then None
       else if strrchr s CHR ''/'' = Some (length s - 1) then Some s else Some (s @ ''/''))"

section \<open>The distinguished name in an entry id\<close>

text \<open>
  \<open>while (*(p - 1) && p > data) p--;\<close> with \<open>p\<close> as an index: the byte is read before the bound is
  tested.
\<close>

fun dn_scan :: "byte list \<Rightarrow> nat \<Rightarrow> nat result" where
  "dn_scan d 0 = Inl Undefined"
| "dn_scan d (Suc i) = (if d ! i \<noteq> 0 then dn_scan d i else Inr (Suc i))"

definition e2k_entryid_to_dn :: "byte list \<Rightarrow> nat option result" where
  "e2k_entryid_to_dn d =
     (if d = [] then Inl Undefined
      else if d ! (length d - 1) = 0
      then ok_bind (dn_scan d (length d - 1)) (\<lambda>p. Inr (if d ! p = byte_of_char CHR ''/'' then Some p else None))
      else Inr None)"

section \<open>Permanent URLs\<close>

definition hex2 :: "byte \<Rightarrow> string" where
  "hex2 b = fmt_x 2 (unat b)"

definition append_permanenturl_section :: "string \<Rightarrow> byte list \<Rightarrow> string" where
  "append_permanenturl_section url d =
     (let url = url @ concat (map hex2 (take 16 d)) @ ''-'';
          tail = dropWhile (\<lambda>b. b = 0) (take 6 (drop 16 d))
      in case tail of
           [] \<Rightarrow> url
         | b # bs \<Rightarrow> if unat b < 0x10 then url @ fmt_x 1 (unat b) @ concat (map hex2 bs)
                    else url @ concat (map hex2 tail))"

definition E2K_PERMANENTURL_INFIX :: string where
  "E2K_PERMANENTURL_INFIX = ''-FlatUrlSpace-''"

text \<open>An empty base URI makes the code look at the character in front of it.\<close>

definition e2k_entryid_to_permanenturl :: "byte list \<Rightarrow> string \<Rightarrow> string result" where
  "e2k_entryid_to_permanenturl entryid base_uri =
     (if \<not> (length entryid = 22 \<or> length entryid = 44) then Inl Rejected
      else if base_uri = [] then Inl Undefined
      else let url = base_uri;
               url = (if last url \<noteq> CHR ''/'' then url @ ''/'' else url);
               url = url @ E2K_PERMANENTURL_INFIX @ ''/'';
               url = append_permanenturl_section url entryid;
               url = (if length entryid > 22
                      then append_permanenturl_section (url @ ''/'') (drop 22 entryid) else url)
           in Inr url)"

fun pair_bytes :: "string \<Rightarrow> byte list" where
  "pair_bytes (a # b # s) = of_nat (HEXVAL a * 16 + HEXVAL b) # pair_bytes s"
| "pair_bytes _ = []"

text \<open>The section at the start of the text: the bytes appended and the text behind it.\<close>

definition append_entryid_section :: "byte list \<Rightarrow> string \<Rightarrow> (byte list \<times> string) option" where
  "append_entryid_section entryid p =
     (if length (takeWhile isxdigit p) \<noteq> 32 then None
      else if take 1 (drop 32 p) \<noteq> ''-'' then None
      else let endlen = length (takeWhile isxdigit (drop 33 p))
           in if endlen > 6 then None
              else let buf = take 32 p @ replicate (44 - 32 - endlen) CHR ''0'' @ take endlen (drop 33 p)
                   in Some (entryid @ pair_bytes buf, drop (33 + endlen) p))"

function entryid_sections :: "byte list \<Rightarrow> string \<Rightarrow> byte list option" where
  "entryid_sections entryid url =
     (case url of
        [] \<Rightarrow> Some entryid
      | c # s \<Rightarrow>
          if c = CHR ''/''
          then case append_entryid_section entryid s of None \<Rightarrow> None
               | Some (entryid', url') \<Rightarrow> entryid_sections entryid' url'
          else Some entryid)"
  by pat_completeness auto
termination
  by (relation "measure (\<lambda>(e, u). length u)") (auto simp: append_entryid_section_def Let_def split: if_splits)

declare entryid_sections.simps [simp del]

definition e2k_permanenturl_to_entryid :: "string \<Rightarrow> byte list option" where
  "e2k_permanenturl_to_entryid permanenturl = (case strstr permanenturl E2K_PERMANENTURL_INFIX of
     None \<Rightarrow> None
   | Some i \<Rightarrow> entryid_sections [] (drop (i + length E2K_PERMANENTURL_INFIX) permanenturl))"

section \<open>Keys compared without case\<close>

definition e2k_ascii_strcase_equal :: "string \<Rightarrow> string \<Rightarrow> bool" where
  "e2k_ascii_strcase_equal v v2 \<longleftrightarrow> map tolower v = map tolower v2"

text \<open>\<open>g_ascii_tolower\<close> returns a signed \<open>gchar\<close>, which is extended to the width of the hash.\<close>

definition hash_char :: "char \<Rightarrow> u32" where
  "hash_char c = scast (byte_of_char (tolower c))"

definition e2k_ascii_strcase_hash :: "string \<Rightarrow> u32" where
  "e2k_ascii_strcase_hash v = (case v of
     [] \<Rightarrow> 0
   | c # s \<Rightarrow> foldl (\<lambda>h c. push_bit 5 h - h + hash_char c) (hash_char c) s)"

section \<open>Restrictions that match folders only\<close>

definition E2K_PR_DAV_IS_COLLECTION :: string where
  "E2K_PR_DAV_IS_COLLECTION = ''DAV:iscollection''"

fun e2k_restriction_folders_only :: "e2k_restriction \<Rightarrow> bool" where
  "e2k_restriction_folders_only (RnProperty op pv) =
     (if rp_name (pv_prop pv) \<noteq> E2K_PR_DAV_IS_COLLECTION then False
      else (op = E2K_RELOP_EQ) = (pv_value pv \<noteq> PInt 0))"
| "e2k_restriction_folders_only (RnAnd rns) = list_ex e2k_restriction_folders_only rns"
| "e2k_restriction_folders_only (RnOr rns) = list_all e2k_restriction_folders_only rns"
| "e2k_restriction_folders_only (RnNot rn) = e2k_restriction_folders_only rn"
| "e2k_restriction_folders_only (RnComment ps rn) = e2k_restriction_folders_only rn"
| "e2k_restriction_folders_only _ = False"

section \<open>Entry ids of recipients\<close>

definition MAPI_ONE_OFF_UID :: "byte list" where
  "MAPI_ONE_OFF_UID = [0x81, 0x2b, 0x1f, 0xa4, 0xbe, 0xa3, 0x10, 0x19, 0x9d, 0x6e, 0x00, 0xdd, 0x01, 0x0f, 0x54, 0x02]"

definition MAPI_ONE_OFF_UNICODE :: u16 where "MAPI_ONE_OFF_UNICODE = 0x8000"
definition MAPI_ONE_OFF_NO_RICH_INFO :: u16 where "MAPI_ONE_OFF_NO_RICH_INFO = 0x0001"
definition MAPI_ONE_OFF_MYSTERY_FLAG :: u16 where "MAPI_ONE_OFF_MYSTERY_FLAG = 0x1000"

definition e2k_entryid_generate_oneoff :: "utf_conv \<Rightarrow> string \<Rightarrow> string \<Rightarrow> bool \<Rightarrow> byte list" where
  "e2k_entryid_generate_oneoff G display_name email unicode =
     (let e = e2k_rule_append_uint32 [] 0;
          e = e @ MAPI_ONE_OFF_UID;
          e = e2k_rule_append_uint16 e 0;
          e = e2k_rule_append_uint16 e
                (or (or MAPI_ONE_OFF_NO_RICH_INFO MAPI_ONE_OFF_MYSTERY_FLAG) (if unicode then MAPI_ONE_OFF_UNICODE else 0))
      in if unicode
         then e2k_rule_append_unicode G (e2k_rule_append_unicode G (e2k_rule_append_unicode G e display_name) ''SMTP'') email
         else e2k_rule_append_string (e2k_rule_append_string (e2k_rule_append_string e display_name) ''SMTP'') email)"

definition MAPI_LOCAL_UID :: "byte list" where
  "MAPI_LOCAL_UID = [0xdc, 0xa7, 0x40, 0xc8, 0xc0, 0x42, 0x10, 0x1a, 0xb4, 0xb9, 0x08, 0x00, 0x2b, 0x2f, 0xe1, 0x82]"

definition e2k_entryid_generate_local :: "string \<Rightarrow> byte list" where
  "e2k_entryid_generate_local exchange_dn =
     (let e = e2k_rule_append_uint32 [] 0;
          e = e @ MAPI_LOCAL_UID;
          e = e2k_rule_append_uint16 e 1;
          e = e2k_rule_append_uint16 e 0
      in e2k_rule_append_string e exchange_dn)"

definition MAPI_CONTACT_UID :: "byte list" where
  "MAPI_CONTACT_UID = [0xfe, 0x42, 0xaa, 0x0a, 0x18, 0xc7, 0x1a, 0x10, 0xe8, 0x85, 0x0b, 0x65, 0x1c, 0x24, 0x00, 0x00]"

definition e2k_entryid_generate_contact :: "byte list \<Rightarrow> u32 \<Rightarrow> byte list" where
  "e2k_entryid_generate_contact contact_entryid nth_address =
     (let e = e2k_rule_append_uint32 [] 0;
          e = e @ MAPI_CONTACT_UID;
          e = e2k_rule_append_uint32 e 3;
          e = e2k_rule_append_uint32 e 4;
          e = e2k_rule_append_uint32 e nth_address;
          e = e2k_rule_append_uint32 e (of_nat (length contact_entryid))
      in e @ contact_entryid)"

definition e2k_search_key_generate :: "string \<Rightarrow> string \<Rightarrow> byte list" where
  "e2k_search_key_generate addrtype address =
     (let key = cbytes addrtype @ cbytes '':'' @ cbytes address @ [0]
      in map (\<lambda>b. byte_of_char (toupper (char_of_byte b))) (takeWhile (\<lambda>b. b \<noteq> 0) key) @
         dropWhile (\<lambda>b. b \<noteq> 0) key)"

section \<open>Line endings\<close>

lemma lf_cr: "lf \<noteq> cr"
  by code_simp

text \<open>
  The buffer computed for the copy is filled exactly, and stripping the carriage returns gives a
  text without any back.
\<close>

lemma crlf_roundtrip: "cr \<notin> set s \<Longrightarrow> e2k_crlf_to_lf (e2k_lf_to_crlf s) = s"
  using lf_cr by (induction s) (auto simp: e2k_crlf_to_lf_def)

lemma crlf_length: "length (e2k_lf_to_crlf s) = crlf_len s"
  by (induction s) (auto simp: crlf_len_def)

section \<open>The name in a local entry id\<close>

lemma dn_scan_string:
  "\<forall>i < k. d ! (Suc j + i) \<noteq> 0 \<Longrightarrow> d ! j = 0 \<Longrightarrow> dn_scan d (Suc j + k) = Inr (Suc j)"
  by (induction k) auto

lemma entryid_to_dn_string:
  assumes "is_cstring s" "s \<noteq> []" "hd s = CHR ''/''" "p \<noteq> []" "last p = 0"
  shows "e2k_entryid_to_dn (p @ cbytes s @ [0]) = Inr (Some (length p))"
proof -
  let ?d = "p @ cbytes s @ [0]"
  obtain j where j: "length p = Suc j" using assms(4) by (cases p) auto
  have "?d ! j = 0" using assms(4,5) j by (simp add: nth_append last_conv_nth)
  moreover have "\<forall>i < length s. ?d ! (Suc j + i) \<noteq> 0"
    using assms(1) j by (auto simp: nth_append cbytes_def is_cstring_def dest: nth_mem)
  ultimately have "dn_scan ?d (Suc j + length s) = Inr (Suc j)" by (rule dn_scan_string [rotated])
  moreover have "?d ! (length p) = byte_of_char CHR ''/''"
    using assms(2,3) by (cases s) (auto simp: cbytes_def)
  moreover have "length (cbytes s) = length s" by (simp add: cbytes_def)
  ultimately show ?thesis using j by (simp add: e2k_entryid_to_dn_def nth_append)
qed

definition local_prefix :: "byte list" where
  "local_prefix = e2k_rule_append_uint16 (e2k_rule_append_uint16 (e2k_rule_append_uint32 [] 0 @ MAPI_LOCAL_UID) 1) 0"

lemma generate_local_eq: "e2k_entryid_generate_local dn = local_prefix @ cbytes dn @ [0]"
  by (simp add: e2k_entryid_generate_local_def local_prefix_def e2k_rule_append_string_def Let_def)

lemma local_prefix_facts: "length local_prefix = 24" "last local_prefix = 0" "local_prefix \<noteq> []"
  by code_simp+

lemma entryid_to_dn_overread:
  "\<forall>b \<in> set d. b \<noteq> 0 \<Longrightarrow> e2k_entryid_to_dn (d @ [0]) = Inl Undefined"
proof -
  assume d: "\<forall>b \<in> set d. b \<noteq> 0"
  have "k \<le> length d \<Longrightarrow> dn_scan (d @ [0]) k = Inl Undefined" for k
    using d by (induction k) (auto simp: nth_append)
  then show ?thesis by (simp add: e2k_entryid_to_dn_def)
qed

text \<open>
  \<open>e2k_entryid_to_dn\<close> finds the distinguished name in the entry id that
  \<open>e2k_entryid_generate_local\<close> builds for it. (An entry id of non-zero bytes and a final zero is read
  in front of its first byte, lemma \<open>entryid_to_dn_overread\<close>.)
\<close>

theorem entryid_local_dn:
  assumes "is_cstring dn'" "hd dn' = CHR ''/''" "dn' \<noteq> []"
  shows "\<exists>i. e2k_entryid_to_dn (e2k_entryid_generate_local dn') = Inr (Some i) \<and>
    drop i (e2k_entryid_generate_local dn') = cbytes dn' @ [0]"
  using entryid_to_dn_string [OF assms(1,3,2) local_prefix_facts(3,2)]
  by (simp add: generate_local_eq)

theorem entryid_local_dn_witness:
  "\<exists>i. e2k_entryid_to_dn (e2k_entryid_generate_local ''/o=Acme/cn=Recipients/cn=me'') = Inr (Some i) \<and>
    drop i (e2k_entryid_generate_local ''/o=Acme/cn=Recipients/cn=me'') = cbytes ''/o=Acme/cn=Recipients/cn=me'' @ [0]"
proof -
  have "is_cstring ''/o=Acme/cn=Recipients/cn=me''" by code_simp
  then show ?thesis by (rule entryid_local_dn) simp_all
qed

section \<open>Permanent URLs\<close>

lemma hex2_digits: "\<exists>h l. h < 16 \<and> l < 16 \<and> hex2 b = [digit_char h, digit_char l] \<and> unat b = 16 * h + l"
proof -
  have b: "unat b < 256" using unsigned_less [of b] by simp
  then have "unat b div 16 < 16" by linarith
  then show ?thesis using b
    by (intro exI [of _ "unat b div 16"] exI [of _ "unat b mod 16"]) (simp add: hex2_def fmt_x_byte)
qed

lemma pair_bytes_hex: "pair_bytes (concat (map hex2 bs)) = bs"
proof (induction bs)
  case (Cons b bs)
  obtain h l where hl: "h < 16" "l < 16" "hex2 b = [digit_char h, digit_char l]" "unat b = 16 * h + l"
    using hex2_digits by blast
  have "HEXVAL (digit_char h) * 16 + HEXVAL (digit_char l) = unat b"
    using hl(1,2,4) by (simp add: hex_digit)
  then have "of_nat (HEXVAL (digit_char h) * 16 + HEXVAL (digit_char l)) = b"
    by (simp only: of_nat_unat ucast_id)
  then show ?case using Cons hl(3) by simp
qed simp

lemma hex2_xdigit: "c \<in> set (hex2 b) \<Longrightarrow> isxdigit c"
  using hex2_digits [of b] hex_digit by auto

lemma hex2_xdigits: "\<forall>c \<in> set (concat (map hex2 bs)). isxdigit c"
  by (auto dest: hex2_xdigit)

fun tail_hex :: "byte list \<Rightarrow> string" where
  "tail_hex [] = []"
| "tail_hex (b # bs) =
     (if b = 0 then tail_hex bs
      else if unat b < 16 then digit_char (unat b) # concat (map hex2 bs) else concat (map hex2 (b # bs)))"

lemma fmt_x_1: "n < 16 \<Longrightarrow> fmt_x 1 n = [digit_char n]"
  by (simp add: fmt_x_def pad0_def to_base.simps)

lemma section_eq:
  "append_permanenturl_section url d =
     url @ concat (map hex2 (take 16 d)) @ CHR ''-'' # tail_hex (take 6 (drop 16 d))"
proof -
  have "(case dropWhile (\<lambda>b. b = 0) bs of [] \<Rightarrow> u
     | b # bs' \<Rightarrow> if unat b < 0x10 then u @ fmt_x 1 (unat b) @ concat (map hex2 bs')
                 else u @ concat (map hex2 (dropWhile (\<lambda>b. b = 0) bs))) = u @ tail_hex bs" for u bs
  proof (induction bs)
    case (Cons b bs)
    show ?case
    proof (cases "b = 0")
      case True
      then have d: "dropWhile (\<lambda>b. b = 0) (b # bs) = dropWhile (\<lambda>b. b = 0) bs" "tail_hex (b # bs) = tail_hex bs"
        by simp_all
      show ?thesis unfolding d by (rule Cons)
    qed (simp add: fmt_x_1 [unfolded One_nat_def])
  qed simp
  then show ?thesis by (simp add: append_permanenturl_section_def Let_def del: tail_hex.simps)
qed

lemma tail_hex_xdigits: "\<forall>c \<in> set (tail_hex bs). isxdigit c"
  using hex_digit by (induction bs) (auto dest: hex2_xdigit)

lemma zero_digit: "CHR ''0'' = digit_char 0"
  by code_simp

lemma length_hex [simp]: "length (concat (map hex2 bs)) = 2 * length bs"
proof (induction bs)
  case (Cons b bs)
  then show ?case using hex2_digits [of b] by auto
qed simp

lemma tail_hex_pad: "length (tail_hex bs) \<le> 2 * length bs \<and>
    concat (map hex2 bs) = replicate (2 * length bs - length (tail_hex bs)) CHR ''0'' @ tail_hex bs"
proof (induction bs)
  case (Cons b bs)
  obtain h l where hl: "h < 16" "l < 16" "hex2 b = [digit_char h, digit_char l]" "unat b = 16 * h + l"
    using hex2_digits by blast
  consider "b = 0" | "b \<noteq> 0" "unat b < 16" | "\<not> unat b < 16" by auto
  then show ?case
  proof cases
    case 1
    then have "h = 0" "l = 0" using hl(4) by auto
    then show ?thesis using 1 Cons hl(3)
      by (auto simp: zero_digit Suc_diff_le numeral_2_eq_2)
  next
    case 2
    then have "h = 0" "unat b = l" using hl(2,4) by auto
    then show ?thesis using 2 hl(3) by (simp add: zero_digit)
  next
    case 3
    then have "b \<noteq> 0" by auto
    then show ?thesis using 3 hl(3) by simp
  qed
qed simp

text \<open>The six bytes of a counter below \<open>2 ^ 24\<close> are written with at most six digits, others with more.\<close>

definition small_counter :: "byte list \<Rightarrow> bool" where
  "small_counter d \<longleftrightarrow> take 3 (drop 16 d) = [0, 0, 0]"

lemma length_hex2 [simp]: "length (hex2 b) = 2"
  using hex2_digits [of b] by auto

lemma tail_hex_length: "length (tail_hex (b # bs)) \<ge> (if b = 0 then 0 else 2 * length bs + 1)"
  by simp

lemma six_elements: "length xs = 6 \<Longrightarrow> \<exists>a b c e f g. xs = [a, b, c, e, f, g]"
  by (auto simp: length_Suc_conv eval_nat_numeral)

lemma small_counter_iff:
  assumes "length d \<ge> 22"
  shows "length (tail_hex (take 6 (drop 16 d))) \<le> 6 \<longleftrightarrow> small_counter d"
proof -
  have "length (take 6 (drop 16 d)) = 6" using assms by simp
  then obtain a b c e f g where s: "take 6 (drop 16 d) = [a, b, c, e, f, g]"
    using six_elements by blast
  then have "take 3 (take 6 (drop 16 d)) = [a, b, c]" by simp
  then have "take 3 (drop 16 d) = [a, b, c]" by (simp add: min_def)
  moreover have "length (tail_hex [e, f, g]) \<le> 6" using tail_hex_pad [of "[e, f, g]"] by simp
  ultimately show ?thesis
    using s by (auto simp: small_counter_def simp del: tail_hex.simps) (auto simp: length_hex [of "[_, _]"] split: if_splits)
qed

lemma read_section:
  assumes d: "length d \<ge> 22" and r: "r = [] \<or> \<not> isxdigit (hd r)"
  shows "append_entryid_section e (append_permanenturl_section [] d @ r) =
    (if small_counter d then Some (e @ take 22 d, r) else None)"
proof -
  define A T where AT: "A = concat (map hex2 (take 16 d))" "T = tail_hex (take 6 (drop 16 d))"
  have sec: "append_permanenturl_section [] d @ r = A @ CHR ''-'' # T @ r" by (simp add: section_eq AT)
  have lA: "length A = 32" using d by (simp add: AT)
  have "\<not> isxdigit CHR ''-''" by code_simp
  then have tA: "takeWhile isxdigit (A @ CHR ''-'' # T @ r) = A"
    using hex2_xdigits [of "take 16 d"] by (subst takeWhile_append2) (auto simp: AT)
  have tT: "takeWhile isxdigit (T @ r) = T"
    using tail_hex_xdigits [of "take 6 (drop 16 d)"] r by (subst takeWhile_append2) (cases r; auto simp: AT)+
  have dr: "drop 32 (A @ CHR ''-'' # T @ r) = CHR ''-'' # T @ r" "drop 33 (A @ CHR ''-'' # T @ r) = T @ r"
      "drop (33 + length T) (A @ CHR ''-'' # T @ r) = r" "take 32 (A @ CHR ''-'' # T @ r) = A"
    using lA by simp_all
  have six: "length (take 6 (drop 16 d)) = 6" using d by simp
  have "A @ replicate (44 - 32 - length T) CHR ''0'' @ T = concat (map hex2 (take 16 d @ take 6 (drop 16 d)))"
    using tail_hex_pad [of "take 6 (drop 16 d)"] six by (simp add: AT)
  moreover have "take 16 d @ take 6 (drop 16 d) = take 22 d"
    using take_add [of 16 6 d] by simp
  ultimately have "pair_bytes (A @ replicate (44 - 32 - length T) CHR ''0'' @ T) = take 22 d"
    by (simp only: pair_bytes_hex)
  then show ?thesis
    using small_counter_iff [OF d] lA
    by (simp add: append_entryid_section_def sec tA tT dr Let_def AT(2) [symmetric] not_le [symmetric])
qed

lemma take_prefix: "take (length n) s = n \<Longrightarrow> take (length n) (s @ r) = n"
proof -
  assume e: "take (length n) s = n"
  then have "length n \<le> length s" by (metis length_take min.cobounded1)
  then show ?thesis using e by simp
qed

lemma strstr_prefix: "n \<noteq> [] \<Longrightarrow> strstr (s @ r) n = None \<Longrightarrow> strstr s n = None"
proof (induction s)
  case (Cons a s)
  then show ?case using take_prefix [of n "a # s" r] by (auto split: if_splits)
qed simp

lemma strstr_behind_slash:
  assumes "n \<noteq> []" "CHR ''/'' \<notin> set n" "strstr b n = None"
  shows "strstr (b @ CHR ''/'' # n @ r) n = Some (length b + 1)"
  using assms(3)
proof (induction b)
  case Nil
  then show ?case using assms(1,2) by (cases n) (auto simp: take_Cons')
next
  case (Cons c b)
  have nt: "take (length n) (c # b) \<noteq> n" and IH: "strstr (b @ CHR ''/'' # n @ r) n = Some (length b + 1)"
    using Cons by (auto split: if_splits)
  have "take (length n) ((c # b) @ CHR ''/'' # n @ r) \<noteq> n"
  proof
    assume e: "take (length n) ((c # b) @ CHR ''/'' # n @ r) = n"
    show False
    proof (cases "length n \<le> length (c # b)")
      case True
      then have "take (length n) ((c # b) @ CHR ''/'' # n @ r) = take (length n) (c # b)"
        by (simp only: take_append) simp
      then show False using e nt by simp
    next
      case False
      then have "n ! length (c # b) = CHR ''/''" by (subst e [symmetric]) (simp add: nth_append)
      then show False using False assms(2) nth_mem [of "length (c # b)" n] by auto
    qed
  qed
  then show ?case using IH by simp
qed

lemma infix_facts: "E2K_PERMANENTURL_INFIX \<noteq> []" "CHR ''/'' \<notin> set E2K_PERMANENTURL_INFIX"
  by (simp_all add: E2K_PERMANENTURL_INFIX_def)

lemma section_append: "append_permanenturl_section (u @ v) d = u @ append_permanenturl_section v d"
  by (simp add: section_eq)

lemma read_sections:
  assumes d: "length d = 22" and r: "r = [] \<or> hd r = CHR ''/''"
  shows "entryid_sections e (CHR ''/'' # append_permanenturl_section [] d @ r) =
    (if small_counter d then entryid_sections (e @ d) r else None)"
proof -
  have "\<not> isxdigit CHR ''/''" by code_simp
  then have "append_entryid_section e (append_permanenturl_section [] d @ r) =
      (if small_counter d then Some (e @ d, r) else None)"
    using read_section [of d r e] d r by auto
  then show ?thesis by (subst entryid_sections.simps) simp
qed

text \<open>
  C33. An entry id of one or two sections comes back from its permanent URL exactly when the counter
  at the end of each section is below \<open>2 ^ 24\<close>; the URL of any other entry id, which the code writes
  itself, is refused, because the reader accepts at most six digits.
\<close>

theorem permanenturl_roundtrip:
  assumes "length e = 22 \<or> length e = 44" "base_uri \<noteq> []" "strstr base_uri E2K_PERMANENTURL_INFIX = None"
  shows "\<exists>url. e2k_entryid_to_permanenturl e base_uri = Inr url \<and>
    e2k_permanenturl_to_entryid url =
      (if small_counter e \<and> (length e = 44 \<longrightarrow> small_counter (drop 22 e)) then Some e else None)"
proof -
  define S where "S = append_permanenturl_section []"
  define b where "b = (if last base_uri = CHR ''/'' then butlast base_uri else base_uri)"
  define R where "R = (if length e > 22 then CHR ''/'' # S (drop 22 e) else [])"
  have b: "b @ ''/'' = (if last base_uri \<noteq> CHR ''/'' then base_uri @ ''/'' else base_uri)"
    using assms(2) by (simp add: b_def) (metis append_butlast_last_id)
  have nb: "strstr b E2K_PERMANENTURL_INFIX = None"
    using assms(2,3) strstr_prefix [OF infix_facts(1), of "butlast base_uri" "[last base_uri]"]
    by (simp add: b_def)
  have sec: "append_permanenturl_section u x = u @ S x" for u x
    using section_append [of u "[]" x] by (simp add: S_def)
  have url: "e2k_entryid_to_permanenturl e base_uri = Inr (b @ CHR ''/'' # E2K_PERMANENTURL_INFIX @ CHR ''/'' # S e @ R)"
    using assms(1,2) by (auto simp: e2k_entryid_to_permanenturl_def Let_def b [symmetric] sec R_def)
  have S22: "S e = S (take 22 e)" by (simp add: S_def section_eq drop_take min_def)
  have R: "R = [] \<or> hd R = CHR ''/''" by (simp add: R_def)
  have tl: "entryid_sections x R = (if length e = 44 \<longrightarrow> small_counter (drop 22 e) then Some (x @ drop 22 e) else None)" for x
  proof (cases "length e = 44")
    case True
    then show ?thesis using read_sections [of "drop 22 e" "[]" x] by (simp add: R_def S_def entryid_sections.simps)
  next
    case False
    then show ?thesis using assms(1) by (simp add: R_def entryid_sections.simps)
  qed
  have "e2k_permanenturl_to_entryid (b @ CHR ''/'' # E2K_PERMANENTURL_INFIX @ CHR ''/'' # S e @ R) =
      entryid_sections [] (CHR ''/'' # S (take 22 e) @ R)"
    using strstr_behind_slash [OF infix_facts nb] by (simp add: e2k_permanenturl_to_entryid_def S22 [symmetric])
  also have "\<dots> = (if small_counter e then entryid_sections (take 22 e) R else None)"
    using read_sections [OF _ R, of "take 22 e" "[]"] assms(1) by (auto simp: S_def small_counter_def drop_take min_def)
  finally show ?thesis using url tl [of "take 22 e"] by simp
qed

definition sample_key :: "byte list" where
  "sample_key = [1, 2, 3, 4, 5, 6, 7, 8, 9, 10, 11, 12, 13, 14, 15, 16, 0, 0, 0, 9, 0, 0x1a]"

theorem permanenturl_roundtrip_witness:
  "\<exists>url. e2k_entryid_to_permanenturl sample_key ''http://h/public/'' = Inr url \<and>
    e2k_permanenturl_to_entryid url = Some sample_key"
  using permanenturl_roundtrip [of sample_key "''http://h/public/''"]
  by (simp add: sample_key_def small_counter_def E2K_PERMANENTURL_INFIX_def)

section \<open>Restrictions that match folders only\<close>

text \<open>
  What a restriction means for an item: whether the item is a folder decides the comparisons of
  \<open>DAV:iscollection\<close> with a truth value, where false is less than true; every other test is an argument.
\<close>

definition bool_relop :: "u32 \<Rightarrow> bool \<Rightarrow> bool \<Rightarrow> bool option" where
  "bool_relop op a b =
     (if op = E2K_RELOP_EQ then Some (a = b) else if op = E2K_RELOP_NE then Some (a \<noteq> b)
      else if op = E2K_RELOP_LT then Some (a < b) else if op = E2K_RELOP_LE then Some (a \<le> b)
      else if op = E2K_RELOP_GT then Some (a > b) else if op = E2K_RELOP_GE then Some (a \<ge> b) else None)"

fun rn_matches :: "(e2k_restriction \<Rightarrow> bool) \<Rightarrow> bool \<Rightarrow> e2k_restriction \<Rightarrow> bool" where
  "rn_matches test folder (RnProperty op pv) =
     (case bool_relop op folder (pv_value pv \<noteq> PInt 0) of
        Some b \<Rightarrow> if rp_name (pv_prop pv) = E2K_PR_DAV_IS_COLLECTION then b else test (RnProperty op pv)
      | None \<Rightarrow> test (RnProperty op pv))"
| "rn_matches test folder (RnAnd rns) = list_all (rn_matches test folder) rns"
| "rn_matches test folder (RnOr rns) = list_ex (rn_matches test folder) rns"
| "rn_matches test folder (RnNot rn) = (\<not> rn_matches test folder rn)"
| "rn_matches test folder (RnComment ps rn) = rn_matches test folder rn"
| "rn_matches test folder rn = test rn"

text \<open>
  No negation, and \<open>DAV:iscollection\<close> is compared with \<open>FALSE\<close> by no other operators than \<open>=\<close>, \<open>!=\<close>,
  \<open><\<close> and \<open>>\<close>.
\<close>

fun positive_rn :: "e2k_restriction \<Rightarrow> bool" where
  "positive_rn (RnProperty op pv) =
     (rp_name (pv_prop pv) = E2K_PR_DAV_IS_COLLECTION \<and> pv_value pv = PInt 0 \<longrightarrow>
        op \<in> {E2K_RELOP_EQ, E2K_RELOP_NE, E2K_RELOP_LT, E2K_RELOP_GT})"
| "positive_rn (RnAnd rns) = list_all positive_rn rns"
| "positive_rn (RnOr rns) = list_all positive_rn rns"
| "positive_rn (RnNot rn) = False"
| "positive_rn (RnComment ps rn) = positive_rn rn"
| "positive_rn rn = True"

definition collection_test :: "u32 \<Rightarrow> bool \<Rightarrow> e2k_restriction" where
  "collection_test op b = RnProperty op
     \<lparr>pv_prop = \<lparr>rp_name = E2K_PR_DAV_IS_COLLECTION, rp_proptag = 0\<rparr>, pv_type = PT_BOOL, pv_value = PInt (if b then 1 else 0)\<rparr>"

definition collection_is :: "bool \<Rightarrow> e2k_restriction" where
  "collection_is = collection_test E2K_RELOP_EQ"

text \<open>
  Without these conditions the answer can be wrong: a negation gets the answer of its operand, and
  \<open>>= FALSE\<close>, which everything matches, and \<open><= FALSE\<close>, which everything but folders matches, count as
  matching folders only.
\<close>

lemma folders_only_not_wrong:
  "e2k_restriction_folders_only (RnNot (collection_is True)) \<and>
   rn_matches test False (RnNot (collection_is True)) \<and>
   \<not> e2k_restriction_folders_only (RnNot (collection_is False))"
  by (simp add: collection_is_def collection_test_def bool_relop_def restriction_consts)

lemma folders_only_order_wrong:
  "op = E2K_RELOP_GE \<or> op = E2K_RELOP_LE \<Longrightarrow>
   e2k_restriction_folders_only (collection_test op False) \<and> rn_matches test False (collection_test op False)"
  by (auto simp: collection_test_def bool_relop_def restriction_consts)

text \<open>
  C32. For a restriction that has no negation and does not compare \<open>DAV:iscollection\<close> with \<open>FALSE\<close> by
  \<open><=\<close>, \<open>>=\<close> or the operator for regular expressions, the test is sound: when it says that the
  restriction can only match folders, every item the restriction matches is a folder, whatever its
  other parts test.
\<close>

theorem folders_only_sound:
  assumes "positive_rn rn" "e2k_restriction_folders_only rn" "rn_matches test folder rn"
  shows "folder"
  using assms
proof (induction rn)
  case (RnProperty op pv)
  then show ?case by (auto simp: bool_relop_def restriction_consts split: if_splits)
qed (auto simp: list_all_iff list_ex_iff)

theorem folders_only_sound_witness:
  "let rn = RnAnd [RnExist \<lparr>rp_name = ''DAV:displayname'', rp_proptag = 0\<rparr>, RnOr [collection_is True]] in
     e2k_restriction_folders_only rn \<and> \<not> rn_matches (\<lambda>_. True) False rn"
proof -
  let ?rn = "RnAnd [RnExist \<lparr>rp_name = ''DAV:displayname'', rp_proptag = 0\<rparr>, RnOr [collection_is True]]"
  have "positive_rn ?rn" "e2k_restriction_folders_only ?rn" by (simp_all add: collection_is_def collection_test_def)
  then show ?thesis using folders_only_sound [of ?rn "\<lambda>_. True" False] by (auto simp: Let_def)
qed

section \<open>Keys compared without case\<close>

lemma strcase_hash_lower: "e2k_ascii_strcase_hash v = e2k_ascii_strcase_hash (map tolower v)"
proof -
  have t: "tolower (tolower c) = tolower c" for c
    by (auto simp: tolower_def isupper_def)
  then have "foldl (\<lambda>h c. push_bit 5 h - h + hash_char c) x s =
      foldl (\<lambda>h c. push_bit 5 h - h + hash_char c) x (map tolower s)" for x s
    by (induction s arbitrary: x) (simp_all add: hash_char_def)
  then show ?thesis by (cases v) (simp_all add: e2k_ascii_strcase_hash_def hash_char_def t)
qed

interpretation strcase: ghash_key e2k_ascii_strcase_equal e2k_ascii_strcase_hash
proof unfold_locales
  show "e2k_ascii_strcase_hash k = e2k_ascii_strcase_hash l" if "e2k_ascii_strcase_equal k l" for k l
    using that by (metis e2k_ascii_strcase_equal_def strcase_hash_lower)
qed (auto simp: e2k_ascii_strcase_equal_def)

text \<open>A table with these keys is a map on strings up to case.\<close>

lemma strcase_lookup_insert:
  "hash_lookup e2k_ascii_strcase_equal e2k_ascii_strcase_hash k
     (hash_insert e2k_ascii_strcase_equal e2k_ascii_strcase_hash l v t) =
   (if map tolower k = map tolower l then Some v
    else hash_lookup e2k_ascii_strcase_equal e2k_ascii_strcase_hash k t)"
  by (simp add: strcase.lookup_insert e2k_ascii_strcase_equal_def)

end
