(* ===== verification/Property_Store.thy ===== *)
theory Property_Store
  imports Rule_Codec Hash_Table
begin

text \<open>
  Property stores and the tables behind them (server/lib/e2k-properties.c): the table of known
  properties with their types, the table of namespaces with their abbreviations, and the sets of
  properties that are set or removed on an object. The two tables are global variables of the code,
  here a record that is passed along; a value is a pointer whose C type depends on the type that the
  table of known properties records, so reading it through another type is \<open>Undefined\<close>. An XML node
  is an argument of the type. Hash tables are traversed in list order, which stands for any order.
\<close>

section \<open>Namespaces\<close>

record E2kPropInfo =
  pi_name :: string
  pi_namespace :: string
  pi_short_name :: string
  pi_type :: e2k_prop_type
  pi_proptag :: u32

text \<open>A null pointer to a table is \<open>None\<close>; \<open>next_namespace\<close> is a \<open>gint\<close>.\<close>

record prop_tables =
  known_properties :: "(string, E2kPropInfo) ghash option"
  namespaces :: "(string, u32) ghash option"
  next_namespace :: u32

definition initial_tables :: prop_tables where
  "initial_tables = \<lparr>known_properties = None, namespaces = None, next_namespace = 97\<rparr>"

text \<open>
  A name without a separator gives a null pointer, whose distance from a name is never the offset of
  a separator.
\<close>

definition prop_equal :: "string \<Rightarrow> string \<Rightarrow> bool" where
  "prop_equal s1 s2 = (case (get_div s1, get_div s2) of
     (Some d1, Some d2) \<Rightarrow> d1 = d2 \<and> map tolower (take d1 s1) = map tolower (take d1 s2)
   | _ \<Rightarrow> False)"

definition prop_hash :: "string \<Rightarrow> u32" where
  "prop_hash v = foldl (\<lambda>h c. push_bit 5 h - h + scast (byte_of_char c))
     (case v of [] \<Rightarrow> 0 | c # _ \<Rightarrow> scast (byte_of_char (tolower c)))
     (case get_div v of None \<Rightarrow> [] | Some d \<Rightarrow> drop 1 (take d v))"

definition setup_namespaces :: "(string, u32) ghash" where
  "setup_namespaces = hash_insert prop_equal prop_hash ''DAV'' 68 []"

definition namespaces_of :: "prop_tables \<Rightarrow> (string, u32) ghash" where
  "namespaces_of g = (case namespaces g of None \<Rightarrow> setup_namespaces | Some t \<Rightarrow> t)"

text \<open>\<open>g_hash_table_lookup_extended\<close>: the stored key and its value.\<close>

definition lookup_namespace :: "string \<Rightarrow> (string, u32) ghash \<Rightarrow> (string \<times> u32) option" where
  "lookup_namespace prop t = find (hash_match prop_equal prop_hash prop) t"

text \<open>The part the two functions share: the entry of the namespace of \<open>prop\<close>, made when it is new.\<close>

definition namespace_entry :: "prop_tables \<Rightarrow> string \<Rightarrow> ((string \<times> u32) \<times> prop_tables) result" where
  "namespace_entry g prop = (case get_div prop of
     None \<Rightarrow> Inl Undefined
   | Some d \<Rightarrow>
       (let t = namespaces_of g; g = g\<lparr>namespaces := Some t\<rparr>
        in case lookup_namespace prop t of
             Some e \<Rightarrow> Inr (e, g)
           | None \<Rightarrow> Inr ((take (d + 1) prop, next_namespace g),
               g\<lparr>namespaces := Some (hash_insert prop_equal prop_hash (take (d + 1) prop) (next_namespace g) t),
                 next_namespace := next_namespace g + 1\<rparr>)))"

definition e2k_prop_namespace_name :: "prop_tables \<Rightarrow> string \<Rightarrow> (string \<times> prop_tables) result" where
  "e2k_prop_namespace_name g prop = ok_bind (namespace_entry g prop) (\<lambda>((name, v), g). Inr (name, g))"

definition e2k_prop_namespace_abbrev :: "prop_tables \<Rightarrow> string \<Rightarrow> (byte \<times> prop_tables) result" where
  "e2k_prop_namespace_abbrev g prop = ok_bind (namespace_entry g prop) (\<lambda>((name, v), g). Inr (ucast v, g))"

section \<open>Known properties\<close>

definition known_of :: "prop_tables \<Rightarrow> (string, E2kPropInfo) ghash" where
  "known_of g = (case known_properties g of None \<Rightarrow> [] | Some t \<Rightarrow> t)"

definition get_propinfo :: "prop_tables \<Rightarrow> string \<Rightarrow> e2k_prop_type \<Rightarrow> (E2kPropInfo \<times> prop_tables) result" where
  "get_propinfo g propname type =
     (let t = known_of g
      in case str_lookup propname t of
           Some pi \<Rightarrow>
             (let pi = (if pi_type pi = PT_UNKNOWN then pi\<lparr>pi_type := type\<rparr> else pi)
              in Inr (pi, g\<lparr>known_properties := Some (str_insert propname pi t)\<rparr>))
         | None \<Rightarrow>
             ok_bind (e2k_prop_namespace_name g propname) (\<lambda>(ns, g).
             ok_bind (e2k_prop_property_name propname) (\<lambda>short.
             let pi = \<lparr>pi_name = propname, pi_namespace = ns, pi_short_name = short, pi_type = type,
                       pi_proptag = (case short of
                          c # cs \<Rightarrow> (if c = CHR ''x'' then ucast (fst (strtoul 16 cs)) else 0) | [] \<Rightarrow> 0)\<rparr>
             in Inr (pi, g\<lparr>known_properties := Some (str_insert propname pi t)\<rparr>))))"

section \<open>Property stores\<close>

datatype 'x prop_value =
    VNull | VStr string | VStrs "string list" | VBin "byte list" | VBins "byte list list" | VXml 'x

record 'x E2kProperties =
  props_set :: "(string, 'x prop_value) ghash"
  props_removed :: "(string, 'x prop_value) ghash"

definition e2k_properties_new :: "'x E2kProperties" where
  "e2k_properties_new = \<lparr>props_set = [], props_removed = []\<rparr>"

text \<open>Whether a pointer may be used the way a property type says.\<close>

fun has_c_type :: "e2k_prop_type \<Rightarrow> 'x prop_value \<Rightarrow> bool" where
  "has_c_type PT_BINARY_ARRAY v = (case v of VBins _ \<Rightarrow> True | _ \<Rightarrow> False)"
| "has_c_type PT_STRING_ARRAY v = (case v of VStrs _ \<Rightarrow> True | _ \<Rightarrow> False)"
| "has_c_type PT_INT_ARRAY v = (case v of VStrs _ \<Rightarrow> True | _ \<Rightarrow> False)"
| "has_c_type PT_BINARY v = (case v of VBin _ \<Rightarrow> True | _ \<Rightarrow> False)"
| "has_c_type PT_XML v = (case v of VXml _ \<Rightarrow> True | _ \<Rightarrow> False)"
| "has_c_type _ v = (case v of VStr _ \<Rightarrow> True | _ \<Rightarrow> False)"

definition free_prop :: "E2kPropInfo \<Rightarrow> 'x prop_value \<Rightarrow> unit result" where
  "free_prop pi v =
     (if v = VNull then Inr () else if has_c_type (pi_type pi) v then Inr () else Inl Undefined)"

text \<open>
  Arrays grow at their end. The loops of \<open>copy_prop\<close> go through the elements of the original: \<open>orig\<close> is
  what is left of it and \<open>copy\<close> is the array that is being made.
\<close>

definition g_byte_array_append :: "byte list \<Rightarrow> byte list \<Rightarrow> byte list" where
  "g_byte_array_append arr data = arr @ data"

definition g_ptr_array_add :: "'a list \<Rightarrow> 'a \<Rightarrow> 'a list" where
  "g_ptr_array_add arr p = arr @ [p]"

fun copy_binary_array :: "byte list list \<Rightarrow> byte list list \<Rightarrow> byte list list" where
  "copy_binary_array [] copy = copy"
| "copy_binary_array (old # orig) copy =
     (let new = []; new = g_byte_array_append new old
      in copy_binary_array orig (g_ptr_array_add copy new))"

fun copy_string_array :: "string list \<Rightarrow> string list \<Rightarrow> string list" where
  "copy_string_array [] copy = copy"
| "copy_string_array (s # orig) copy = copy_string_array orig (g_ptr_array_add copy s)"

text \<open>
  A loop reads the length of its array, so a null pointer is not accepted there, while \<open>g_strdup\<close> and
  \<open>xmlCopyNode\<close> return one for one; there is no case for arrays of integers, which go to \<open>g_strdup\<close>
  as all the types without one. \<open>xmlCopyNode\<close> is libxml's and an argument, \<open>cn\<close>.
\<close>

definition copy_value :: "('x \<Rightarrow> 'x) \<Rightarrow> e2k_prop_type \<Rightarrow> 'x prop_value \<Rightarrow> 'x prop_value result" where
  "copy_value cn type v = (case type of
     PT_BINARY_ARRAY \<Rightarrow> (case v of VBins orig \<Rightarrow> Inr (VBins (copy_binary_array orig [])) | _ \<Rightarrow> Inl Undefined)
   | PT_STRING_ARRAY \<Rightarrow> (case v of VStrs orig \<Rightarrow> Inr (VStrs (copy_string_array orig [])) | _ \<Rightarrow> Inl Undefined)
   | PT_BINARY \<Rightarrow> (case v of VBin orig \<Rightarrow> Inr (VBin (g_byte_array_append [] orig)) | _ \<Rightarrow> Inl Undefined)
   | PT_XML \<Rightarrow> (case v of VXml n \<Rightarrow> Inr (VXml (cn n)) | VNull \<Rightarrow> Inr VNull | _ \<Rightarrow> Inl Undefined)
   | _ \<Rightarrow> (case v of VStr s \<Rightarrow> Inr (VStr s) | VNull \<Rightarrow> Inr VNull | _ \<Rightarrow> Inl Undefined))"

definition copy_prop ::
  "('x \<Rightarrow> 'x) \<Rightarrow> prop_tables \<Rightarrow> string \<times> 'x prop_value \<Rightarrow> (string, 'x prop_value) ghash \<Rightarrow>
    (string, 'x prop_value) ghash result" where
  "copy_prop cn g = (\<lambda>(name, v) copy. case str_lookup name (known_of g) of
     None \<Rightarrow> Inl Undefined
   | Some pi \<Rightarrow> ok_bind (copy_value cn (pi_type pi) v) (\<lambda>v'. Inr (str_insert (pi_name pi) v' copy)))"

fun copy_props ::
  "('x \<Rightarrow> 'x) \<Rightarrow> prop_tables \<Rightarrow> (string, 'x prop_value) ghash \<Rightarrow> (string, 'x prop_value) ghash \<Rightarrow>
    (string, 'x prop_value) ghash result" where
  "copy_props cn g [] copy = Inr copy"
| "copy_props cn g (e # t) copy = ok_bind (copy_prop cn g e copy) (\<lambda>copy. copy_props cn g t copy)"

definition e2k_properties_copy :: "('x \<Rightarrow> 'x) \<Rightarrow> prop_tables \<Rightarrow> 'x E2kProperties \<Rightarrow> 'x E2kProperties result" where
  "e2k_properties_copy cn g props =
     (let copy = e2k_properties_new
      in ok_bind (copy_props cn g (props_set props) (props_set copy)) (\<lambda>s.
         ok_bind (copy_props cn g (props_removed props) (props_removed copy)) (\<lambda>r.
         Inr (copy\<lparr>props_set := s, props_removed := r\<rparr>))))"

fun free_props :: "prop_tables \<Rightarrow> (string, 'x prop_value) ghash \<Rightarrow> unit result" where
  "free_props g [] = Inr ()"
| "free_props g ((k, v) # t) = (case str_lookup k (known_of g) of
     None \<Rightarrow> free_props g t
   | Some pi \<Rightarrow> ok_bind (free_prop pi v) (\<lambda>_. free_props g t))"

definition e2k_properties_free :: "prop_tables \<Rightarrow> 'x E2kProperties \<Rightarrow> unit result" where
  "e2k_properties_free g props = free_props g (props_set props)"

definition e2k_properties_get_prop :: "'x E2kProperties \<Rightarrow> string \<Rightarrow> 'x prop_value" where
  "e2k_properties_get_prop props propname = (case str_lookup propname (props_set props) of
     None \<Rightarrow> VNull | Some v \<Rightarrow> v)"

definition e2k_properties_empty :: "'x E2kProperties \<Rightarrow> bool" where
  "e2k_properties_empty props \<longleftrightarrow> length (props_set props) = 0"

text \<open>The body of every setter.\<close>

definition set_prop ::
  "prop_tables \<Rightarrow> 'x E2kProperties \<Rightarrow> string \<Rightarrow> e2k_prop_type \<Rightarrow> 'x prop_value \<Rightarrow>
    ('x E2kProperties \<times> prop_tables) result" where
  "set_prop g props propname type v =
     ok_bind (get_propinfo g propname type) (\<lambda>(pi, g).
     ok_bind (free_prop pi (e2k_properties_get_prop props (pi_name pi))) (\<lambda>_.
     Inr (props\<lparr>props_set := str_insert (pi_name pi) v (props_set props),
                props_removed := str_remove (pi_name pi) (props_removed props)\<rparr>, g)))"

definition e2k_properties_set_string ::
  "prop_tables \<Rightarrow> 'x E2kProperties \<Rightarrow> string \<Rightarrow> string \<Rightarrow> ('x E2kProperties \<times> prop_tables) result" where
  "e2k_properties_set_string g props propname v = set_prop g props propname PT_STRING (VStr v)"

definition e2k_properties_set_string_array ::
  "prop_tables \<Rightarrow> 'x E2kProperties \<Rightarrow> string \<Rightarrow> string list \<Rightarrow> ('x E2kProperties \<times> prop_tables) result" where
  "e2k_properties_set_string_array g props propname v = set_prop g props propname PT_STRING_ARRAY (VStrs v)"

definition e2k_properties_set_binary ::
  "prop_tables \<Rightarrow> 'x E2kProperties \<Rightarrow> string \<Rightarrow> byte list \<Rightarrow> ('x E2kProperties \<times> prop_tables) result" where
  "e2k_properties_set_binary g props propname v = set_prop g props propname PT_BINARY (VBin v)"

definition e2k_properties_set_binary_array ::
  "prop_tables \<Rightarrow> 'x E2kProperties \<Rightarrow> string \<Rightarrow> byte list list \<Rightarrow> ('x E2kProperties \<times> prop_tables) result" where
  "e2k_properties_set_binary_array g props propname v = set_prop g props propname PT_BINARY_ARRAY (VBins v)"

definition e2k_properties_set_xml ::
  "prop_tables \<Rightarrow> 'x E2kProperties \<Rightarrow> string \<Rightarrow> 'x \<Rightarrow> ('x E2kProperties \<times> prop_tables) result" where
  "e2k_properties_set_xml g props propname v = set_prop g props propname PT_XML (VXml v)"

definition e2k_properties_set_int ::
  "prop_tables \<Rightarrow> 'x E2kProperties \<Rightarrow> string \<Rightarrow> int \<Rightarrow> ('x E2kProperties \<times> prop_tables) result" where
  "e2k_properties_set_int g props propname v = set_prop g props propname PT_INT (VStr (fmt_d 0 v))"

definition e2k_properties_set_int_array ::
  "prop_tables \<Rightarrow> 'x E2kProperties \<Rightarrow> string \<Rightarrow> string list \<Rightarrow> ('x E2kProperties \<times> prop_tables) result" where
  "e2k_properties_set_int_array g props propname v = set_prop g props propname PT_INT_ARRAY (VStrs v)"

definition e2k_properties_set_float ::
  "prop_tables \<Rightarrow> 'x E2kProperties \<Rightarrow> string \<Rightarrow> string \<Rightarrow> ('x E2kProperties \<times> prop_tables) result" where
  "e2k_properties_set_float g props propname v = set_prop g props propname PT_FLOAT (VStr v)"

definition e2k_properties_set_bool ::
  "prop_tables \<Rightarrow> 'x E2kProperties \<Rightarrow> string \<Rightarrow> bool \<Rightarrow> ('x E2kProperties \<times> prop_tables) result" where
  "e2k_properties_set_bool g props propname v = set_prop g props propname PT_BOOL (VStr (fmt_d 0 (if v then 1 else 0)))"

definition e2k_properties_set_date ::
  "prop_tables \<Rightarrow> 'x E2kProperties \<Rightarrow> string \<Rightarrow> string \<Rightarrow> ('x E2kProperties \<times> prop_tables) result" where
  "e2k_properties_set_date g props propname v = set_prop g props propname PT_DATE (VStr v)"

definition e2k_properties_set_type_as_string ::
  "prop_tables \<Rightarrow> 'x E2kProperties \<Rightarrow> string \<Rightarrow> e2k_prop_type \<Rightarrow> string \<Rightarrow> ('x E2kProperties \<times> prop_tables) result" where
  "e2k_properties_set_type_as_string g props propname type v = set_prop g props propname type (VStr v)"

definition e2k_properties_set_type_as_string_array ::
  "prop_tables \<Rightarrow> 'x E2kProperties \<Rightarrow> string \<Rightarrow> e2k_prop_type \<Rightarrow> string list \<Rightarrow> ('x E2kProperties \<times> prop_tables) result" where
  "e2k_properties_set_type_as_string_array g props propname type v = set_prop g props propname type (VStrs v)"


definition e2k_properties_remove ::
  "prop_tables \<Rightarrow> 'x E2kProperties \<Rightarrow> string \<Rightarrow> ('x E2kProperties \<times> prop_tables) result" where
  "e2k_properties_remove g props propname =
     ok_bind (get_propinfo g propname PT_UNKNOWN) (\<lambda>(pi, g).
     ok_bind (free_prop pi (e2k_properties_get_prop props (pi_name pi))) (\<lambda>_.
     Inr (props\<lparr>props_set := str_remove (pi_name pi) (props_set props),
                props_removed := str_insert (pi_name pi) VNull (props_removed props)\<rparr>, g)))"

section \<open>Traversals\<close>

text \<open>The calls of the callback, as the list of their arguments.\<close>

fun foreach_callback :: "prop_tables \<Rightarrow> string \<times> 'x prop_value \<Rightarrow> (string \<times> e2k_prop_type \<times> 'x prop_value) list" where
  "foreach_callback g (k, v) = (case str_lookup k (known_of g) of
     None \<Rightarrow> [] | Some pi \<Rightarrow> [(pi_name pi, pi_type pi, v)])"

definition e2k_properties_foreach :: "prop_tables \<Rightarrow> 'x E2kProperties \<Rightarrow> (string \<times> e2k_prop_type \<times> 'x prop_value) list" where
  "e2k_properties_foreach g props = concat (map (foreach_callback g) (props_set props))"

definition e2k_properties_foreach_removed :: "prop_tables \<Rightarrow> 'x E2kProperties \<Rightarrow> (string \<times> e2k_prop_type \<times> 'x prop_value) list" where
  "e2k_properties_foreach_removed g props = concat (map (foreach_callback g) (props_removed props))"

definition E2K_NS_TYPE :: string where
  "E2K_NS_TYPE = ''urn:uuid:c2f41010-65b3-11d1-a29f-00aa00c14882/''"

text \<open>
  The namespaces seen are remembered by pointer; a namespace has one key in the table, so comparing
  the text is the same. The state: the tables, the calls so far, and the two flags.
\<close>

record namespace_walk =
  nw_tables :: prop_tables
  nw_calls :: "(string \<times> byte) list"
  need_array_namespace :: bool
  need_type_namespace :: bool

definition foreach_namespace_callback :: "string \<Rightarrow> namespace_walk \<Rightarrow> namespace_walk result" where
  "foreach_namespace_callback key w = (case str_lookup key (known_of (nw_tables w)) of
     None \<Rightarrow> Inr w
   | Some pi \<Rightarrow>
       ok_bind (e2k_prop_namespace_name (nw_tables w) (pi_name pi)) (\<lambda>(name, g).
       ok_bind (if name \<in> set (map fst (nw_calls w)) then Inr (w\<lparr>nw_tables := g\<rparr>)
                else ok_bind (e2k_prop_namespace_abbrev g (pi_name pi)) (\<lambda>(a, g).
                       Inr (w\<lparr>nw_tables := g, nw_calls := nw_calls w @ [(name, a)]\<rparr>))) (\<lambda>w.
       let arr = (pi_type pi \<in> {PT_STRING_ARRAY, PT_BINARY_ARRAY, PT_INT_ARRAY});
           typ = (pi_type pi \<in> {PT_STRING_ARRAY, PT_BINARY_ARRAY, PT_INT_ARRAY, PT_BINARY, PT_INT, PT_BOOL, PT_FLOAT, PT_DATE})
       in Inr (w\<lparr>need_array_namespace := (need_array_namespace w \<or> arr),
                 need_type_namespace := (need_type_namespace w \<or> typ)\<rparr>))))"

fun walk_namespaces :: "string list \<Rightarrow> namespace_walk \<Rightarrow> namespace_walk result" where
  "walk_namespaces [] w = Inr w"
| "walk_namespaces (k # ks) w = ok_bind (foreach_namespace_callback k w) (walk_namespaces ks)"

definition e2k_properties_foreach_namespace ::
  "prop_tables \<Rightarrow> 'x E2kProperties \<Rightarrow> ((string \<times> byte) list \<times> prop_tables) result" where
  "e2k_properties_foreach_namespace g props =
     ok_bind (walk_namespaces (map fst (props_set props) @ map fst (props_removed props))
        \<lparr>nw_tables = g, nw_calls = [], need_array_namespace = False, need_type_namespace = False\<rparr>) (\<lambda>w.
     Inr (nw_calls w @ (if need_type_namespace w then [(E2K_NS_TYPE, byte_of_char CHR ''T'')] else []) @
            (if need_array_namespace w then [(''xml:'', byte_of_char CHR ''X'')] else []), nw_tables w))"

section \<open>The type discipline of the store\<close>

text \<open>
  The known properties are stored under their names; a property that is set is known with a definite
  type and its value has the C type of that; a property is not both set and removed.
\<close>

definition known_ok :: "prop_tables \<Rightarrow> bool" where
  "known_ok g \<longleftrightarrow> distinct (map fst (known_of g)) \<and> (\<forall>(k, pi) \<in> set (known_of g). pi_name pi = k)"

definition store_ok :: "prop_tables \<Rightarrow> 'x E2kProperties \<Rightarrow> bool" where
  "store_ok g props \<longleftrightarrow> known_ok g \<and> distinct (map fst (props_set props)) \<and> distinct (map fst (props_removed props)) \<and>
     (\<forall>(k, v) \<in> set (props_set props). map_of (props_removed props) k = None \<and>
        (\<exists>pi. map_of (known_of g) k = Some pi \<and> pi_type pi \<noteq> PT_UNKNOWN \<and> (v = VNull \<or> has_c_type (pi_type pi) v))) \<and>
     (\<forall>(k, v) \<in> set (props_removed props). v = VNull \<and> map_of (known_of g) k \<noteq> None)"

text \<open>The type a property gets when it is set as \<open>type\<close>.\<close>

definition type_of_prop :: "prop_tables \<Rightarrow> string \<Rightarrow> e2k_prop_type \<Rightarrow> e2k_prop_type" where
  "type_of_prop g name type = (case map_of (known_of g) name of
     None \<Rightarrow> type | Some pi \<Rightarrow> if pi_type pi = PT_UNKNOWN then type else pi_type pi)"

lemma known_of_Some [simp]: "known_of (g\<lparr>known_properties := Some t\<rparr>) = t"
  by (simp add: known_of_def)

lemma namespace_entry_total: "get_div name \<noteq> None \<Longrightarrow> \<exists>e g'. namespace_entry g name = Inr (e, g')"
  by (cases "lookup_namespace name (namespaces_of g)") (auto simp: namespace_entry_def Let_def)

lemma ball_table: "distinct (map fst t) \<Longrightarrow> (\<forall>(k, v) \<in> set t. P k v) \<longleftrightarrow> (\<forall>k v. map_of t k = Some v \<longrightarrow> P k v)"
  by (auto simp: map_of_eq_Some_iff)

lemma get_propinfo_ok:
  assumes "get_div name \<noteq> None" "known_ok g"
  obtains pi g' where "get_propinfo g name type = Inr (pi, g')" "pi_name pi = name"
    "pi_type pi = type_of_prop g name type" "known_of g' = str_insert name pi (known_of g)" "known_ok g'"
proof -
  have "\<exists>pi g'. get_propinfo g name type = Inr (pi, g') \<and> pi_name pi = name \<and>
    pi_type pi = type_of_prop g name type \<and> known_of g' = str_insert name pi (known_of g)"
  proof (cases "map_of (known_of g) name")
    case None
    obtain n v g'' where "namespace_entry g name = Inr ((n, v), g'')"
      using namespace_entry_total [OF assms(1), of g] by auto
    moreover obtain d where "get_div name = Some d" using assms(1) by auto
    ultimately show ?thesis using None
      by (simp add: get_propinfo_def table_lookup e2k_prop_namespace_name_def
          e2k_prop_property_name_def type_of_prop_def Let_def)
  next
    case (Some pi)
    then have "pi_name pi = name" using assms(2) by (auto simp: known_ok_def dest: map_of_SomeD)
    then show ?thesis using Some
      by (simp add: get_propinfo_def table_lookup type_of_prop_def Let_def)
  qed
  then obtain pi g' where *: "get_propinfo g name type = Inr (pi, g')" "pi_name pi = name"
    "pi_type pi = type_of_prop g name type" "known_of g' = str_insert name pi (known_of g)"
    by blast
  have "known_ok g'"
    using assms(2) *(2,4) by (auto simp: known_ok_def distinct_table_insert ball_table map_of_table_insert)
  then show thesis using that * by blast
qed

lemma store_okD:
  "store_ok g props \<Longrightarrow> (k, v) \<in> set (props_set props) \<Longrightarrow>
    \<exists>pi. map_of (known_of g) k = Some pi \<and> pi_type pi \<noteq> PT_UNKNOWN \<and> (v = VNull \<or> has_c_type (pi_type pi) v)"
  "store_ok g props \<Longrightarrow> (k, w) \<in> set (props_removed props) \<Longrightarrow> w = VNull \<and> (\<exists>pi. map_of (known_of g) k = Some pi)"
  by (fastforce simp: store_ok_def)+

lemma free_prop_get:
  assumes "store_ok g props" "pi_type pi = type_of_prop g name type"
  shows "free_prop pi (e2k_properties_get_prop props name) = Inr ()"
proof (cases "map_of (props_set props) name")
  case None
  then show ?thesis by (simp add: e2k_properties_get_prop_def table_lookup free_prop_def)
next
  case (Some v)
  then have "(name, v) \<in> set (props_set props)" by (rule map_of_SomeD)
  then have "v = VNull \<or> has_c_type (pi_type pi) v"
    using assms store_okD(1) [OF assms(1)] by (fastforce simp: type_of_prop_def)
  then show ?thesis using Some by (auto simp: e2k_properties_get_prop_def table_lookup free_prop_def)
qed

text \<open>
  C38. A setter called with a value of the C type of the property keeps the type discipline: it
  succeeds, the store holds the value, no other property changes, the property is not marked removed
  any more, and every stored value still has the C type under which it will be read and freed.
\<close>

theorem set_prop_typed:
  assumes "store_ok g props" "get_div name \<noteq> None" "type_of_prop g name type \<noteq> PT_UNKNOWN"
    and "v = VNull \<or> has_c_type (type_of_prop g name type) v"
  shows "\<exists>props' g'. set_prop g props name type v = Inr (props', g') \<and> store_ok g' props' \<and>
    (\<forall>n. e2k_properties_get_prop props' n = (if n = name then v else e2k_properties_get_prop props n)) \<and>
    map_of (props_removed props') = (map_of (props_removed props))(name := None)"
proof -
  have k: "known_ok g" and d: "distinct (map fst (props_set props))" "distinct (map fst (props_removed props))"
    using assms(1) by (simp_all add: store_ok_def)
  obtain pi g' where pi: "get_propinfo g name type = Inr (pi, g')" "pi_name pi = name"
    "pi_type pi = type_of_prop g name type" "known_of g' = str_insert name pi (known_of g)" "known_ok g'"
    using get_propinfo_ok [OF assms(2) k] by blast
  define props' where "props' = props\<lparr>props_set := str_insert name v (props_set props),
      props_removed := str_remove name (props_removed props)\<rparr>"
  have r: "set_prop g props name type v = Inr (props', g')"
    using pi free_prop_get [OF assms(1) pi(3)] by (simp add: set_prop_def props'_def)
  have "store_ok g' props'"
    using assms pi k d
    by (auto simp: store_ok_def props'_def distinct_table_insert distinct_table_remove ball_table map_of_table_insert
        map_of_table_remove)
  then show ?thesis
    using r by (auto simp: props'_def e2k_properties_get_prop_def table_lookup map_of_table_insert map_of_table_remove)
qed

theorem set_prop_typed_witness:
  "\<exists>props' g'. e2k_properties_set_string initial_tables (e2k_properties_new :: nat E2kProperties) ''DAV:displayname'' ''Inbox'' =
      Inr (props', g') \<and> store_ok g' props' \<and> e2k_properties_get_prop props' ''DAV:displayname'' = VStr ''Inbox''"
proof -
  have "store_ok initial_tables (e2k_properties_new :: nat E2kProperties)"
    by (simp add: store_ok_def known_ok_def known_of_def initial_tables_def e2k_properties_new_def)
  moreover have "get_div ''DAV:displayname'' \<noteq> None" by code_simp
  moreover have "type_of_prop initial_tables ''DAV:displayname'' PT_STRING = PT_STRING"
    by (simp add: type_of_prop_def initial_tables_def known_of_def)
  ultimately show ?thesis
    using set_prop_typed [of initial_tables "e2k_properties_new :: nat E2kProperties" "''DAV:displayname''" PT_STRING "VStr ''Inbox''"]
    by (auto simp: e2k_properties_set_string_def)
qed

text \<open>Marking a property as removed keeps the discipline as well.\<close>

lemma remove_typed:
  assumes "store_ok g props" "get_div name \<noteq> None"
  shows "\<exists>props' g'. e2k_properties_remove g props name = Inr (props', g') \<and> store_ok g' props' \<and>
    (\<forall>n. e2k_properties_get_prop props' n = (if n = name then VNull else e2k_properties_get_prop props n)) \<and>
    map_of (props_removed props') = (map_of (props_removed props))(name \<mapsto> VNull)"
proof -
  have k: "known_ok g" and d: "distinct (map fst (props_set props))" "distinct (map fst (props_removed props))"
    using assms(1) by (simp_all add: store_ok_def)
  obtain pi g' where pi: "get_propinfo g name PT_UNKNOWN = Inr (pi, g')" "pi_name pi = name"
    "pi_type pi = type_of_prop g name PT_UNKNOWN" "known_of g' = str_insert name pi (known_of g)" "known_ok g'"
    using get_propinfo_ok [OF assms(2) k] by blast
  define props' where "props' = props\<lparr>props_set := str_remove name (props_set props),
      props_removed := str_insert name VNull (props_removed props)\<rparr>"
  have r: "e2k_properties_remove g props name = Inr (props', g')"
    using pi free_prop_get [OF assms(1) pi(3)] by (simp add: e2k_properties_remove_def props'_def)
  have "store_ok g' props'"
    using assms pi k d
    by (auto simp: store_ok_def props'_def distinct_table_insert distinct_table_remove ball_table map_of_table_insert
        map_of_table_remove)
  then show ?thesis
    using r by (auto simp: props'_def e2k_properties_get_prop_def table_lookup map_of_table_insert map_of_table_remove)
qed

text \<open>
  The type of a property is fixed when it is first set: setting it later with another C type stores
  a value that is then freed through the wrong one.
\<close>

lemma set_prop_confused:
  assumes "known_ok g" "get_div name \<noteq> None" "type_of_prop g name type \<noteq> PT_UNKNOWN"
    and "\<not> has_c_type (type_of_prop g name type) v" "v \<noteq> VNull"
    and "set_prop g e2k_properties_new name type v = Inr (props', g')"
  shows "e2k_properties_free g' props' = Inl Undefined"
proof -
  obtain pi h where pi: "get_propinfo g name type = Inr (pi, h)" "pi_name pi = name"
    "pi_type pi = type_of_prop g name type" "known_of h = str_insert name pi (known_of g)"
    using get_propinfo_ok [OF assms(2,1)] by metis
  then have "g' = h" "props_set props' = [(name, v)]"
    using assms(6) by (auto simp: set_prop_def e2k_properties_new_def ok_bind_eq_Inr)
  then show ?thesis
    using pi assms(4,5)
    by (simp add: e2k_properties_free_def table_lookup map_of_table_insert free_prop_def)
qed

section \<open>Copies\<close>

lemma copy_binary_array_all: "copy_binary_array orig copy = copy @ orig"
  by (induction orig arbitrary: copy) (simp_all add: Let_def g_ptr_array_add_def g_byte_array_append_def)

lemma copy_string_array_all: "copy_string_array orig copy = copy @ orig"
  by (induction orig arbitrary: copy) (simp_all add: g_ptr_array_add_def)

text \<open>The values that can be copied under a type: no array of integers, and no null pointer for a loop.\<close>

definition copyable_value :: "e2k_prop_type \<Rightarrow> 'x prop_value \<Rightarrow> bool" where
  "copyable_value type v \<longleftrightarrow>
     (if v = VNull then type \<notin> {PT_BINARY_ARRAY, PT_STRING_ARRAY, PT_BINARY} else type \<noteq> PT_INT_ARRAY)"

lemma copy_value_exact:
  "v = VNull \<or> has_c_type type v \<Longrightarrow>
    copy_value cn type v = (if copyable_value type v then Inr (map_prop_value cn v) else Inl Undefined)"
  by (cases type; cases v)
    (simp_all add: copy_value_def copyable_value_def copy_binary_array_all copy_string_array_all g_byte_array_append_def)

definition well_typed :: "prop_tables \<Rightarrow> string \<times> 'x prop_value \<Rightarrow> bool" where
  "well_typed g = (\<lambda>(k, v). case map_of (known_of g) k of
     None \<Rightarrow> False | Some pi \<Rightarrow> v = VNull \<or> has_c_type (pi_type pi) v)"

definition copyable_prop :: "prop_tables \<Rightarrow> string \<times> 'x prop_value \<Rightarrow> bool" where
  "copyable_prop g = (\<lambda>(k, v). case map_of (known_of g) k of
     None \<Rightarrow> False | Some pi \<Rightarrow> copyable_value (pi_type pi) v)"

lemma copy_prop_exact:
  assumes "known_ok g" "well_typed g e" "fst e \<notin> set (map fst u)"
  shows "copy_prop cn g e u =
    (if copyable_prop g e then Inr (u @ [apsnd (map_prop_value cn) e]) else Inl Undefined)"
proof -
  obtain k v where e: "e = (k, v)" by (cases e)
  obtain pi where pi: "map_of (known_of g) k = Some pi" "v = VNull \<or> has_c_type (pi_type pi) v"
    using assms(2) e by (auto simp: well_typed_def split: option.splits)
  have "pi_name pi = k" using pi(1) assms(1) by (auto simp: known_ok_def dest: map_of_SomeD)
  then show ?thesis using pi(1) copy_value_exact [OF pi(2), of cn] assms(3) e
    by (simp add: copy_prop_def copyable_prop_def table_lookup table_insert_new)
qed

lemma copy_props_exact:
  assumes "known_ok g" "distinct (map fst (u @ t))" "\<forall>e \<in> set t. well_typed g e"
  shows "copy_props cn g t u =
    (if \<forall>e \<in> set t. copyable_prop g e then Inr (u @ map (apsnd (map_prop_value cn)) t) else Inl Undefined)"
  using assms(2,3)
proof (induction t arbitrary: u)
  case (Cons e t)
  have "fst e \<notin> set (map fst u)" using Cons.prems(1) by auto
  moreover have "distinct (map fst ((u @ [apsnd (map_prop_value cn) e]) @ t))" using Cons.prems(1) by simp
  moreover have "well_typed g e" "\<forall>e \<in> set t. well_typed g e" using Cons.prems(2) by simp_all
  ultimately show ?case
    using copy_prop_exact [OF assms(1), of e u cn] Cons.IH [of "u @ [apsnd (map_prop_value cn) e]"]
    by (auto simp del: map_append set_map)
qed simp

text \<open>
  C39. The copy of a well-typed store holds the same removed properties and, under the same names, the
  same values, every XML node being replaced with its copy; unless a null pointer is stored under an
  array or binary type (as for a property of such a type that is marked removed), or an array of
  integers is stored, in which case the copy is undefined.
\<close>

theorem copy_exact:
  fixes props :: "'x E2kProperties"
  assumes "store_ok g props"
  shows "e2k_properties_copy cn g props =
    (if \<forall>e \<in> set (props_set props @ props_removed props). copyable_prop g e
     then Inr (props\<lparr>props_set := map (\<lambda>(k, v). (k, map_prop_value cn v)) (props_set props)\<rparr>)
     else Inl Undefined)"
proof -
  have s: "known_ok g" "distinct (map fst ([] @ props_set props))" "distinct (map fst ([] @ props_removed props))"
    using assms by (simp_all add: store_ok_def)
  have "\<forall>e \<in> set (props_set props). well_typed g e" "\<forall>e \<in> set (props_removed props). well_typed g e"
    using store_okD [OF assms] by (force simp: well_typed_def)+
  moreover have "map (apsnd (map_prop_value cn)) (props_removed props) = props_removed props"
    using store_okD(2) [OF assms] by (intro map_idI) fastforce
  ultimately show ?thesis
    using copy_props_exact [OF s(1,2)] copy_props_exact [OF s(1,3)]
    by (auto simp: e2k_properties_copy_def e2k_properties_new_def Let_def apsnd_def map_prod_def id_def)
qed

definition sample_tables :: prop_tables where
  "sample_tables = \<lparr>known_properties = Some [(''DAV:displayname'', \<lparr>pi_name = ''DAV:displayname'', pi_namespace = ''DAV:'',
       pi_short_name = ''displayname'', pi_type = PT_STRING, pi_proptag = 0\<rparr>),
     (''urn:x/blob'', \<lparr>pi_name = ''urn:x/blob'', pi_namespace = ''urn:x/'', pi_short_name = ''blob'',
       pi_type = PT_BINARY, pi_proptag = 0\<rparr>)],
     namespaces = None, next_namespace = 97\<rparr>"

theorem copy_exact_witness:
  "(let p = \<lparr>props_set = [(''urn:x/blob'', VBin [1, 2])], props_removed = [(''DAV:displayname'', VNull)]\<rparr> :: nat E2kProperties
    in e2k_properties_copy (\<lambda>n. n) sample_tables p = Inr p)"
proof -
  let ?p = "\<lparr>props_set = [(''urn:x/blob'', VBin [1, 2])], props_removed = [(''DAV:displayname'', VNull)]\<rparr> :: nat E2kProperties"
  have "store_ok sample_tables ?p" by (simp add: store_ok_def known_ok_def known_of_def sample_tables_def)
  from copy_exact [OF this, of "\<lambda>n. n"] show ?thesis
    by (simp add: copyable_prop_def copyable_value_def known_of_def sample_tables_def)
qed

text \<open>
  A property of type binary that is marked removed makes the copy read through a null pointer, and one
  that holds an array of integers makes it read a string through a pointer to an array.
\<close>

lemma copy_removed_binary:
  "e2k_properties_copy cn sample_tables \<lparr>props_set = [], props_removed = [(''urn:x/blob'', VNull)]\<rparr> = Inl Undefined"
  by (simp add: e2k_properties_copy_def e2k_properties_new_def copy_prop_def copy_value_def table_lookup
      known_of_def sample_tables_def Let_def)

lemma copy_int_array: "copy_value cn PT_INT_ARRAY (VStrs l) = Inl Undefined"
  by (simp add: copy_value_def)

section \<open>Abbreviations of namespaces\<close>

text \<open>Names in the same namespace, as far as the table can tell: case is ignored but in the hash.\<close>

definition same_namespace :: "string \<Rightarrow> string \<Rightarrow> bool" where
  "same_namespace p q \<longleftrightarrow> prop_hash p = prop_hash q \<and> prop_equal p q"

lemma prop_equal_laws:
  "prop_equal p q \<Longrightarrow> prop_equal q p" "prop_equal p q \<Longrightarrow> prop_equal q r \<Longrightarrow> prop_equal p r"
  "get_div p \<noteq> None \<Longrightarrow> prop_equal p p"
  by (auto simp: prop_equal_def split: option.splits)

interpretation ns: ghash_key "\<lambda>p q. p = q \<or> same_namespace p q" prop_hash
  by unfold_locales (auto simp: same_namespace_def intro: prop_equal_laws)

lemma get_div_namespace:
  assumes "get_div p = Some d"
  shows "get_div (take (d + 1) p) = Some d"
proof -
  have last: "strrchr (take (Suc d) p) c = Some d" if "strrchr p c = Some d" for c
  proof -
    have "d < length p" "p ! d = c" using strrchr_SomeD [OF that] by auto
    then have "take (Suc d) p = take d p @ [c]" by (simp add: take_Suc_conv_app_nth)
    then show ?thesis using strrchr_append_tail [of c "[]" "take d p"] \<open>d < length p\<close> by simp
  qed
  show ?thesis
  proof (cases "strrchr p CHR ''/''")
    case None
    then have n: "strrchr (take (Suc d) p) CHR ''/'' = None" by (auto dest: in_set_takeD)
    show ?thesis using None n assms last [of "CHR '':''"] by (simp add: get_div_def del: strrchr_None)
  next
    case (Some i)
    then show ?thesis using assms last [of "CHR ''/''"] by (simp add: get_div_def)
  qed
qed

lemma same_namespace_take:
  assumes "get_div p = Some d"
  shows "same_namespace (take (d + 1) p) p"
proof -
  have "d < length p"
    using assms by (auto simp: get_div_def split: option.splits dest: strrchr_SomeD)
  then show ?thesis
    using get_div_namespace [OF assms] assms
    by (cases p) (auto simp: same_namespace_def prop_equal_def prop_hash_def take_Cons' min_def)
qed

text \<open>
  The entries behind the one for \<open>DAV\<close>: their abbreviations are numbered from \<open>a\<close> on, and no two of
  them are the same namespace.
\<close>

definition ns_entries :: "prop_tables \<Rightarrow> (string \<times> u32) list" where
  "ns_entries g = tl (namespaces_of g)"

definition namespaces_ok :: "prop_tables \<Rightarrow> bool" where
  "namespaces_ok g \<longleftrightarrow> (let es = ns_entries g in
     namespaces_of g = (''DAV'', 68) # es \<and> next_namespace g = 97 + of_nat (length es) \<and>
     (\<forall>i < length es. get_div (fst (es ! i)) \<noteq> None \<and> snd (es ! i) = 97 + of_nat i) \<and>
     (\<forall>i < length es. \<forall>j < i. \<not> same_namespace (fst (es ! j)) (fst (es ! i))))"

lemma get_div_DAV: "get_div ''DAV'' = None"
  by (simp add: get_div_def del: strrchr_None)

lemma same_namespace_laws:
  "same_namespace p q \<Longrightarrow> same_namespace q p"
  "same_namespace p q \<Longrightarrow> same_namespace q r \<Longrightarrow> same_namespace p r"
  "get_div p \<noteq> None \<Longrightarrow> same_namespace p p"
  by (auto simp: same_namespace_def intro: prop_equal_laws)

lemma hash_match_ns: "hash_match prop_equal prop_hash p e \<longleftrightarrow> same_namespace (fst e) p"
  by (auto simp: hash_match_def same_namespace_def)

text \<open>The entry for \<open>DAV\<close> has no separator in its key, so no name is ever found in it.\<close>

lemma DAV_never_found: "\<not> same_namespace ''DAV'' p"
  by (simp add: same_namespace_def prop_equal_def get_div_DAV)

lemma lookup_entries:
  assumes "namespaces_ok g"
  shows "lookup_namespace p (namespaces_of g) = find (\<lambda>e. same_namespace (fst e) p) (ns_entries g)"
proof -
  have "lookup_namespace p t = find (\<lambda>e. same_namespace (fst e) p) t" for t
    by (induction t) (simp_all add: lookup_namespace_def hash_match_ns)
  moreover have "namespaces_of g = (''DAV'', 68) # ns_entries g"
    using assms by (simp add: namespaces_ok_def Let_def)
  ultimately show ?thesis by (simp add: DAV_never_found)
qed

lemma hash_insert_none:
  "find (hash_match eq h k) t = None \<Longrightarrow> hash_insert eq h k v t = t @ [(k, v)]"
  by (induction t) (auto split: if_splits)

lemma same_namespace_left: "same_namespace k p \<Longrightarrow> same_namespace e k \<longleftrightarrow> same_namespace e p"
  using same_namespace_laws by blast

lemma namespace_entry_spec:
  assumes "namespaces_ok g" "get_div p \<noteq> None"
  shows "\<exists>e g' xs. namespace_entry g p = Inr (e, g') \<and> namespaces_ok g' \<and> ns_entries g' = ns_entries g @ xs \<and>
    length xs \<le> 1 \<and> e \<in> set (ns_entries g') \<and> same_namespace (fst e) p"
proof -
  obtain d where d: "get_div p = Some d" using assms(2) by auto
  define es where "es = ns_entries g"
  have t: "namespaces_of g = (''DAV'', 68) # es" using assms(1) by (simp add: namespaces_ok_def Let_def es_def)
  show ?thesis
  proof (cases "find (\<lambda>e. same_namespace (fst e) p) es")
    case (Some e)
    then have "e \<in> set es" "same_namespace (fst e) p" by (auto simp: find_Some_iff)
    moreover have "namespace_entry g p = Inr (e, g\<lparr>namespaces := Some (namespaces_of g)\<rparr>)"
      using Some d lookup_entries [OF assms(1)] by (simp add: namespace_entry_def es_def Let_def)
    moreover have "namespaces_of (g\<lparr>namespaces := Some (namespaces_of g)\<rparr>) = namespaces_of g"
      by (simp add: namespaces_of_def)
    ultimately show ?thesis using assms(1)
      by (intro exI [of _ e] exI [of _ "g\<lparr>namespaces := Some (namespaces_of g)\<rparr>"] exI [of _ "[]"])
        (simp add: namespaces_ok_def ns_entries_def es_def [unfolded ns_entries_def])
  next
    case None
    define k where "k = take (d + 1) p"
    define g' where "g' = g\<lparr>namespaces := Some (namespaces_of g @ [(k, next_namespace g)]),
      next_namespace := next_namespace g + 1\<rparr>"
    have k: "same_namespace k p" "get_div k = Some d"
      using same_namespace_take [OF d] get_div_namespace [OF d] by (simp_all add: k_def)
    have lk: "lookup_namespace p (namespaces_of g) = None"
      using None lookup_entries [OF assms(1)] by (simp add: es_def)
    then have "find (hash_match prop_equal prop_hash k) (namespaces_of g) = None"
      using k(1) by (auto simp: lookup_namespace_def hash_match_ns find_None_iff same_namespace_left)
    then have r: "namespace_entry g p = Inr ((k, next_namespace g), g')"
      using d lk by (simp add: namespace_entry_def Let_def k_def g'_def hash_insert_none)
    have es': "namespaces_of g' = (''DAV'', 68) # es @ [(k, next_namespace g)]"
      by (simp add: namespaces_of_def [of "g\<lparr>namespaces := x, next_namespace := y\<rparr>" for x y] g'_def t)
    have n: "next_namespace g' = next_namespace g + 1" by (simp add: g'_def)
    have e': "ns_entries g' = es @ [(k, next_namespace g)]" "ns_entries g = es"
      using es' by (simp_all add: ns_entries_def t)
    have "\<forall>e \<in> set es. \<not> same_namespace (fst e) k"
      using None same_namespace_left [OF k(1)] by (auto simp: find_None_iff)
    then have "namespaces_ok g'"
      using assms(1) k(2) es' t n
      by (auto simp: namespaces_ok_def Let_def e' nth_append less_Suc_eq)
    then show ?thesis using r e' k(1)
      by (intro exI [of _ "(k, next_namespace g)"] exI [of _ g'] exI [of _ "[(k, next_namespace g)]"]) simp
  qed
qed

lemma ucast_small_eq:
  "m < 256 \<Longrightarrow> n < 256 \<Longrightarrow> (ucast (of_nat m :: u32) :: byte) = ucast (of_nat n :: u32) \<longleftrightarrow> m = n"
proof -
  have u: "unat (ucast (of_nat k :: u32) :: byte) = k" if "k < 256" for k
  proof -
    have "unat (of_nat k :: u32) = k" using that by (simp add: unat_of_nat_u32)
    then show ?thesis using that by (simp add: unsigned_ucast_eq take_bit_nat_eq_self)
  qed
  show "m < 256 \<Longrightarrow> n < 256 \<Longrightarrow> ?thesis" by (metis u)
qed

lemma abbrev_index:
  assumes "namespaces_ok g" "length (ns_entries g) < 160" "e \<in> set (ns_entries g)" "f \<in> set (ns_entries g)"
  shows "(ucast (snd e) :: byte) = ucast (snd f) \<longleftrightarrow> same_namespace (fst e) (fst f)"
proof -
  define es where "es = ns_entries g"
  obtain i j where i: "i < length es" "es ! i = e" and j: "j < length es" "es ! j = f"
    using assms(3,4) by (auto simp: in_set_conv_nth es_def)
  have v: "snd e = of_nat (97 + i)" "snd f = of_nat (97 + j)" and d: "get_div (fst e) \<noteq> None"
    and ne: "\<forall>i < length es. \<forall>j < i. \<not> same_namespace (fst (es ! j)) (fst (es ! i))"
    using assms(1) i j by (auto simp: namespaces_ok_def Let_def es_def)
  have "i = j \<longleftrightarrow> same_namespace (fst e) (fst f)"
  proof (cases i j rule: linorder_cases)
    case less
    then show ?thesis using ne i j same_namespace_laws(1) by blast
  next
    case equal
    then show ?thesis using i j d same_namespace_laws(3) by auto
  next
    case greater
    then show ?thesis using ne i j same_namespace_laws(1) by blast
  qed
  moreover have "97 + i < 256" "97 + j < 256" using i(1) j(1) assms(2) by (simp_all add: es_def)
  ultimately show ?thesis unfolding v by (subst ucast_small_eq) simp_all
qed

text \<open>Two calls after another, and the first of them again.\<close>

lemma abbrevs_assigned:
  assumes "namespaces_ok g" "length (ns_entries g) < 157" "get_div p \<noteq> None" "get_div q \<noteq> None"
  shows "\<exists>a g1 b g2. e2k_prop_namespace_abbrev g p = Inr (a, g1) \<and> e2k_prop_namespace_abbrev g1 q = Inr (b, g2) \<and>
    namespaces_ok g2 \<and> (a = b \<longleftrightarrow> same_namespace p q) \<and> (\<exists>g3. e2k_prop_namespace_abbrev g2 p = Inr (a, g3))"
proof -
  obtain e g1 xs where 1: "namespace_entry g p = Inr (e, g1)" "namespaces_ok g1" "ns_entries g1 = ns_entries g @ xs"
    "length xs \<le> 1" "e \<in> set (ns_entries g1)" "same_namespace (fst e) p"
    using namespace_entry_spec [OF assms(1,3)] by blast
  obtain f g2 ys where 2: "namespace_entry g1 q = Inr (f, g2)" "namespaces_ok g2" "ns_entries g2 = ns_entries g1 @ ys"
    "length ys \<le> 1" "f \<in> set (ns_entries g2)" "same_namespace (fst f) q"
    using namespace_entry_spec [OF 1(2) assms(4)] by blast
  obtain h g3 zs where 3: "namespace_entry g2 p = Inr (h, g3)" "namespaces_ok g3" "ns_entries g3 = ns_entries g2 @ zs"
    "length zs \<le> 1" "h \<in> set (ns_entries g3)" "same_namespace (fst h) p"
    using namespace_entry_spec [OF 2(2) assms(3)] by blast
  have "length (ns_entries g2) < 160" and len3: "length (ns_entries g3) < 160"
    using 1(3,4) 2(3,4) 3(3,4) assms(2) by simp_all
  then have "(ucast (snd e) :: byte) = ucast (snd f) \<longleftrightarrow> same_namespace (fst e) (fst f)"
    using abbrev_index [OF 2(2), of e f] 1(5) 2(3,5) by simp
  then have "(ucast (snd e) :: byte) = ucast (snd f) \<longleftrightarrow> same_namespace p q"
    using 1(6) 2(6) same_namespace_laws by blast
  moreover have "e \<in> set (ns_entries g3)" using 1(5) 2(3) 3(3) by simp
  then have "(ucast (snd h) :: byte) = ucast (snd e) \<longleftrightarrow> same_namespace (fst h) (fst e)"
    by (intro abbrev_index [OF 3(2) len3 3(5)])
  then have "(ucast (snd h) :: byte) = ucast (snd e)"
    using 1(6) 3(6) same_namespace_laws by blast
  ultimately show ?thesis
    using 1(1) 2(1,2) 3(1) by (simp add: e2k_prop_namespace_abbrev_def case_prod_beta')
qed

text \<open>
  A property name and its namespace, said without the functions of the table: the namespace is what
  comes before the last slash or, in a name without a slash, before the last colon.
\<close>

definition named_in :: "string \<Rightarrow> string \<Rightarrow> char \<Rightarrow> string \<Rightarrow> bool" where
  "named_in p ns c short \<longleftrightarrow> p = ns @ c # short \<and>
     (c = CHR ''/'' \<and> CHR ''/'' \<notin> set short \<or>
      c = CHR '':'' \<and> CHR '':'' \<notin> set short \<and> CHR ''/'' \<notin> set p)"

lemma named_in_div:
  assumes "named_in p ns c short"
  shows "get_div p = Some (length ns)" "take (length ns) p = ns" "take (length ns + 1) p = ns @ [c]"
proof -
  have p: "p = ns @ c # short" using assms by (simp add: named_in_def)
  show "get_div p = Some (length ns)"
  proof (cases "c = CHR ''/''")
    case True
    then show ?thesis using assms p by (simp add: named_in_def get_div_def strrchr_append_tail)
  next
    case False
    then have "c = CHR '':''" "CHR '':'' \<notin> set short" "strrchr p CHR ''/'' = None" using assms by (auto simp: named_in_def)
    then show ?thesis by (simp add: get_div_def p strrchr_append_tail del: strrchr_None)
  qed
qed (use assms in \<open>simp_all add: named_in_def\<close>)

lemma same_namespace_named:
  assumes "named_in p ns c x" "named_in q ms d y"
  shows "ns @ [c] = ms @ [d] \<Longrightarrow> same_namespace p q" "same_namespace p q \<Longrightarrow> map tolower ns = map tolower ms"
proof -
  note p = named_in_div [OF assms(1)] and q = named_in_div [OF assms(2)]
  show "same_namespace p q \<Longrightarrow> map tolower ns = map tolower ms"
    using p q by (simp add: same_namespace_def prop_equal_def)
  assume "ns @ [c] = ms @ [d]"
  then have "take (length ns + 1) p = take (length ms + 1) q" using p q by simp
  moreover have "same_namespace (take (length ns + 1) p) p" "same_namespace (take (length ms + 1) q) q"
    by (rule same_namespace_take [OF p(1)], rule same_namespace_take [OF q(1)])
  ultimately show "same_namespace p q" using same_namespace_laws by metis
qed

text \<open>
  C40. As long as fewer than 157 namespaces are in the table, two properties whose names have literally
  the same namespace, with its separator, get the same abbreviation, and two whose namespaces differ
  in more than the case of letters get different ones; an abbreviation that was given stays; and the
  table keeps its invariant. (Namespaces that differ in case only are left open.)
\<close>

theorem namespace_abbrev_unique:
  assumes "namespaces_ok g" "length (ns_entries g) < 157" "named_in p ns c x" "named_in q ms d y"
  shows "\<exists>a g1 b g2. e2k_prop_namespace_abbrev g p = Inr (a, g1) \<and> e2k_prop_namespace_abbrev g1 q = Inr (b, g2) \<and>
    namespaces_ok g2 \<and> (ns @ [c] = ms @ [d] \<longrightarrow> a = b) \<and> (map tolower ns \<noteq> map tolower ms \<longrightarrow> a \<noteq> b) \<and>
    (\<exists>g3. e2k_prop_namespace_abbrev g2 p = Inr (a, g3))"
proof -
  have "get_div p \<noteq> None" "get_div q \<noteq> None" using named_in_div assms(3,4) by blast+
  then show ?thesis
    using abbrevs_assigned [OF assms(1,2)] same_namespace_named [OF assms(3,4)] by metis
qed

theorem namespace_abbrev_unique_witness:
  "\<exists>a g1 b g2. e2k_prop_namespace_abbrev initial_tables ''DAV:displayname'' = Inr (a, g1) \<and>
    e2k_prop_namespace_abbrev g1 ''urn:schemas:mailheader:subject'' = Inr (b, g2) \<and> a \<noteq> b"
proof -
  have e: "ns_entries initial_tables = []"
    by (simp add: ns_entries_def namespaces_of_def initial_tables_def setup_namespaces_def)
  then have ok: "namespaces_ok initial_tables"
    by (simp add: namespaces_ok_def Let_def)
      (simp add: namespaces_of_def initial_tables_def setup_namespaces_def)
  have n: "named_in ''DAV:displayname'' ''DAV'' CHR '':'' ''displayname''"
    "named_in ''urn:schemas:mailheader:subject'' ''urn:schemas:mailheader'' CHR '':'' ''subject''"
    by (simp_all add: named_in_def)
  have "map tolower ''DAV'' \<noteq> map tolower ''urn:schemas:mailheader''" by code_simp
  then show ?thesis using namespace_abbrev_unique [OF ok _ n] e by auto
qed

text \<open>The separator is not compared: two namespaces that differ in it only share an entry.\<close>

lemma separator_ignored:
  "same_namespace ''urn:x'' ''urn/x'' \<and> named_in ''urn:x'' ''urn'' CHR '':'' ''x'' \<and> named_in ''urn/x'' ''urn'' CHR ''/'' ''x''"
  by (simp add: named_in_def) code_simp

text \<open>
  The abbreviation prepared for \<open>DAV:\<close> is never used, and two spellings of a namespace that the
  equality function identifies have different hashes, so they get different entries.
\<close>

lemma DAV_abbrev:
  "\<exists>g. e2k_prop_namespace_abbrev initial_tables ''DAV:displayname'' = Inr (97, g)"
  by (simp add: e2k_prop_namespace_abbrev_def namespace_entry_def get_div_def lookup_namespace_def namespaces_of_def
      initial_tables_def setup_namespaces_def hash_match_ns DAV_never_found Let_def del: strrchr_None)

lemma prop_hash_case: "prop_equal ''DAV:x'' ''dav:x'' \<and> prop_hash ''DAV:x'' \<noteq> prop_hash ''dav:x''"
  by code_simp

end
