(* ===== verification/Folder_Tree.thy ===== *)
theory Folder_Tree
  imports C_Text Hash_Table
begin

text \<open>
  The tree of folders (server/storage/e-folder-tree.c): \<open>Folder\<close> structures linked by parent pointers
  and lists of subfolders, and two hash tables, one from paths to folders and one from the client's
  data pointers to the paths. The structures live in an explicit heap: an address is a number, a
  freed one has no contents, and following it is \<open>Undefined\<close>. A data pointer is a number, 0 for
  \<open>NULL\<close>. The calls of the destroy notification are recorded.
\<close>

section \<open>The state\<close>

record folder =
  fparent :: "nat option"
  fpath :: string
  fdata :: nat
  fsubs :: "nat list"

text \<open>
  The keys of \<open>path_to_folder\<close> and the values of \<open>data_to_path\<close> are pointers into the folders; the
  first are modelled by their text, the second by the address of the folder.
\<close>

record folder_tree =
  fheap :: "nat \<Rightarrow> folder option"
  fnext :: nat
  path_to_folder :: "(string, nat) ghash"
  data_to_path :: "(nat, nat) ghash"
  notified :: "(string \<times> nat) list"

definition data_hash :: "nat \<Rightarrow> u32" where
  "data_hash d = of_nat d"

interpretation data: ghash_key "(=)" data_hash
  by unfold_locales auto

definition path_is_absolute :: "string \<Rightarrow> bool" where
  "path_is_absolute path \<longleftrightarrow> path \<noteq> [] \<and> hd path = CHR ''/''"

definition get_parent_path :: "string \<Rightarrow> string" where
  "get_parent_path path = (case strrchr path CHR ''/'' of
     None \<Rightarrow> path
   | Some last_separator \<Rightarrow> if last_separator = 0 then ''/'' else take last_separator path)"

definition deref :: "folder_tree \<Rightarrow> nat \<Rightarrow> folder result" where
  "deref t a = (case fheap t a of None \<Rightarrow> Inl Undefined | Some f \<Rightarrow> Inr f)"

definition update_folder :: "nat \<Rightarrow> (folder \<Rightarrow> folder) \<Rightarrow> folder_tree \<Rightarrow> folder_tree" where
  "update_folder a u t = t\<lparr>fheap := (fheap t)(a := map_option u (fheap t a))\<rparr>"

section \<open>Folders\<close>

definition folder_new :: "string \<Rightarrow> nat \<Rightarrow> folder_tree \<Rightarrow> nat \<times> folder_tree" where
  "folder_new path data t =
     (fnext t, t\<lparr>fheap := (fheap t)(fnext t := Some \<lparr>fparent = None, fpath = path, fdata = data, fsubs = []\<rparr>),
                 fnext := fnext t + 1\<rparr>)"

definition folder_remove_subfolder :: "nat \<Rightarrow> nat \<Rightarrow> folder_tree \<Rightarrow> folder_tree" where
  "folder_remove_subfolder folder subfolder t =
     update_folder subfolder (\<lambda>f. f\<lparr>fparent := None\<rparr>)
       (update_folder folder (\<lambda>f. f\<lparr>fsubs := remove1 subfolder (fsubs f)\<rparr>) t)"

definition folder_add_subfolder :: "nat \<Rightarrow> nat \<Rightarrow> folder_tree \<Rightarrow> folder_tree" where
  "folder_add_subfolder folder subfolder t =
     update_folder subfolder (\<lambda>f. f\<lparr>fparent := Some folder\<rparr>)
       (update_folder folder (\<lambda>f. f\<lparr>fsubs := subfolder # fsubs f\<rparr>) t)"

text \<open>The assertion that there are no subfolders ends the program when it fails.\<close>

definition folder_destroy :: "nat \<Rightarrow> folder_tree \<Rightarrow> folder_tree result" where
  "folder_destroy folder t = ok_bind (deref t folder) (\<lambda>f.
     if fsubs f \<noteq> [] then Inl Undefined
     else ok_bind (case fparent f of
            None \<Rightarrow> Inr t
          | Some p \<Rightarrow> ok_bind (deref t p) (\<lambda>_. Inr (folder_remove_subfolder p folder t))) (\<lambda>t.
       Inr (t\<lparr>fheap := (fheap t)(folder := None)\<rparr>)))"

text \<open>The part of \<open>remove_folder\<close> behind the loop over the subfolders.\<close>

definition unlink_folder :: "nat \<Rightarrow> folder_tree \<Rightarrow> folder_tree result" where
  "unlink_folder folder t =
     (let t = update_folder folder (\<lambda>f. f\<lparr>fsubs := []\<rparr>) t
      in ok_bind (deref t folder) (\<lambda>f.
         let t = t\<lparr>path_to_folder := str_remove (fpath f) (path_to_folder t),
                   data_to_path := hash_remove (=) data_hash (fdata f) (data_to_path t),
                   notified := notified t @ [(fpath f, fdata f)]\<rparr>
         in folder_destroy folder t))"

fun remove_folder :: "nat \<Rightarrow> nat \<Rightarrow> folder_tree \<Rightarrow> folder_tree result"
  and remove_subfolders :: "nat \<Rightarrow> nat list \<Rightarrow> folder_tree \<Rightarrow> folder_tree result" where
  "remove_folder 0 folder t = Inl Out_of_fuel"
| "remove_folder (Suc n) folder t = ok_bind (deref t folder) (\<lambda>f.
     ok_bind (remove_subfolders n (fsubs f) t) (\<lambda>t. unlink_folder folder t))"
| "remove_subfolders n [] t = Inr t"
| "remove_subfolders n (s # ss) t = ok_bind (deref t s) (\<lambda>_.
     ok_bind (remove_folder n s (update_folder s (\<lambda>f. f\<lparr>fparent := None\<rparr>) t)) (\<lambda>t.
     remove_subfolders n ss t))"

text \<open>Fuel for the depth of the tree: one more than the number of folders.\<close>

definition depth_fuel :: "folder_tree \<Rightarrow> nat" where
  "depth_fuel t = Suc (length (path_to_folder t))"

section \<open>Operations\<close>

definition insert_folder :: "string \<Rightarrow> nat \<Rightarrow> nat \<Rightarrow> folder_tree \<Rightarrow> folder_tree" where
  "insert_folder path data folder t =
     t\<lparr>path_to_folder := str_insert path folder (path_to_folder t),
       data_to_path := hash_insert (=) data_hash data folder (data_to_path t)\<rparr>"

definition e_folder_tree_add :: "folder_tree \<Rightarrow> string \<Rightarrow> nat \<Rightarrow> (bool \<times> folder_tree) result" where
  "e_folder_tree_add t path data =
     (if \<not> path_is_absolute path then Inr (False, t)
      else if path = ''/'' then
        case str_lookup path (path_to_folder t) of
          None \<Rightarrow> (let (folder, t) = folder_new path data t in Inr (True, insert_folder path data folder t))
        | Some old \<Rightarrow> ok_bind (deref t old) (\<lambda>f.
            if fsubs f \<noteq> [] then Inr (False, t)
            else ok_bind (remove_folder (depth_fuel t) old t) (\<lambda>t.
              let (folder, t) = folder_new path data t in Inr (True, insert_folder path data folder t)))
      else case str_lookup (get_parent_path path) (path_to_folder t) of
        None \<Rightarrow> Inr (False, t)
      | Some parent_folder \<Rightarrow>
          if str_lookup path (path_to_folder t) \<noteq> None then Inr (False, t)
          else if hash_lookup (=) data_hash data (data_to_path t) \<noteq> None then Inr (False, t)
          else (let (folder, t) = folder_new path data t
                in ok_bind (deref t parent_folder) (\<lambda>_.
                   Inr (True, insert_folder path data folder (folder_add_subfolder parent_folder folder t)))))"

definition e_folder_tree_new :: "folder_tree result" where
  "e_folder_tree_new =
     (let new = \<lparr>fheap = (\<lambda>_. None), fnext = 0, path_to_folder = [], data_to_path = [], notified = []\<rparr>
      in ok_bind (e_folder_tree_add new ''/'' 0) (\<lambda>(_, t). Inr t))"

definition e_folder_tree_remove :: "folder_tree \<Rightarrow> string \<Rightarrow> (bool \<times> folder_tree) result" where
  "e_folder_tree_remove t path =
     (if \<not> path_is_absolute path then Inr (False, t)
      else case str_lookup path (path_to_folder t) of
        None \<Rightarrow> Inr (False, t)
      | Some folder \<Rightarrow> ok_bind (remove_folder (depth_fuel t) folder t) (\<lambda>t. Inr (True, t)))"

text \<open>Destroying a tree whose root was removed follows a null pointer.\<close>

definition e_folder_tree_destroy :: "folder_tree \<Rightarrow> folder_tree result" where
  "e_folder_tree_destroy t = (case str_lookup ''/'' (path_to_folder t) of
     None \<Rightarrow> Inl Undefined
   | Some root \<Rightarrow> ok_bind (remove_folder (depth_fuel t) root t) (\<lambda>t.
       Inr (t\<lparr>path_to_folder := [], data_to_path := []\<rparr>)))"

definition e_folder_tree_get_folder :: "folder_tree \<Rightarrow> string \<Rightarrow> nat result" where
  "e_folder_tree_get_folder t path =
     (if \<not> path_is_absolute path then Inr 0
      else case str_lookup path (path_to_folder t) of
        None \<Rightarrow> Inr 0
      | Some folder \<Rightarrow> ok_bind (deref t folder) (\<lambda>f. Inr (fdata f)))"

fun subfolder_paths :: "folder_tree \<Rightarrow> nat list \<Rightarrow> string list \<Rightarrow> string list result" where
  "subfolder_paths t [] ps = Inr ps"
| "subfolder_paths t (s # ss) ps = ok_bind (deref t s) (\<lambda>f. subfolder_paths t ss (fpath f # ps))"

definition e_folder_tree_get_subfolders :: "folder_tree \<Rightarrow> string \<Rightarrow> string list result" where
  "e_folder_tree_get_subfolders t path =
     (if \<not> path_is_absolute path then Inr []
      else case str_lookup path (path_to_folder t) of
        None \<Rightarrow> Inr []
      | Some folder \<Rightarrow> ok_bind (deref t folder) (\<lambda>f. subfolder_paths t (fsubs f) []))"

text \<open>The calls of the traversal's function, as the list of their arguments.\<close>

fun traverse_subtree :: "nat \<Rightarrow> folder_tree \<Rightarrow> nat \<Rightarrow> (string \<times> nat) list result"
  and traverse_subfolders :: "nat \<Rightarrow> folder_tree \<Rightarrow> nat list \<Rightarrow> (string \<times> nat) list result" where
  "traverse_subtree 0 t root = Inl Out_of_fuel"
| "traverse_subtree (Suc n) t root = ok_bind (deref t root) (\<lambda>f.
     ok_bind (traverse_subfolders n t (fsubs f)) (\<lambda>ps. Inr ((fpath f, fdata f) # ps)))"
| "traverse_subfolders n t [] = Inr []"
| "traverse_subfolders n t (s # ss) = ok_bind (traverse_subtree n t s) (\<lambda>ps.
     ok_bind (traverse_subfolders n t ss) (\<lambda>qs. Inr (ps @ qs)))"

definition e_folder_tree_foreach :: "folder_tree \<Rightarrow> (string \<times> nat) list result" where
  "e_folder_tree_foreach t = (case str_lookup ''/'' (path_to_folder t) of
     None \<Rightarrow> Inr []
   | Some root \<Rightarrow> traverse_subtree (depth_fuel t) t root)"

definition e_folder_tree_get_count :: "folder_tree \<Rightarrow> nat result" where
  "e_folder_tree_get_count t = ok_bind (e_folder_tree_foreach t) (\<lambda>calls. Inr (length calls))"

definition e_folder_tree_get_path_for_data :: "folder_tree \<Rightarrow> nat \<Rightarrow> string option result" where
  "e_folder_tree_get_path_for_data t data =
     (if data = 0 then Inr None
      else case hash_lookup (=) data_hash data (data_to_path t) of
        None \<Rightarrow> Inr None
      | Some folder \<Rightarrow> ok_bind (deref t folder) (\<lambda>f. Inr (Some (fpath f))))"

end
