(* ===== verification/Folder_Shape.thy ===== *)
theory Folder_Shape
  imports Folder_Tree "HOL-Library.Multiset"
begin

text \<open>
  The shape of the folder heap (e-folder-tree.c): the tree a heap represents from an address on,
  what removing a subtree and adding a subfolder do to it, and the order of the folders by their paths.
\<close>

section \<open>The tree a heap represents\<close>

datatype ftree = FT (ft_addr: nat) (ft_path: string) (ft_data: nat) (ft_subs: "ftree list")

fun rep :: "(nat \<Rightarrow> folder option) \<Rightarrow> nat option \<Rightarrow> ftree \<Rightarrow> bool" where
  "rep h par (FT a p d ts) \<longleftrightarrow>
     h a = Some \<lparr>fparent = par, fpath = p, fdata = d, fsubs = map ft_addr ts\<rparr> \<and> list_all (rep h (Some a)) ts"

fun postorder :: "ftree \<Rightarrow> ftree list" where
  "postorder (FT a p d ts) = concat (map postorder ts) @ [FT a p d ts]"

fun addrs :: "ftree \<Rightarrow> nat list" where
  "addrs (FT a p d ts) = concat (map addrs ts) @ [a]"

fun height :: "ftree \<Rightarrow> nat" where
  "height (FT a p d ts) = Suc (fold max (map height ts) 0)"

lemma addrs_postorder: "addrs T = map ft_addr (postorder T)"
  by (induction T) (auto simp: map_concat comp_def intro!: arg_cong [where f = concat] map_cong)

lemma addr_in_addrs: "ft_addr T \<in> set (addrs T)"
  by (cases T) simp

lemma rep_cong: "(\<And>a. a \<in> set (addrs T) \<Longrightarrow> h a = h' a) \<Longrightarrow> rep h par T \<longleftrightarrow> rep h' par T"
proof (induction T arbitrary: par)
  case (FT a p d ts)
  have "rep h (Some a) t \<longleftrightarrow> rep h' (Some a) t" if "t \<in> set ts" for t
    by (rule FT.IH [OF that]) (use FT.prems that in auto)
  then show ?case using FT.prems by (auto simp: list_all_iff)
qed

lemma height_le: "t \<in> set ts \<Longrightarrow> height t \<le> fold max (map height ts) 0"
proof -
  have mono: "x \<le> fold max xs (x :: nat)" for x xs
    by (induction xs arbitrary: x) (auto intro: le_trans [OF max.cobounded2])
  have "y \<in> set xs \<Longrightarrow> y \<le> fold max xs (x :: nat)" for x y xs
    by (induction xs arbitrary: x) (auto intro: order_trans [OF _ mono])
  then show "t \<in> set ts \<Longrightarrow> ?thesis" by simp
qed

lemma height_le_size: "height T \<le> length (addrs T)"
proof (induction T)
  case (FT a p d ts)
  have "fold max (map height ts) m \<le> n" if "m \<le> n" "\<forall>t \<in> set ts. height t \<le> n" for m n
    using that by (induction ts arbitrary: m) auto
  moreover have "\<forall>t \<in> set ts. height t \<le> length (concat (map addrs ts))"
  proof
    fix t assume t: "t \<in> set ts"
    then have "length (addrs t) \<le> sum_list (map (length \<circ> addrs) ts)" by (intro member_le_sum_list) auto
    then show "height t \<le> length (concat (map addrs ts))" using FT.IH [OF t] by (simp add: length_concat comp_def)
  qed
  ultimately show ?case by simp
qed

text \<open>What removing the nodes of a forest does to the state.\<close>

definition drop_nodes :: "ftree list \<Rightarrow> folder_tree \<Rightarrow> folder_tree" where
  "drop_nodes ns t = t\<lparr>fheap := (\<lambda>a. if a \<in> ft_addr ` set ns then None else fheap t a),
     path_to_folder := filter (\<lambda>e. fst e \<notin> ft_path ` set ns) (path_to_folder t),
     data_to_path := filter (\<lambda>e. fst e \<notin> ft_data ` set ns) (data_to_path t),
     notified := notified t @ map (\<lambda>n. (ft_path n, ft_data n)) ns\<rparr>"

lemma drop_nodes_Nil [simp]: "drop_nodes [] t = t"
  by (simp add: drop_nodes_def)

lemma drop_nodes_append: "drop_nodes (ms @ ns) t = drop_nodes ns (drop_nodes ms t)"
  by (simp add: drop_nodes_def fun_eq_iff image_Un conj_commute cong: conj_cong)

lemma table_remove_filter: "hash_remove (=) h k t = filter (\<lambda>e. fst e \<noteq> k) t"
  by (auto simp: hash_remove_def hash_match_def intro!: filter_cong)

lemma unlink_root:
  assumes "fheap t a = Some \<lparr>fparent = None, fpath = p, fdata = d, fsubs = ss\<rparr>"
  shows "unlink_folder a t = Inr (drop_nodes [FT a p d ts] t)"
  using assms
  by (simp add: unlink_folder_def update_folder_def deref_def folder_destroy_def drop_nodes_def
      table_remove_filter fun_upd_def fun_eq_iff cong: if_cong)

lemma drop_nodes_heap: "fheap (drop_nodes ns t) a = (if a \<in> ft_addr ` set ns then None else fheap t a)"
  by (simp add: drop_nodes_def)

text \<open>
  Removing the folder at the root of a represented tree, and removing all of a list of subfolders,
  with more fuel than the tree is high.
\<close>

lemma remove_subfolders_step:
  assumes "\<And>u s. u \<in> set us \<Longrightarrow> rep (fheap s) None u \<Longrightarrow>
      remove_folder m (ft_addr u) s = Inr (drop_nodes (postorder u) s)"
    and "distinct (concat (map addrs us))" "list_all (rep (fheap s) (Some a)) us"
  shows "remove_subfolders m (map ft_addr us) s = Inr (drop_nodes (concat (map postorder us)) s)"
  using assms
proof (induction us arbitrary: s)
    case (Cons u us)
    obtain b q e vs where u: "u = FT b q e vs" by (cases u)
    define s' where "s' = update_folder b (\<lambda>f. f\<lparr>fparent := None\<rparr>) s"
    have hb: "fheap s b = Some \<lparr>fparent = Some a, fpath = q, fdata = e, fsubs = map ft_addr vs\<rparr>"
      and vs: "list_all (rep (fheap s) (Some b)) vs"
      using Cons.prems(3) u by simp_all
    have hs': "fheap s' = (fheap s)(b \<mapsto> \<lparr>fparent = None, fpath = q, fdata = e, fsubs = map ft_addr vs\<rparr>)"
      by (simp add: s'_def update_folder_def hb)
    have "list_all (rep (fheap s') (Some b)) vs"
    proof (unfold list_all_iff, rule ballI)
      fix v assume v: "v \<in> set vs"
      then have "b \<notin> set (addrs v)" using Cons.prems(2) u by auto
      then have "rep (fheap s) (Some b) v \<longleftrightarrow> rep (fheap s') (Some b) v"
        by (intro rep_cong) (auto simp: hs')
      then show "rep (fheap s') (Some b) v" using vs v by (simp add: list_all_iff)
    qed
    then have ru: "rep (fheap s') None u" by (simp add: u hs')
    have "drop_nodes (postorder u) s' = drop_nodes (postorder u) s"
      by (simp add: drop_nodes_def s'_def update_folder_def u fun_eq_iff)
    then have "remove_folder m b s' = Inr (drop_nodes (postorder u) s)"
      using Cons.prems(1) [of u s'] ru u by simp
    moreover have "list_all (rep (fheap (drop_nodes (postorder u) s)) (Some a)) us"
    proof (unfold list_all_iff, rule ballI)
      fix v assume v: "v \<in> set us"
      have "set (addrs v) \<inter> set (addrs u) = {}" using Cons.prems(2) v by auto
      then have "rep (fheap s) (Some a) v \<longleftrightarrow> rep (fheap (drop_nodes (postorder u) s)) (Some a) v"
        by (intro rep_cong) (auto simp: drop_nodes_heap addrs_postorder)
      then show "rep (fheap (drop_nodes (postorder u) s)) (Some a) v"
        using Cons.prems(3) v by (simp add: list_all_iff)
    qed
    ultimately show ?case
      using Cons.IH [of "drop_nodes (postorder u) s"] Cons.prems hb
        drop_nodes_append [of "[FT b q e vs]" "concat (map postorder us)"]
      by (simp add: u deref_def s'_def [symmetric] drop_nodes_append)
  qed simp

lemma remove_folder_rep:
  "rep (fheap t) None T \<Longrightarrow> distinct (addrs T) \<Longrightarrow> height T \<le> n \<Longrightarrow>
    remove_folder n (ft_addr T) t = Inr (drop_nodes (postorder T) t)"
proof (induction T arbitrary: t n)
  case (FT a p d ts)
  obtain m where n: "n = Suc m" "\<forall>u \<in> set ts. height u \<le> m"
    using FT.prems(3) height_le by (cases n) (auto intro: le_trans)
  have ha: "fheap t a = Some \<lparr>fparent = None, fpath = p, fdata = d, fsubs = map ft_addr ts\<rparr>"
    and ts: "list_all (rep (fheap t) (Some a)) ts" using FT.prems(1) by simp_all
  define t' where "t' = drop_nodes (concat (map postorder ts)) t"
  have "a \<notin> ft_addr ` set (concat (map postorder ts))"
    using FT.prems(2) by (auto simp: addrs_postorder)
  then have "fheap t' a = fheap t a" by (simp add: t'_def drop_nodes_heap)
  then have "unlink_folder a t' = Inr (drop_nodes [FT a p d ts] t')"
    using unlink_root ha by simp
  moreover have "remove_subfolders m (map ft_addr ts) t = Inr t'"
    unfolding t'_def
    by (rule remove_subfolders_step) (use FT.IH FT.prems(2) n(2) ts in \<open>auto simp: distinct_concat_iff\<close>)
  ultimately show ?case
    using n(1) ha by (simp add: deref_def t'_def drop_nodes_append)
qed

lemma remove_child:
  assumes r: "rep (fheap t) (Some b) (FT a p d ts)" and di: "distinct (addrs (FT a p d ts))"
    and b: "b \<notin> set (addrs (FT a p d ts))" "fheap t b \<noteq> None" and n: "height (FT a p d ts) \<le> n"
  shows "remove_folder n a t =
    Inr (update_folder b (\<lambda>f. f\<lparr>fsubs := remove1 a (fsubs f)\<rparr>) (drop_nodes (postorder (FT a p d ts)) t))"
proof -
  obtain m where m: "n = Suc m" "\<forall>u \<in> set ts. height u \<le> m"
    using n height_le by (cases n) (auto intro: le_trans)
  have ha: "fheap t a = Some \<lparr>fparent = Some b, fpath = p, fdata = d, fsubs = map ft_addr ts\<rparr>"
    and ts: "list_all (rep (fheap t) (Some a)) ts" using r by simp_all
  define t' where "t' = drop_nodes (concat (map postorder ts)) t"
  have subs: "remove_subfolders m (map ft_addr ts) t = Inr t'"
    unfolding t'_def
    by (rule remove_subfolders_step) (use remove_folder_rep di m(2) ts in \<open>auto simp: distinct_concat_iff\<close>)
  have "a \<notin> ft_addr ` set (concat (map postorder ts))" "b \<notin> ft_addr ` set (concat (map postorder ts))"
    using di b(1) by (auto simp: addrs_postorder)
  then have "fheap t' a = fheap t a" "fheap t' b = fheap t b" by (simp_all add: t'_def drop_nodes_heap)
  then have "unlink_folder a t' = Inr (update_folder b (\<lambda>f. f\<lparr>fsubs := remove1 a (fsubs f)\<rparr>) (drop_nodes [FT a p d ts] t'))"
    using ha b by (auto simp: unlink_folder_def update_folder_def deref_def folder_destroy_def drop_nodes_def
        folder_remove_subfolder_def table_remove_filter fun_eq_iff)
  then show ?thesis
    using m(1) ha subs by (simp add: deref_def t'_def drop_nodes_append)
qed

section \<open>The tree without a subtree\<close>

fun prune :: "nat \<Rightarrow> ftree \<Rightarrow> ftree" where
  "prune a (FT b p d ts) = FT b p d (map (prune a) (filter (\<lambda>t. ft_addr t \<noteq> a) ts))"

definition info :: "ftree \<Rightarrow> nat \<times> string \<times> nat" where
  "info n = (ft_addr n, ft_path n, ft_data n)"

definition infos :: "ftree \<Rightarrow> (nat \<times> string \<times> nat) list" where
  "infos T = map info (postorder T)"

lemma infos_FT: "infos (FT a p d ts) = concat (map infos ts) @ [(a, p, d)]"
  by (simp add: infos_def [abs_def] info_def map_concat comp_def)

lemma addrs_infos: "addrs T = map fst (infos T)"
  by (simp add: addrs_postorder infos_def info_def comp_def)

lemma ft_addr_prune [simp]: "ft_addr (prune a T) = ft_addr T" "ft_path (prune a T) = ft_path T"
  by (cases T; simp)+

lemma prune_id: "a \<notin> set (addrs T) \<Longrightarrow> prune a T = T"
proof (induction T)
  case (FT b p d ts)
  have "filter (\<lambda>t. ft_addr t \<noteq> a) ts = ts"
    using FT.prems addr_in_addrs by (auto simp: filter_id_conv)
  then show ?case using FT by (auto intro!: map_idI)
qed

lemma postorder_sub: "S \<in> set (postorder T) \<Longrightarrow> set (postorder S) \<subseteq> set (postorder T)"
  by (induction T) auto

lemma self_in_postorder: "T \<in> set (postorder T)"
  by (cases T) simp

lemma same_addr_same_node:
  "distinct (addrs T) \<Longrightarrow> S \<in> set (postorder T) \<Longrightarrow> U \<in> set (postorder T) \<Longrightarrow> ft_addr S = ft_addr U \<Longrightarrow> S = U"
  by (auto simp: addrs_postorder distinct_map inj_on_def)

lemma rep_prune:
  assumes "rep h par T" "distinct (addrs T)" "S \<in> set (postorder T)" "ft_addr S \<noteq> ft_addr T"
  shows "\<exists>b f. h b = Some f \<and> rep h (Some b) S \<and> b \<in> set (addrs T) \<and> b \<notin> set (addrs S) \<and>
    mset (infos T) = mset (infos (prune (ft_addr S) T)) + mset (infos S) \<and>
    (\<forall>h'. (\<forall>x. x \<notin> set (addrs S) \<and> x \<noteq> b \<longrightarrow> h' x = h x) \<and>
       h' b = Some (f\<lparr>fsubs := remove1 (ft_addr S) (fsubs f)\<rparr>) \<longrightarrow> rep h' par (prune (ft_addr S) T))"
  using assms
proof (induction T arbitrary: par)
  case (FT b p d ts)
  obtain u where u: "u \<in> set ts" "S \<in> set (postorder u)" using FT.prems(3,4) by auto
  then obtain us vs where ts: "ts = us @ u # vs" by (auto simp: in_set_conv_decomp)
  let ?a = "ft_addr S"
  have hb: "h b = Some \<lparr>fparent = par, fpath = p, fdata = d, fsubs = map ft_addr ts\<rparr>"
    and rts: "list_all (rep h (Some b)) ts" using FT.prems(1) by simp_all
  have sub: "set (addrs S) \<subseteq> set (addrs u)"
    using postorder_sub [OF u(2)] by (auto simp: addrs_postorder)
  then have aS: "?a \<in> set (addrs u)" using addr_in_addrs by blast
  have other: "?a \<notin> set (addrs t)" "set (addrs t) \<inter> set (addrs u) = {}" if "t \<in> set us \<union> set vs" for t
    using that aS FT.prems(2) by (auto simp: ts)
  have na: "ft_addr t \<noteq> ?a" if "t \<in> set us \<union> set vs" for t
    using other(1) [OF that] addr_in_addrs [of t] by auto
  have keep: "map (prune ?a) us = us" "map (prune ?a) vs = vs"
    "filter (\<lambda>t. ft_addr t \<noteq> ?a) us = us" "filter (\<lambda>t. ft_addr t \<noteq> ?a) vs = vs"
    using other(1) na by (auto intro!: map_idI prune_id simp: filter_id_conv)
  have bu: "b \<notin> set (addrs u)" using FT.prems(2) u(1) by auto
  show ?case
  proof (cases "?a = ft_addr u")
    case True
    have "distinct (addrs u)" using FT.prems(2) u(1) by (auto simp: distinct_concat_iff)
    then have S: "S = u" using same_addr_same_node u(2) self_in_postorder True by blast
    have pr: "prune ?a (FT b p d ts) = FT b p d (us @ vs)" using keep True by (simp add: ts)
    have f: "remove1 ?a (map ft_addr ts) = map ft_addr (us @ vs)"
    proof -
      have "?a \<notin> set (map ft_addr us)" using na by force
      then show ?thesis using True by (simp add: ts remove1_append)
    qed
    have "rep h' par (FT b p d (us @ vs))"
      if h': "\<forall>x. x \<notin> set (addrs S) \<and> x \<noteq> b \<longrightarrow> h' x = h x"
        "h' b = Some \<lparr>fparent = par, fpath = p, fdata = d, fsubs = map ft_addr (us @ vs)\<rparr>" for h'
    proof -
      have "rep h' (Some b) v" if v: "v \<in> set us \<union> set vs" for v
      proof -
        have "rep h (Some b) v \<longleftrightarrow> rep h' (Some b) v"
          by (rule rep_cong) (use h'(1) other(2) [OF v] v FT.prems(2) in \<open>auto simp: S ts\<close>)
        then show ?thesis using rts v by (auto simp: ts list_all_iff)
      qed
      then show ?thesis using h'(2) by (simp add: list_all_iff)
    qed
    then show ?thesis
      using hb rts bu unfolding pr
      by (intro exI [of _ b] exI [of _ "\<lparr>fparent = par, fpath = p, fdata = d, fsubs = map ft_addr ts\<rparr>"])
        (simp add: infos_FT f, simp add: S ts)
  next
    case False
    have pr: "prune ?a (FT b p d ts) = FT b p d (us @ prune ?a u # vs)" using keep False by (simp add: ts)
    have du: "distinct (addrs u)" using FT.prems(2) u(1) by (auto simp: distinct_concat_iff)
    have "rep h (Some b) u" using rts u(1) by (simp add: list_all_iff)
    from FT.IH [OF u(1) this du u(2) False] obtain c f where c: "h c = Some f" "rep h (Some c) S"
      "c \<in> set (addrs u)" "c \<notin> set (addrs S)" "mset (infos u) = mset (infos (prune ?a u)) + mset (infos S)"
      "\<And>h'. \<forall>x. x \<notin> set (addrs S) \<and> x \<noteq> c \<longrightarrow> h' x = h x \<Longrightarrow>
         h' c = Some (f\<lparr>fsubs := remove1 ?a (fsubs f)\<rparr>) \<Longrightarrow> rep h' (Some b) (prune ?a u)"
      by blast
    have "rep h' par (FT b p d (us @ prune ?a u # vs))"
      if h': "\<forall>x. x \<notin> set (addrs S) \<and> x \<noteq> c \<longrightarrow> h' x = h x" "h' c = Some (f\<lparr>fsubs := remove1 ?a (fsubs f)\<rparr>)" for h'
    proof -
      have "rep h' (Some b) v" if v: "v \<in> set us \<union> set vs" for v
      proof -
        have "rep h (Some b) v \<longleftrightarrow> rep h' (Some b) v"
        proof (rule rep_cong)
          fix x assume "x \<in> set (addrs v)"
          then have "x \<notin> set (addrs u)" using other(2) [OF v] by blast
          then have "x \<notin> set (addrs S)" "x \<noteq> c" using sub c(3) by auto
          then show "h x = h' x" using h'(1) by simp
        qed
        then show ?thesis using rts v by (auto simp: ts list_all_iff)
      qed
      moreover have "h' b = h b" using h'(1) bu sub c(3) by blast
      ultimately show ?thesis using hb c(6) [OF h'] by (simp add: list_all_iff ts)
    qed
    then show ?thesis
      using c(1-5) u(1) unfolding pr
      by (intro exI [of _ c] exI [of _ f]) (auto simp: infos_FT ts)
  qed
qed

section \<open>Paths\<close>

text \<open>A folder and everything under it.\<close>

definition below :: "string \<Rightarrow> string \<Rightarrow> bool" where
  "below p q \<longleftrightarrow> q = p \<or> p = ''/'' \<or> take (Suc (length p)) q = p @ ''/''"

lemma absolute_split:
  assumes "path_is_absolute c"
  obtains i where "strrchr c CHR ''/'' = Some i" "c = take i c @ CHR ''/'' # drop (Suc i) c"
    "CHR ''/'' \<notin> set (drop (Suc i) c)" "i < length c"
proof -
  have "CHR ''/'' \<in> set c" using assms by (cases c) (auto simp: path_is_absolute_def)
  then obtain i where i: "strrchr c CHR ''/'' = Some i" by (metis not_None_eq strrchr_None)
  then show thesis using that strrchr_SomeD [OF i] id_take_nth_drop [of i c] by metis
qed

lemma parent_shorter: "path_is_absolute c \<Longrightarrow> c \<noteq> ''/'' \<Longrightarrow> length (get_parent_path c) < length c"
proof -
  assume c: "path_is_absolute c" "c \<noteq> ''/''"
  obtain i where i: "strrchr c CHR ''/'' = Some i" "c = take i c @ CHR ''/'' # drop (Suc i) c" "i < length c"
    using absolute_split [OF c(1)] by metis
  show ?thesis
  proof (cases "i = 0")
    case True
    then have "c = CHR ''/'' # drop 1 c" using i(2) by simp
    then have "1 < length c" using c(2) by (cases c; cases "drop 1 c") auto
    then show ?thesis using i(1) True by (simp add: get_parent_path_def)
  next
    case False
    then show ?thesis using i by (simp add: get_parent_path_def)
  qed
qed

lemma below_parent: "path_is_absolute c \<Longrightarrow> below (get_parent_path c) c"
proof -
  assume c: "path_is_absolute c"
  obtain i where i: "strrchr c CHR ''/'' = Some i" "i < length c"
    using absolute_split [OF c] by metis
  then show ?thesis
    using strrchr_SomeD [OF i(1)] by (auto simp: below_def get_parent_path_def take_Suc_conv_app_nth)
qed

lemma parent_below:
  assumes "path_is_absolute c" "path_is_absolute p" "below p c" "c \<noteq> p"
  shows "below p (get_parent_path c)"
proof (cases "p = ''/''")
  case False
  then have t: "take (Suc (length p)) c = p @ ''/''" using assms(3,4) by (auto simp: below_def)
  obtain i where i: "strrchr c CHR ''/'' = Some i" "CHR ''/'' \<notin> set (drop (Suc i) c)" "i < length c"
    using absolute_split [OF assms(1)] by metis
  have len: "length p < length c" using arg_cong [OF t, where f = length] by simp
  have ci: "c ! length p = CHR ''/''" using arg_cong [OF t, where f = "\<lambda>s. s ! length p"] len by simp
  have "length p \<le> i"
  proof (rule ccontr)
    assume "\<not> length p \<le> i"
    then obtain k where k: "length p = Suc (i + k)" using less_imp_Suc_add [of i "length p"] by auto
    then have "drop (Suc i) c ! k = CHR ''/''" "k < length (drop (Suc i) c)"
      using ci len by simp_all
    then show False using i(2) nth_mem by metis
  qed
  moreover have "p \<noteq> []" using assms(2) by (simp add: path_is_absolute_def)
  moreover have "take (length p) c = p" using arg_cong [OF t, where f = "take (length p)"] by (simp add: min_def)
  ultimately show ?thesis
    using t i(1) by (cases "length p = i") (auto simp: below_def get_parent_path_def min_def)
qed (simp add: below_def)

lemma below_trans: "below p q \<Longrightarrow> below q r \<Longrightarrow> path_is_absolute p \<Longrightarrow> below p r"
proof -
  assume a: "below p q" "below q r" "path_is_absolute p"
  consider "q = p" | "p = ''/''" | "take (Suc (length p)) q = p @ ''/''" using a(1) by (auto simp: below_def)
  then show "below p r"
  proof cases
    case 3
    then have "length (take (Suc (length p)) q) = Suc (length p)" by simp
    then have l: "Suc (length p) \<le> length q" by (metis length_take min.cobounded1)
    have "q \<noteq> ''/''" using 3 a(3) by (auto simp: path_is_absolute_def)
    then have "r = q \<or> take (length q) r = q"
      using a(2) by (auto simp: below_def dest: arg_cong [where f = "take (length q)"])
    then have "take (Suc (length p)) r = take (Suc (length p)) q"
      using l by (metis min.absorb1 take_take)
    then show ?thesis using 3 by (simp add: below_def)
  qed (use a in \<open>auto simp: below_def\<close>)
qed

fun paths_ok :: "ftree \<Rightarrow> bool" where
  "paths_ok (FT a p d ts) \<longleftrightarrow> path_is_absolute p \<and>
     (\<forall>t \<in> set ts. ft_path t \<noteq> ''/'' \<and> get_parent_path (ft_path t) = p \<and> paths_ok t)"

lemma paths_ok_node: "paths_ok T \<Longrightarrow> n \<in> set (postorder T) \<Longrightarrow> path_is_absolute (ft_path n) \<and> paths_ok n"
  by (induction T) auto

lemma paths_below: "paths_ok T \<Longrightarrow> n \<in> set (postorder T) \<Longrightarrow> below (ft_path T) (ft_path n)"
proof (induction T)
  case (FT a p d ts)
  show ?case
  proof (cases "n = FT a p d ts")
    case False
    then obtain t where t: "t \<in> set ts" "n \<in> set (postorder t)" using FT.prems by auto
    then have "below (ft_path t) (ft_path n)" "get_parent_path (ft_path t) = p" "path_is_absolute (ft_path t)"
      using FT paths_ok_node self_in_postorder by auto
    then show ?thesis using below_trans [OF below_parent] FT.prems by fastforce
  qed (simp add: below_def)
qed

lemma node_parent:
  "n \<in> set (postorder T) \<Longrightarrow> n \<noteq> T \<Longrightarrow> \<exists>m \<in> set (postorder T). n \<in> set (ft_subs m)"
proof (induction T)
  case (FT a p d ts)
  then obtain t where t: "t \<in> set ts" "n \<in> set (postorder t)" by auto
  show ?case
  proof (cases "n = t")
    case True
    then show ?thesis using t by (intro bexI [of _ "FT a p d ts"]) auto
  next
    case False
    then obtain m where "m \<in> set (postorder t)" "n \<in> set (ft_subs m)" using FT.IH t by blast
    then show ?thesis using t by auto
  qed
qed

lemma sub_in_postorder: "n \<in> set (ft_subs m) \<Longrightarrow> n \<in> set (postorder m)"
  by (cases m) (auto intro: self_in_postorder)

text \<open>The nodes of a subtree are the nodes whose path is below its path.\<close>

lemma subtree_below:
  assumes T: "paths_ok T" "distinct (map ft_path (postorder T))" and S: "S \<in> set (postorder T)"
    and n: "n \<in> set (postorder T)" and b: "below (ft_path S) (ft_path n)" and root: "ft_path T = ''/''"
  shows "n \<in> set (postorder S)"
  using n b
proof (induction "length (ft_path n)" arbitrary: n rule: less_induct)
  case less
  show ?case
  proof (cases "ft_path n = ft_path S")
    case True
    then have "n = S" using T(2) S less.prems(1) by (auto simp: distinct_map inj_on_def)
    then show ?thesis by (simp add: self_in_postorder)
  next
    case False
    have S': "path_is_absolute (ft_path S)" using paths_ok_node T(1) S by blast
    have "n \<noteq> T"
      using False less.prems(2) root S' by (auto simp: below_def path_is_absolute_def)
    then obtain m where m: "m \<in> set (postorder T)" "n \<in> set (ft_subs m)"
      using node_parent less.prems(1) by blast
    have "paths_ok m" using paths_ok_node [OF T(1) m(1)] by simp
    then have p: "ft_path n \<noteq> ''/''" "get_parent_path (ft_path n) = ft_path m"
      using m(2) by (cases m, simp)+
    have p3: "path_is_absolute (ft_path n)" using paths_ok_node [OF T(1) less.prems(1)] by simp
    then have "m \<in> set (postorder S)"
      using less.hyps [of m] parent_shorter [OF p3 p(1)] parent_below [OF p3 S' less.prems(2) False] m(1) p(2) by simp
    then show ?thesis using m(2) sub_in_postorder postorder_sub by blast
  qed
qed

lemma paths_ok_prune: "paths_ok T \<Longrightarrow> paths_ok (prune a T)"
  by (induction T) auto

end
