(* ===== verification/Folder_Store.thy ===== *)
theory Folder_Store
  imports Folder_Shape
begin

text \<open>
  The folder tree (e-folder-tree.c) as a map from paths to data: the invariant that ties the heap and
  the two hash tables together, and the operations as operations of the map.
\<close>

section \<open>The invariant\<close>

definition table_of :: "('k \<times> 'v) list \<Rightarrow> ('k \<times> 'v) set \<Rightarrow> bool" where
  "table_of t s \<longleftrightarrow> distinct (map fst t) \<and> set t = s"

definition path_entry :: "nat \<times> string \<times> nat \<Rightarrow> string \<times> nat" where
  "path_entry = (\<lambda>(a, p, d). (p, a))"

definition data_entry :: "nat \<times> string \<times> nat \<Rightarrow> nat \<times> nat" where
  "data_entry = (\<lambda>(a, p, d). (d, a))"

definition tree_of :: "folder_tree \<Rightarrow> ftree \<Rightarrow> bool" where
  "tree_of t T \<longleftrightarrow> rep (fheap t) None T \<and> ft_path T = ''/'' \<and> paths_ok T \<and>
     distinct (map fst (infos T)) \<and> distinct (map (fst \<circ> snd) (infos T)) \<and> distinct (map (snd \<circ> snd) (infos T)) \<and>
     (\<forall>a. fheap t a \<noteq> None \<longleftrightarrow> a \<in> fst ` set (infos T)) \<and> (\<forall>a \<in> fst ` set (infos T). a < fnext t) \<and>
     table_of (path_to_folder t) (path_entry ` set (infos T)) \<and>
     table_of (data_to_path t) (data_entry ` set (infos T))"

definition no_tree :: "folder_tree \<Rightarrow> bool" where
  "no_tree t \<longleftrightarrow> (\<forall>a. fheap t a = None) \<and> path_to_folder t = [] \<and> data_to_path t = []"

text \<open>The tree is whole, or its root was removed.\<close>

definition tree_ok :: "folder_tree \<Rightarrow> bool" where
  "tree_ok t \<longleftrightarrow> no_tree t \<or> (\<exists>T. tree_of t T)"

text \<open>The abstract state: the data stored at each path.\<close>

definition folder_map :: "folder_tree \<Rightarrow> string \<Rightarrow> nat option" where
  "folder_map t p = (case map_of (path_to_folder t) p of
     None \<Rightarrow> None | Some a \<Rightarrow> map_option fdata (fheap t a))"

lemma rep_node:
  "rep h par T \<Longrightarrow> n \<in> set (postorder T) \<Longrightarrow>
    \<exists>f. h (ft_addr n) = Some f \<and> fpath f = ft_path n \<and> fdata f = ft_data n \<and> fsubs f = map ft_addr (ft_subs n)"
proof (induction T arbitrary: par)
  case (FT a p d ts)
  show ?case
  proof (cases "n = FT a p d ts")
    case False
    then show ?thesis using FT by (auto simp: list_all_iff)
  qed (use FT.prems in simp)
qed

lemma info_in_infos: "n \<in> set (postorder T) \<Longrightarrow> (ft_addr n, ft_path n, ft_data n) \<in> set (infos T)"
  by (auto simp: infos_def info_def)

lemma infos_node: "(a, p, d) \<in> set (infos T) \<Longrightarrow>
    \<exists>n \<in> set (postorder T). ft_addr n = a \<and> ft_path n = p \<and> ft_data n = d"
  by (auto simp: infos_def info_def)

lemma table_of_iff: "table_of t s \<Longrightarrow> map_of t k = Some v \<longleftrightarrow> (k, v) \<in> s"
  by (auto simp: table_of_def)

lemma path_entry_iff: "(p, a) \<in> path_entry ` s \<longleftrightarrow> (\<exists>d. (a, p, d) \<in> s)"
  and data_entry_iff: "(d, a) \<in> data_entry ` s \<longleftrightarrow> (\<exists>p. (a, p, d) \<in> s)"
  by (force simp: path_entry_def data_entry_def)+

lemma lookup_path: "tree_of t T \<Longrightarrow> map_of (path_to_folder t) p = Some a \<longleftrightarrow> (\<exists>d. (a, p, d) \<in> set (infos T))"
proof -
  assume "tree_of t T"
  then have "table_of (path_to_folder t) (path_entry ` set (infos T))" by (simp add: tree_of_def)
  from table_of_iff [OF this] show ?thesis by (simp add: path_entry_iff)
qed

lemma lookup_data: "tree_of t T \<Longrightarrow> map_of (data_to_path t) d = Some a \<longleftrightarrow> (\<exists>p. (a, p, d) \<in> set (infos T))"
proof -
  assume "tree_of t T"
  then have "table_of (data_to_path t) (data_entry ` set (infos T))" by (simp add: tree_of_def)
  from table_of_iff [OF this] show ?thesis by (simp add: data_entry_iff)
qed

lemma distinct_map_eq: "distinct (map f xs) \<Longrightarrow> x \<in> set xs \<Longrightarrow> y \<in> set xs \<Longrightarrow> f x = f y \<Longrightarrow> x = y"
  by (auto simp: distinct_map inj_on_def)

lemma folder_map_iff: "tree_of t T \<Longrightarrow> folder_map t p = Some d \<longleftrightarrow> (\<exists>a. (a, p, d) \<in> set (infos T))"
proof -
  assume t: "tree_of t T"
  have data: "\<exists>f. fheap t a = Some f \<and> fdata f = e" if "(a, p, e) \<in> set (infos T)" for a e
    using t infos_node [OF that] by (auto simp: tree_of_def dest!: rep_node)
  have same: "e = e'" if "(a, p, e) \<in> set (infos T)" "(b, p, e') \<in> set (infos T)" for a b e e'
    using t that distinct_map_eq [of "fst \<circ> snd" "infos T" "(a, p, e)" "(b, p, e')"] by (simp add: tree_of_def)
  show ?thesis
  proof (cases "map_of (path_to_folder t) p")
    case None
    then have "\<nexists>a d. (a, p, d) \<in> set (infos T)" using lookup_path [OF t, of p] by force
    then show ?thesis using None by (simp add: folder_map_def)
  next
    case (Some a)
    then obtain e where e: "(a, p, e) \<in> set (infos T)" using lookup_path [OF t] by blast
    then have "folder_map t p = Some e" using Some data [OF e] by (auto simp: folder_map_def)
    then show ?thesis using e same [OF e] by (metis option.inject)
  qed
qed

lemma folder_map_none: "tree_of t T \<Longrightarrow> folder_map t p = None \<longleftrightarrow> map_of (path_to_folder t) p = None"
  using folder_map_iff [of t T p] lookup_path [of t T p] by (metis not_None_eq)

lemma addrs_length: "S \<in> set (postorder T) \<Longrightarrow> length (addrs S) \<le> length (addrs T)"
proof (induction T)
  case (FT a p d ts)
  show ?case
  proof (cases "S = FT a p d ts")
    case False
    then obtain u where u: "u \<in> set ts" "S \<in> set (postorder u)" using FT.prems by auto
    then have "length (addrs S) \<le> length (addrs u)" by (rule FT.IH)
    also have "\<dots> \<le> (\<Sum>u \<leftarrow> ts. length (addrs u))" using u(1) by (intro member_le_sum_list) auto
    finally show ?thesis by (simp add: length_concat comp_def)
  qed simp
qed

lemma depth_enough:
  assumes "tree_of t T" "S \<in> set (postorder T)"
  shows "height S \<le> depth_fuel t"
proof -
  have "distinct (path_to_folder t)" using assms(1) by (simp add: tree_of_def table_of_def distinct_map)
  then have "length (path_to_folder t) = card (path_entry ` set (infos T))"
    using assms(1) distinct_card [of "path_to_folder t"] by (simp add: tree_of_def table_of_def)
  also have "\<dots> = card (set (infos T))"
  proof (rule card_image)
    show "inj_on path_entry (set (infos T))"
      using assms(1) distinct_map_eq [of fst "infos T"] by (force simp: tree_of_def inj_on_def path_entry_def)
  qed
  also have "\<dots> = length (infos T)" using assms(1) by (simp add: tree_of_def distinct_card distinct_map)
  finally have l: "length (path_to_folder t) = length (infos T)" .
  then show ?thesis using height_le_size [of S] addrs_length [OF assms(2)] by (simp add: depth_fuel_def addrs_infos)
qed

section \<open>Removing folders\<close>

lemma table_filter:
  "table_of t (X \<union> Y) \<Longrightarrow> fst ` X \<inter> fst ` Y = {} \<Longrightarrow> table_of (filter (\<lambda>e. fst e \<notin> fst ` Y) t) X"
  by (auto simp: table_of_def distinct_map inj_on_def)

lemma node_images:
  "ft_addr ` set (postorder T) = fst ` set (infos T)"
  "ft_path ` set (postorder T) = fst ` path_entry ` set (infos T)"
  "ft_data ` set (postorder T) = fst ` data_entry ` set (infos T)"
  by (simp_all add: infos_def info_def path_entry_def data_entry_def image_image)

lemma distinct_paths: "distinct (map (fst \<circ> snd) (infos T)) \<longleftrightarrow> distinct (map ft_path (postorder T))"
  by (simp add: infos_def info_def comp_def)

lemma entry_keys:
  "fst ` path_entry ` X = (\<lambda>x. fst (snd x)) ` X" "fst ` data_entry ` X = (\<lambda>x. snd (snd x)) ` X"
  by (force simp: path_entry_def data_entry_def)+

text \<open>The tables and the heap of a tree split into the nodes that stay and those that go.\<close>

lemma tree_of_drop:
  assumes t: "tree_of t T" and m: "mset (infos T) = mset (infos T') + mset (infos S)"
    and r: "rep (fheap t') None T'" "ft_path T' = ''/''" "paths_ok T'"
    and h: "\<forall>x. fheap t' x \<noteq> None \<longleftrightarrow> fheap t x \<noteq> None \<and> x \<notin> fst ` set (infos S)"
    and f: "fnext t' = fnext t" "path_to_folder t' = path_to_folder (drop_nodes (postorder S) t)"
      "data_to_path t' = data_to_path (drop_nodes (postorder S) t)"
  shows "tree_of t' T'"
proof -
  have d: "distinct (map g (infos T)) \<longleftrightarrow> distinct (map g (infos T' @ infos S))" for g :: "nat \<times> string \<times> nat \<Rightarrow> 'b"
    using m by (intro mset_eq_imp_distinct_iff) simp
  have s: "set (infos T) = set (infos T') \<union> set (infos S)"
    using m by (metis set_mset_mset set_mset_union)
  have di: "distinct (map fst (infos T' @ infos S))" "distinct (map (fst \<circ> snd) (infos T' @ infos S))"
    "distinct (map (snd \<circ> snd) (infos T' @ infos S))"
    using t by (simp_all only: d [symmetric] tree_of_def)
  have pf: "path_to_folder t' = filter (\<lambda>e. fst e \<notin> fst ` path_entry ` set (infos S)) (path_to_folder t)"
    "data_to_path t' = filter (\<lambda>e. fst e \<notin> fst ` data_entry ` set (infos S)) (data_to_path t)"
    using f by (simp_all add: drop_nodes_def node_images)
  have p: "table_of (path_to_folder t') (path_entry ` set (infos T'))"
    unfolding pf by (rule table_filter) (use t di(2) in \<open>simp_all add: tree_of_def s image_Un entry_keys comp_def\<close>)
  have q: "table_of (data_to_path t') (data_entry ` set (infos T'))"
    unfolding pf by (rule table_filter) (use t di(3) in \<open>simp_all add: tree_of_def s image_Un entry_keys comp_def\<close>)
  have "(\<forall>a. fheap t' a \<noteq> None \<longleftrightarrow> a \<in> fst ` set (infos T'))"
    using h t di(1) by (auto simp: tree_of_def s)
  then show ?thesis using t r p q di f(1) by (auto simp: tree_of_def s)
qed

lemma remove_root:
  assumes t: "tree_of t T"
  shows "remove_folder (depth_fuel t) (ft_addr T) t = Inr (drop_nodes (postorder T) t) \<and>
    no_tree (drop_nodes (postorder T) t)"
proof -
  have "no_tree (drop_nodes (postorder T) t)"
    using t unfolding no_tree_def drop_nodes_def node_images
    by (auto simp: tree_of_def table_of_def filter_empty_conv)
  then show ?thesis
    using remove_folder_rep [of t T "depth_fuel t"] t depth_enough [OF t self_in_postorder]
    by (simp add: tree_of_def addrs_infos)
qed

lemma remove_subtree:
  assumes t: "tree_of t T" and S: "S \<in> set (postorder T)" "S \<noteq> T"
  shows "\<exists>t' T'. remove_folder (depth_fuel t) (ft_addr S) t = Inr t' \<and> tree_of t' T' \<and>
    mset (infos T) = mset (infos T') + mset (infos S) \<and>
    notified t' = notified t @ map (\<lambda>n. (ft_path n, ft_data n)) (postorder S)"
proof -
  have dT: "distinct (addrs T)" using t by (simp add: tree_of_def addrs_infos)
  have "ft_addr S \<noteq> ft_addr T" using same_addr_same_node [OF dT S(1) self_in_postorder] S(2) by blast
  then obtain b f where b: "fheap t b = Some f" "rep (fheap t) (Some b) S" "b \<in> set (addrs T)" "b \<notin> set (addrs S)"
      "mset (infos T) = mset (infos (prune (ft_addr S) T)) + mset (infos S)"
    and h': "\<And>h'. \<forall>x. x \<notin> set (addrs S) \<and> x \<noteq> b \<longrightarrow> h' x = fheap t x \<Longrightarrow>
         h' b = Some (f\<lparr>fsubs := remove1 (ft_addr S) (fsubs f)\<rparr>) \<Longrightarrow> rep h' None (prune (ft_addr S) T)"
    using rep_prune [OF _ dT S(1), of "fheap t" None] t by (auto simp: tree_of_def)
  define t' where "t' = update_folder b (\<lambda>f. f\<lparr>fsubs := remove1 (ft_addr S) (fsubs f)\<rparr>) (drop_nodes (postorder S) t)"
  have "distinct (map fst (infos T)) \<longleftrightarrow> distinct (map fst (infos (prune (ft_addr S) T) @ infos S))"
    by (rule mset_eq_imp_distinct_iff) (simp add: b(5))
  then have dS: "distinct (addrs S)" using dT by (simp add: addrs_infos)
  obtain a p d ts where Se: "S = FT a p d ts" by (cases S)
  have rm: "remove_folder (depth_fuel t) (ft_addr S) t = Inr t'"
    unfolding t'_def Se ftree.sel
    by (rule remove_child) (use b dS depth_enough [OF t S(1)] in \<open>simp_all add: Se\<close>)
  have heap: "fheap t' x = (if x = b then Some (f\<lparr>fsubs := remove1 (ft_addr S) (fsubs f)\<rparr>)
      else if x \<in> set (addrs S) then None else fheap t x)" for x
    using b(1,4) by (simp add: t'_def update_folder_def drop_nodes_heap addrs_postorder)
  have "tree_of t' (prune (ft_addr S) T)"
  proof (rule tree_of_drop [OF t b(5)])
    show "rep (fheap t') None (prune (ft_addr S) T)" by (rule h') (simp_all add: heap)
    show "\<forall>x. fheap t' x \<noteq> None \<longleftrightarrow> fheap t x \<noteq> None \<and> x \<notin> fst ` set (infos S)"
      using b(1,4) by (auto simp: heap addrs_infos)
  qed (use t in \<open>simp_all add: tree_of_def paths_ok_prune t'_def update_folder_def drop_nodes_def\<close>)
  moreover have "notified t' = notified t @ map (\<lambda>n. (ft_path n, ft_data n)) (postorder S)"
    by (simp add: t'_def update_folder_def drop_nodes_def)
  ultimately show ?thesis using rm b(5) by blast
qed

lemma folder_map_no_tree: "no_tree t \<Longrightarrow> folder_map t q = None"
  by (simp add: no_tree_def folder_map_def)

lemma stored_path: "tree_of t T \<Longrightarrow> folder_map t p = Some d \<Longrightarrow>
    \<exists>S \<in> set (postorder T). ft_path S = p \<and> ft_data S = d \<and> map_of (path_to_folder t) p = Some (ft_addr S) \<and> path_is_absolute p"
proof -
  assume t: "tree_of t T" "folder_map t p = Some d"
  then obtain a where a: "(a, p, d) \<in> set (infos T)" using folder_map_iff by blast
  then obtain S where S: "S \<in> set (postorder T)" "ft_addr S = a" "ft_path S = p" "ft_data S = d"
    using infos_node by blast
  moreover have "map_of (path_to_folder t) p = Some a" using a lookup_path [OF t(1)] by blast
  moreover have "path_is_absolute p" using paths_ok_node [of T S] S t(1) by (simp add: tree_of_def)
  ultimately show ?thesis by blast
qed

lemma node_below:
  assumes "tree_of t T" "S \<in> set (postorder T)" "(a, q, d) \<in> set (infos T)"
  shows "(a, q, d) \<in> set (infos S) \<longleftrightarrow> below (ft_path S) q"
proof
  assume "(a, q, d) \<in> set (infos S)"
  then obtain n where "n \<in> set (postorder S)" "ft_path n = q" using infos_node by blast
  then show "below (ft_path S) q"
    using paths_below [of S n] paths_ok_node [of T S] assms by (simp add: tree_of_def)
next
  assume b: "below (ft_path S) q"
  obtain n where n: "n \<in> set (postorder T)" "info n = (a, q, d)"
    using assms(3) by (auto simp: infos_def)
  then have "n \<in> set (postorder S)"
    using subtree_below [of T S n] assms b by (simp add: tree_of_def distinct_paths info_def)
  then show "(a, q, d) \<in> set (infos S)" using n(2) by (force simp: infos_def)
qed

lemma postorder_mset: "S \<in> set (postorder T) \<Longrightarrow> mset (postorder S) \<subseteq># mset (postorder T)"
proof (induction T)
  case (FT a p d ts)
  show ?case
  proof (cases "S = FT a p d ts")
    case False
    then obtain u where u: "u \<in> set ts" "S \<in> set (postorder u)" using FT.prems by auto
    then obtain us vs where ts: "ts = us @ u # vs" by (auto simp: in_set_conv_decomp)
    have "mset (postorder (FT a p d ts)) =
        mset (postorder u) + (mset (concat (map postorder us)) + mset (concat (map postorder vs)) + {#FT a p d ts#})"
      by (simp add: ts)
    then show ?thesis using FT.IH [OF u] by (metis mset_subset_eq_add_left subset_mset.order_trans)
  qed simp
qed

lemma mset_distinct_sub: "mset xs \<subseteq># mset ys \<Longrightarrow> distinct ys \<Longrightarrow> distinct xs"
  by (metis distinct_append ex_mset mset_append mset_eq_imp_distinct_iff subset_mset.le_iff_add)

text \<open>The calls of the notification for a removed subtree.\<close>

definition calls :: "ftree \<Rightarrow> (string \<times> nat) list" where
  "calls S = map snd (infos S)"

lemma calls_postorder: "calls S = map (\<lambda>n. (ft_path n, ft_data n)) (postorder S)"
  by (simp add: calls_def infos_def info_def)

lemma calls_below:
  assumes t: "tree_of t T" and S: "S \<in> set (postorder T)"
  shows "distinct (calls S)"
    and "(q, e) \<in> set (calls S) \<longleftrightarrow> below (ft_path S) q \<and> folder_map t q = Some e"
proof -
  have d: "distinct (map snd (infos T))"
    using t by (simp add: tree_of_def) (metis distinct_map map_map)
  have m: "mset (postorder S) \<subseteq># mset (postorder T)" using S by (rule postorder_mset)
  then have "mset (calls S) \<subseteq># mset (map snd (infos T))"
    by (simp add: calls_def infos_def image_mset_subseteq_mono)
  then show "distinct (calls S)" using d by (metis mset_distinct_sub)
  have sub: "set (infos S) \<subseteq> set (infos T)" using postorder_sub [OF S] by (auto simp: infos_def)
  have "(q, e) \<in> set (calls S) \<longleftrightarrow> (\<exists>a. (a, q, e) \<in> set (infos S))" by (force simp: calls_def)
  also have "\<dots> \<longleftrightarrow> (\<exists>a. (a, q, e) \<in> set (infos T) \<and> below (ft_path S) q)"
    using sub node_below [OF t S] by blast
  also have "\<dots> \<longleftrightarrow> below (ft_path S) q \<and> folder_map t q = Some e"
    unfolding folder_map_iff [OF t, of q e] by blast
  finally show "(q, e) \<in> set (calls S) \<longleftrightarrow> below (ft_path S) q \<and> folder_map t q = Some e" .
qed

lemma remove_outcome:
  assumes t: "tree_of t T" and S: "S \<in> set (postorder T)"
  shows "\<exists>t'. remove_folder (depth_fuel t) (ft_addr S) t = Inr t' \<and> tree_ok t' \<and>
    (\<forall>q. folder_map t' q = (if below (ft_path S) q then None else folder_map t q)) \<and>
    notified t' = notified t @ calls S"
proof (cases "S = T")
  case True
  let ?t' = "drop_nodes (postorder T) t"
  have r: "remove_folder (depth_fuel t) (ft_addr T) t = Inr ?t'" "no_tree ?t'"
    using remove_root [OF t] by simp_all
  have "ft_path T = ''/''" using t by (simp add: tree_of_def)
  then have "folder_map ?t' q = (if below (ft_path S) q then None else folder_map t q)" for q
    using folder_map_no_tree [OF r(2)] True by (simp add: below_def)
  moreover have "notified ?t' = notified t @ calls S"
    using True by (simp add: drop_nodes_def calls_postorder)
  ultimately show ?thesis using r True unfolding tree_ok_def by blast
next
  case False
  obtain t' T' where r: "remove_folder (depth_fuel t) (ft_addr S) t = Inr t'" "tree_of t' T'"
      "mset (infos T) = mset (infos T') + mset (infos S)"
      "notified t' = notified t @ map (\<lambda>n. (ft_path n, ft_data n)) (postorder S)"
    using remove_subtree [OF t S False] by blast
  have "distinct (infos T)" using t by (simp add: tree_of_def distinct_map) 
  then have d: "set (infos T') \<inter> set (infos S) = {}"
    using mset_eq_imp_distinct_iff [of "infos T" "infos T' @ infos S"] r(3) by simp
  have s: "set (infos T) = set (infos T') \<union> set (infos S)"
    using r(3) by (metis set_mset_mset set_mset_union)
  have i: "(a, q, e) \<in> set (infos T') \<longleftrightarrow> (a, q, e) \<in> set (infos T) \<and> \<not> below (ft_path S) q" for a q e
  proof (cases "(a, q, e) \<in> set (infos T)")
    case True
    then show ?thesis using node_below [OF t S True] s d by blast
  next
    case False
    then show ?thesis using s by blast
  qed
  have "folder_map t' q = Some e \<longleftrightarrow> folder_map t q = Some e \<and> \<not> below (ft_path S) q" for q e
    unfolding folder_map_iff [OF t, of q e] folder_map_iff [OF r(2), of q e] i by blast
  then have "folder_map t' q = (if below (ft_path S) q then None else folder_map t q)" for q
    by (metis not_None_eq)
  then show ?thesis using r(1,2,4) unfolding tree_ok_def calls_postorder by blast
qed

text \<open>
  C4. Removing a folder never follows a freed structure and never runs out of the depth it recurses
  to. It succeeds exactly when the path is stored; then the folder and everything whose path lies under
  it are gone and nothing else is, and each removed folder is reported once, with its path and data.
\<close>

theorem folder_remove_refines:
  assumes "tree_ok t"
  shows "\<exists>t' xs. e_folder_tree_remove t p = Inr (folder_map t p \<noteq> None, t') \<and> tree_ok t' \<and>
    (\<forall>q. folder_map t' q = (if folder_map t p \<noteq> None \<and> below p q then None else folder_map t q)) \<and>
    notified t' = notified t @ xs \<and> distinct xs \<and>
    set xs = {(q, d). folder_map t p \<noteq> None \<and> below p q \<and> folder_map t q = Some d}"
proof (cases "folder_map t p")
  case None
  have "str_lookup p (path_to_folder t) = None"
    using assms None by (auto simp: tree_ok_def table_lookup no_tree_def folder_map_none)
  then show ?thesis using assms None by (auto simp: e_folder_tree_remove_def)
next
  case (Some d)
  then obtain T where t: "tree_of t T" using assms folder_map_no_tree by (auto simp: tree_ok_def)
  obtain S where S: "S \<in> set (postorder T)" "ft_path S = p" "map_of (path_to_folder t) p = Some (ft_addr S)"
      "path_is_absolute p"
    using stored_path [OF t Some] by blast
  obtain t' where t': "remove_folder (depth_fuel t) (ft_addr S) t = Inr t'" "tree_ok t'"
      "\<And>q. folder_map t' q = (if below p q then None else folder_map t q)"
      "notified t' = notified t @ calls S"
    using remove_outcome [OF t S(1)] unfolding S(2) by blast
  have "e_folder_tree_remove t p = Inr (True, t')"
    using t'(1) S by (simp add: e_folder_tree_remove_def table_lookup)
  moreover have "set (calls S) = {(q, d). below p q \<and> folder_map t q = Some d}"
    using calls_below(2) [OF t S(1)] unfolding S(2) by auto
  ultimately show ?thesis using t'(2-4) calls_below(1) [OF t S(1)] Some by auto
qed

section \<open>Adding folders\<close>

text \<open>The tree with a new first subfolder under a node.\<close>

fun graft :: "nat \<Rightarrow> ftree \<Rightarrow> ftree \<Rightarrow> ftree" where
  "graft b n (FT a p d ts) = FT a p d ((if a = b then [n] else []) @ map (graft b n) ts)"

lemma ft_addr_graft [simp]: "ft_addr (graft b n T) = ft_addr T" "ft_path (graft b n T) = ft_path T"
  by (cases T; simp)+

lemma graft_id: "b \<notin> set (addrs T) \<Longrightarrow> graft b n T = T"
  by (induction T) (auto intro!: map_idI)

lemma graft_infos:
  "distinct (addrs T) \<Longrightarrow> b \<in> set (addrs T) \<Longrightarrow> mset (infos (graft b n T)) = mset (infos T) + mset (infos n)"
proof (induction T)
  case (FT a p d ts)
  show ?case
  proof (cases "a = b")
    case True
    then have "map (graft b n) ts = ts" using FT.prems(1) by (auto intro!: map_idI graft_id)
    then show ?thesis using True by (simp add: infos_FT)
  next
    case False
    then obtain u where u: "u \<in> set ts" "b \<in> set (addrs u)" using FT.prems(2) by auto
    then obtain us vs where ts: "ts = us @ u # vs" by (auto simp: in_set_conv_decomp)
    have "map (graft b n) us = us" "map (graft b n) vs = vs"
      using FT.prems(1) u(2) by (auto intro!: map_idI graft_id simp: ts)
    moreover have "mset (infos (graft b n u)) = mset (infos u) + mset (infos n)"
      by (rule FT.IH) (use u FT.prems(1) in \<open>auto simp: distinct_concat_iff\<close>)
    ultimately show ?thesis using False by (simp add: infos_FT ts)
  qed
qed

lemma rep_graft:
  assumes "rep h par T" "distinct (addrs T)" "c \<notin> set (addrs T)" "h b = Some f"
    and "\<forall>x. x \<noteq> b \<and> x \<noteq> c \<longrightarrow> h' x = h x" "h' b = Some (f\<lparr>fsubs := c # fsubs f\<rparr>)"
    and "h' c = Some \<lparr>fparent = Some b, fpath = q, fdata = e, fsubs = []\<rparr>"
  shows "rep h' par (graft b (FT c q e []) T)"
  using assms(1-3)
proof (induction T arbitrary: par)
  case (FT a p d ts)
  let ?n = "FT c q e []"
  have ha: "h a = Some \<lparr>fparent = par, fpath = p, fdata = d, fsubs = map ft_addr ts\<rparr>" using FT.prems(1) by simp
  have sub: "rep h' (Some a) (graft b ?n t)" if t: "t \<in> set ts" for t
    by (rule FT.IH) (use t FT.prems in \<open>auto simp: list_all_iff distinct_concat_iff\<close>)
  have m: "map ft_addr (map (graft b ?n) ts) = map ft_addr ts" by simp
  show ?case
  proof (cases "a = b")
    case True
    then show ?thesis using ha assms(4,6,7) sub by (simp add: list_all_iff comp_def)
  next
    case False
    then have "h' a = h a" using assms(5) FT.prems(3) by auto
    then show ?thesis using ha False sub by (simp add: list_all_iff comp_def)
  qed
qed

lemma paths_ok_graft:
  assumes "paths_ok T" "distinct (addrs T)" "M \<in> set (postorder T)" "path_is_absolute q" "q \<noteq> ''/''"
    "get_parent_path q = ft_path M"
  shows "paths_ok (graft (ft_addr M) (FT c q e []) T)"
  using assms(1-3)
proof (induction T)
  case (FT a p d ts)
  have M: "ft_path M = p" if "a = ft_addr M"
    using that same_addr_same_node [OF FT.prems(2) FT.prems(3) self_in_postorder] by (metis ftree.sel(1,2))
  have "paths_ok (graft (ft_addr M) (FT c q e []) t)" if t: "t \<in> set ts" for t
  proof (cases "ft_addr M \<in> set (addrs t)")
    case True
    then have "M \<in> set (postorder t)"
      using t FT.prems(2,3) same_addr_same_node [OF FT.prems(2) FT.prems(3)] by (auto simp: addrs_postorder)
    then show ?thesis using FT t by (auto simp: distinct_concat_iff)
  next
    case False
    then show ?thesis using FT.prems(1) t by (simp add: graft_id)
  qed
  then show ?case using FT.prems(1) M assms(4-6) by auto
qed

lemma table_of_insert:
  "table_of t X \<Longrightarrow> k \<notin> fst ` X \<Longrightarrow> table_of (hash_insert (=) h k v t) (insert (k, v) X)"
  by (auto simp: table_of_def table_insert_new)

lemma folder_map_eqI:
  "(\<And>q e. folder_map t' q = Some e \<longleftrightarrow> (if q = p then e = d else folder_map t q = Some e)) \<Longrightarrow>
    folder_map t' = (folder_map t)(p \<mapsto> d)"
  by (rule ext) (metis fun_upd_apply not_None_eq option.inject)

lemma heap_dom: "tree_of t T \<Longrightarrow> fheap t a \<noteq> None \<longleftrightarrow> a \<in> set (addrs T)"
  unfolding tree_of_def addrs_infos by simp

lemma heap_old: "tree_of t T \<Longrightarrow> a \<in> set (addrs T) \<Longrightarrow> a < fnext t"
  unfolding tree_of_def addrs_infos by auto

text \<open>The tree after a folder was added to an empty state, and after one was added under a node.\<close>

lemma add_root:
  assumes "no_tree t"
  shows "\<exists>a t1. folder_new ''/'' d t = (a, t1) \<and> tree_of (insert_folder ''/'' d a t1) (FT a ''/'' d []) \<and>
    notified (insert_folder ''/'' d a t1) = notified t"
  using assms
  by (simp add: folder_new_def insert_folder_def no_tree_def tree_of_def infos_def info_def
      table_of_def path_entry_def data_entry_def path_is_absolute_def)

lemma add_child:
  assumes t: "tree_of t T" and M: "M \<in> set (postorder T)" "ft_path M = get_parent_path p"
    and p: "path_is_absolute p" "p \<noteq> ''/''" and new: "map_of (path_to_folder t) p = None" "map_of (data_to_path t) d = None"
  shows "\<exists>c t1 T'. folder_new p d t = (c, t1) \<and> fheap t1 (ft_addr M) \<noteq> None \<and>
    tree_of (insert_folder p d c (folder_add_subfolder (ft_addr M) c t1)) T' \<and>
    set (infos T') = insert (c, p, d) (set (infos T)) \<and>
    notified (insert_folder p d c (folder_add_subfolder (ft_addr M) c t1)) = notified t"
proof -
  let ?b = "ft_addr M" and ?c = "fnext t"
  let ?n = "FT ?c p d []"
  define t1 where "t1 = snd (folder_new p d t)"
  define t2 where "t2 = insert_folder p d ?c (folder_add_subfolder ?b ?c t1)"
  let ?T = "graft ?b ?n T"
  have b: "?b \<in> set (addrs T)" using M(1) by (simp add: addrs_postorder)
  have dT: "distinct (addrs T)" using t by (simp add: tree_of_def addrs_infos)
  have c: "?c \<notin> set (addrs T)" using heap_old [OF t] by blast
  obtain f where f: "fheap t ?b = Some f" using heap_dom [OF t, of ?b] b by blast
  have bc: "?b \<noteq> ?c" using b c by metis
  have h: "fheap t2 x = (if x = ?b then Some (f\<lparr>fsubs := ?c # fsubs f\<rparr>)
      else if x = ?c then Some \<lparr>fparent = Some ?b, fpath = p, fdata = d, fsubs = []\<rparr> else fheap t x)" for x
    using f bc by (simp add: t2_def t1_def folder_new_def folder_add_subfolder_def update_folder_def insert_folder_def)
  have m: "mset (infos ?T) = mset (infos T) + mset (infos ?n)" by (rule graft_infos [OF dT b])
  have i: "infos ?n = [(?c, p, d)]" by (simp add: infos_def info_def)
  have s: "set (infos ?T) = insert (?c, p, d) (set (infos T))"
    using m by (simp add: i) (metis set_mset_add_mset_insert set_mset_mset)
  have di: "distinct (map g (infos ?T)) \<longleftrightarrow> distinct (map g (infos T @ infos ?n))" for g :: "nat \<times> string \<times> nat \<Rightarrow> 'b"
    using m by (intro mset_eq_imp_distinct_iff) simp
  have np: "p \<notin> (fst \<circ> snd) ` set (infos T)" using new(1) lookup_path [OF t, of p] by force
  have nd: "d \<notin> (snd \<circ> snd) ` set (infos T)" using new(2) lookup_data [OF t, of d] by force
  have "rep (fheap t2) None ?T"
    by (rule rep_graft [where h = "fheap t" and b = ?b and f = f])
      (use t bc dT c f in \<open>simp_all add: tree_of_def h\<close>)
  moreover have "paths_ok ?T" by (rule paths_ok_graft) (use t dT M p in \<open>simp_all add: tree_of_def\<close>)
  moreover have "distinct (map fst (infos ?T))" "distinct (map (fst \<circ> snd) (infos ?T))"
      "distinct (map (snd \<circ> snd) (infos ?T))"
    using t c np nd unfolding di i by (simp_all add: tree_of_def addrs_infos)
  moreover have "fheap t2 a \<noteq> None \<longleftrightarrow> a \<in> fst ` set (infos ?T)" for a
    using heap_dom [OF t, of a] b unfolding h s addrs_infos by simp
  moreover have "a < fnext t2" if "a \<in> fst ` set (infos ?T)" for a
  proof -
    have "fnext t2 = Suc (fnext t)"
      by (simp add: t2_def t1_def insert_folder_def folder_add_subfolder_def update_folder_def folder_new_def)
    moreover have "a = fnext t \<or> a \<in> set (addrs T)" using that by (auto simp: s addrs_infos)
    ultimately show ?thesis using heap_old [OF t, of a] by auto
  qed
  moreover have "table_of (path_to_folder t2) (path_entry ` set (infos ?T))"
  proof -
    have "path_entry ` set (infos ?T) = insert (p, ?c) (path_entry ` set (infos T))" by (simp add: s path_entry_def)
    moreover have "path_to_folder t2 = str_insert p ?c (path_to_folder t)"
      by (simp add: t2_def t1_def insert_folder_def folder_add_subfolder_def update_folder_def folder_new_def)
    ultimately show ?thesis using t np table_of_insert [of "path_to_folder t" _ p]
      by (simp add: tree_of_def entry_keys comp_def)
  qed
  moreover have "table_of (data_to_path t2) (data_entry ` set (infos ?T))"
  proof -
    have "data_entry ` set (infos ?T) = insert (d, ?c) (data_entry ` set (infos T))" by (simp add: s data_entry_def)
    moreover have "data_to_path t2 = hash_insert (=) data_hash d ?c (data_to_path t)"
      by (simp add: t2_def t1_def insert_folder_def folder_add_subfolder_def update_folder_def folder_new_def)
    ultimately show ?thesis using t nd table_of_insert [of "data_to_path t" _ d]
      by (simp add: tree_of_def entry_keys comp_def)
  qed
  ultimately have "tree_of t2 ?T" using t by (simp add: tree_of_def)
  moreover have "folder_new p d t = (?c, t1)" by (simp add: t1_def folder_new_def)
  moreover have "fheap t1 ?b \<noteq> None" using f bc by (simp add: t1_def folder_new_def)
  moreover have "notified t2 = notified t"
    by (simp add: t2_def t1_def insert_folder_def folder_add_subfolder_def update_folder_def folder_new_def)
  ultimately show ?thesis using s unfolding t2_def by blast
qed

text \<open>When a folder can be added: what the code's tests say about the stored folders.\<close>

definition addable :: "folder_tree \<Rightarrow> string \<Rightarrow> nat \<Rightarrow> bool" where
  "addable t p d \<longleftrightarrow> path_is_absolute p \<and>
     (if p = ''/'' then \<forall>q. folder_map t q \<noteq> None \<longrightarrow> q = ''/''
      else folder_map t (get_parent_path p) \<noteq> None \<and> folder_map t p = None \<and> (\<forall>q. folder_map t q \<noteq> Some d))"

lemma data_free: "tree_of t T \<Longrightarrow> map_of (data_to_path t) d = None \<longleftrightarrow> (\<forall>q. folder_map t q \<noteq> Some d)"
  using lookup_data [of t T d] folder_map_iff [of t T _ d] by (metis not_None_eq)

lemma root_stored: "tree_of t T \<Longrightarrow>
    folder_map t ''/'' = Some (ft_data T) \<and> map_of (path_to_folder t) ''/'' = Some (ft_addr T)"
  using info_in_infos [OF self_in_postorder, of T] folder_map_iff [of t T "''/''"] lookup_path [of t T "''/''"]
  unfolding tree_of_def by metis

lemma only_root:
  assumes "tree_of t T"
  shows "(\<forall>q. folder_map t q \<noteq> None \<longrightarrow> q = ''/'') \<longleftrightarrow> ft_subs T = []"
proof
  assume o: "\<forall>q. folder_map t q \<noteq> None \<longrightarrow> q = ''/''"
  show "ft_subs T = []"
  proof (rule ccontr)
    assume "ft_subs T \<noteq> []"
    then obtain n where n: "n \<in> set (ft_subs T)" by (meson list.set_sel(1))
    then have "folder_map t (ft_path n) = Some (ft_data n)"
      using info_in_infos [OF sub_in_postorder [OF n]] folder_map_iff [OF assms] by blast
    moreover have "ft_path n \<noteq> ''/''" using assms n by (cases T) (auto simp: tree_of_def)
    ultimately show False using o by simp
  qed
next
  assume "ft_subs T = []"
  then have "set (infos T) = {(ft_addr T, ''/'', ft_data T)}"
    using assms by (cases T) (simp add: infos_FT tree_of_def)
  then show "\<forall>q. folder_map t q \<noteq> None \<longrightarrow> q = ''/''" using folder_map_iff [OF assms] by auto
qed

lemma root_single: "tree_of t T \<Longrightarrow> folder_map t ''/'' = Some r \<Longrightarrow> ft_subs T = [] \<Longrightarrow>
    map (\<lambda>n. (ft_path n, ft_data n)) (postorder T) = [(''/'', r)]"
  using root_stored [of t T] by (cases T) (simp add: tree_of_def)

text \<open>
  C7. Adding a folder succeeds exactly when the tests pass (\<open>addable\<close>: an absolute path, for the
  root no other folder, otherwise a stored parent, a free path and data no folder uses). It then stores
  the data at the path and changes no other entry; otherwise it changes nothing. Only a replaced root is reported.
\<close>

theorem folder_add_refines:
  assumes "tree_ok t"
  shows "\<exists>t' xs. e_folder_tree_add t p d = Inr (addable t p d, t') \<and> tree_ok t' \<and>
    folder_map t' = (if addable t p d then (folder_map t)(p \<mapsto> d) else folder_map t) \<and>
    notified t' = notified t @ xs \<and>
    set xs = {(q, e). addable t p d \<and> p = ''/'' \<and> q = p \<and> folder_map t p = Some e}"
proof (cases "p = ''/''")
  case True
  show ?thesis
  proof (cases "no_tree t")
    case no: True
    then have l: "map_of (path_to_folder t) ''/'' = None" by (simp add: no_tree_def)
    have a: "addable t p d" using True no by (simp add: addable_def folder_map_no_tree path_is_absolute_def)
    obtain a t1 where t1: "folder_new ''/'' d t = (a, t1)" "tree_of (insert_folder ''/'' d a t1) (FT a ''/'' d [])"
        "notified (insert_folder ''/'' d a t1) = notified t"
      using add_root [OF no] by blast
    have "folder_map (insert_folder ''/'' d a t1) = (folder_map t)(p \<mapsto> d)"
      by (rule folder_map_eqI) (auto simp: folder_map_iff [OF t1(2)] infos_def info_def folder_map_no_tree [OF no] True)
    moreover have "e_folder_tree_add t p d = Inr (True, insert_folder ''/'' d a t1)"
      using t1 l by (simp add: e_folder_tree_add_def True path_is_absolute_def table_lookup)
    ultimately show ?thesis using a t1(2,3) folder_map_no_tree [OF no] by (auto simp: tree_ok_def)
  next
    case False
    then obtain T where t: "tree_of t T" using assms by (auto simp: tree_ok_def)
    obtain r where r: "folder_map t ''/'' = Some r" "map_of (path_to_folder t) ''/'' = Some (ft_addr T)"
      using root_stored [OF t] by blast
    obtain f where f: "fheap t (ft_addr T) = Some f" "fsubs f = map ft_addr (ft_subs T)"
      using t rep_node [OF _ self_in_postorder] by (metis tree_of_def)
    show ?thesis
    proof (cases "ft_subs T = []")
      case False
      have "\<not> addable t p d" using only_root [OF t] False by (simp add: addable_def True)
      moreover have "e_folder_tree_add t p d = Inr (False, t)"
        using r(2) f False by (simp add: e_folder_tree_add_def True path_is_absolute_def table_lookup deref_def)
      ultimately show ?thesis using assms by auto
    next
      case subs: True
      let ?u = "drop_nodes (postorder T) t"
      have u: "remove_folder (depth_fuel t) (ft_addr T) t = Inr ?u" "no_tree ?u"
        using remove_root [OF t] by simp_all
      obtain a t1 where t1: "folder_new ''/'' d ?u = (a, t1)" "tree_of (insert_folder ''/'' d a t1) (FT a ''/'' d [])"
          "notified (insert_folder ''/'' d a t1) = notified ?u"
        using add_root [OF u(2)] by blast
      have o: "\<forall>q. folder_map t q \<noteq> None \<longrightarrow> q = ''/''" using only_root [OF t] subs by simp
      have a: "addable t p d" using o by (simp add: addable_def True path_is_absolute_def)
      have none: "folder_map t q = None" if "q \<noteq> ''/''" for q using o that by blast
      have "folder_map (insert_folder ''/'' d a t1) = (folder_map t)(p \<mapsto> d)"
        by (rule folder_map_eqI) (auto simp: folder_map_iff [OF t1(2)] infos_def info_def none True)
      moreover have "e_folder_tree_add t p d = Inr (True, insert_folder ''/'' d a t1)"
        using u(1) t1 r(2) f subs by (simp add: e_folder_tree_add_def True path_is_absolute_def table_lookup deref_def)
      moreover have "notified ?u = notified t @ [(''/'', r)]"
        using root_single [OF t r(1) subs] by (simp add: drop_nodes_def)
      ultimately show ?thesis using a t1(2,3) r(1) True by (auto simp: tree_ok_def)
    qed
  qed
next
  case False
  show ?thesis
  proof (cases "addable t p d")
    case no: False
    have "e_folder_tree_add t p d = Inr (False, t)"
    proof (cases "no_tree t")
      case True
      then show ?thesis using False by (simp add: e_folder_tree_add_def no_tree_def table_lookup)
    next
      case no_tree: False
      then obtain T where t: "tree_of t T" using assms by (auto simp: tree_ok_def)
      show ?thesis
        using False no
        by (auto simp: addable_def e_folder_tree_add_def table_lookup data_free [OF t] folder_map_none [OF t]
            split: option.splits)
    qed
    then show ?thesis using assms no by auto
  next
    case True
    then have a: "path_is_absolute p" "folder_map t (get_parent_path p) \<noteq> None" "folder_map t p = None"
        "\<forall>q. folder_map t q \<noteq> Some d"
      using False by (simp_all add: addable_def)
    then obtain T where t: "tree_of t T" using assms folder_map_no_tree by (auto simp: tree_ok_def)
    obtain M where M: "M \<in> set (postorder T)" "ft_path M = get_parent_path p"
        "map_of (path_to_folder t) (get_parent_path p) = Some (ft_addr M)"
      using a(2) stored_path [OF t] by blast
    have n: "map_of (path_to_folder t) p = None" "map_of (data_to_path t) d = None"
      using a(3,4) folder_map_none [OF t] data_free [OF t] by blast+
    obtain c t1 T' where c: "folder_new p d t = (c, t1)" "fheap t1 (ft_addr M) \<noteq> None"
        "tree_of (insert_folder p d c (folder_add_subfolder (ft_addr M) c t1)) T'"
        "set (infos T') = insert (c, p, d) (set (infos T))"
        "notified (insert_folder p d c (folder_add_subfolder (ft_addr M) c t1)) = notified t"
      using add_child [OF t M(1,2) a(1) False n] by blast
    have p: "\<not> (\<exists>a. (a, p, e) \<in> set (infos T))" for e using a(3) folder_map_iff [OF t, of p e] by simp
    have "folder_map (insert_folder p d c (folder_add_subfolder (ft_addr M) c t1)) = (folder_map t)(p \<mapsto> d)"
      by (rule folder_map_eqI) (use p in \<open>auto simp: folder_map_iff [OF c(3)] c(4) folder_map_iff [OF t]\<close>)
    moreover have "e_folder_tree_add t p d = Inr (True, insert_folder p d c (folder_add_subfolder (ft_addr M) c t1))"
      using c(1,2) a(1) False n M(3) by (auto simp: e_folder_tree_add_def table_lookup deref_def split: option.splits)
    ultimately show ?thesis using True False c(3,5) by (auto simp: tree_ok_def)
  qed
qed

section \<open>Looking at the tree\<close>

text \<open>The traversal of a tree, in preorder.\<close>

fun preorder :: "ftree \<Rightarrow> (string \<times> nat) list" where
  "preorder (FT a p d ts) = (p, d) # concat (map preorder ts)"

lemma preorder_calls: "mset (preorder T) = mset (calls T)"
proof (induction T)
  case (FT a p d ts)
  have "mset (concat (map preorder us)) = mset (concat (map calls us))" if "set us \<subseteq> set ts" for us
    using that FT.IH by (induction us) auto
  then have "mset (concat (map preorder ts)) = mset (concat (map calls ts))" by simp
  moreover have "map snd (concat (map infos ts)) = concat (map calls ts)"
    by (simp add: map_concat calls_def [abs_def] comp_def)
  ultimately show ?case by (simp add: calls_def infos_FT)
qed

lemma traverse_rep: "rep (fheap t) par T \<Longrightarrow> height T \<le> n \<Longrightarrow> traverse_subtree n t (ft_addr T) = Inr (preorder T)"
proof (induction T arbitrary: par n)
  case (FT a p d ts)
  then obtain m where m: "n = Suc m" by (cases n) auto
  have "traverse_subfolders m t (map ft_addr us) = Inr (concat (map preorder us))" if "set us \<subseteq> set ts" for us
    using that
  proof (induction us)
    case (Cons u us)
    then have "height u \<le> m" using height_le [of u ts] FT.prems(2) m by simp
    then have "traverse_subtree m t (ft_addr u) = Inr (preorder u)"
      using Cons.prems FT.prems(1) by (intro FT.IH) (auto simp: list_all_iff)
    then show ?case using Cons by simp
  qed simp
  from this [of ts] show ?case using FT.prems(1) by (simp add: m deref_def)
qed

lemma subfolder_paths_map:
  "\<forall>u \<in> set ts. \<exists>f. fheap t (ft_addr u) = Some f \<and> fpath f = ft_path u \<Longrightarrow>
    subfolder_paths t (map ft_addr ts) ps = Inr (rev (map ft_path ts) @ ps)"
  by (induction ts arbitrary: ps) (auto simp: deref_def)

lemma subs_distinct: "distinct (map ft_path (concat (map postorder ts))) \<Longrightarrow> distinct (map ft_path ts)"
proof (induction ts)
  case (Cons u us)
  have u: "ft_path u \<in> ft_path ` set (postorder u)" by (simp add: self_in_postorder)
  have "ft_path ` set us \<subseteq> ft_path ` set (concat (map postorder us))" using self_in_postorder by fastforce
  moreover have "ft_path ` set (postorder u) \<inter> ft_path ` set (concat (map postorder us)) = {}"
    "distinct (map ft_path (concat (map postorder us)))"
    using Cons.prems by (simp_all only: list.map concat.simps map_append distinct_append set_map)
  ultimately have "ft_path u \<notin> ft_path ` set us" using u by blast
  then show ?case using Cons by simp
qed simp

lemma subs_paths:
  assumes t: "tree_of t T" and S: "S \<in> set (postorder T)"
  shows "set (map ft_path (ft_subs S)) = {q. folder_map t q \<noteq> None \<and> q \<noteq> ''/'' \<and> get_parent_path q = ft_path S}"
    and "distinct (map ft_path (ft_subs S))"
proof -
  have ok: "paths_ok T" and d: "distinct (map ft_path (postorder T))"
    using t by (simp_all add: tree_of_def distinct_paths)
  have "paths_ok S" using paths_ok_node [OF ok S] by simp
  then have sub: "ft_path n \<noteq> ''/'' \<and> get_parent_path (ft_path n) = ft_path S" if "n \<in> set (ft_subs S)" for n
    using that by (cases S) auto
  show "set (map ft_path (ft_subs S)) = {q. folder_map t q \<noteq> None \<and> q \<noteq> ''/'' \<and> get_parent_path q = ft_path S}"
  proof (intro equalityI subsetI)
    fix q assume "q \<in> set (map ft_path (ft_subs S))"
    then obtain n where n: "n \<in> set (ft_subs S)" "q = ft_path n" by auto
    then have "n \<in> set (postorder T)" using sub_in_postorder postorder_sub [OF S] by blast
    then have "folder_map t q = Some (ft_data n)" using n(2) info_in_infos folder_map_iff [OF t] by blast
    then show "q \<in> {q. folder_map t q \<noteq> None \<and> q \<noteq> ''/'' \<and> get_parent_path q = ft_path S}" using sub n by simp
  next
    fix q assume q: "q \<in> {q. folder_map t q \<noteq> None \<and> q \<noteq> ''/'' \<and> get_parent_path q = ft_path S}"
    then obtain n where n: "n \<in> set (postorder T)" "ft_path n = q" using stored_path [OF t] by blast
    then have "n \<noteq> T" using q t by (auto simp: tree_of_def)
    then obtain m where m: "m \<in> set (postorder T)" "n \<in> set (ft_subs m)" using node_parent n(1) by blast
    have "get_parent_path (ft_path n) = ft_path m" using paths_ok_node [OF ok m(1)] m(2) by (cases m) auto
    then have "m = S" using q n d m(1) S by (auto simp: distinct_map inj_on_def)
    then show "q \<in> set (map ft_path (ft_subs S))" using m(2) n(2) by auto
  qed
  have "mset (map ft_path (postorder S)) \<subseteq># mset (map ft_path (postorder T))"
    using postorder_mset [OF S] by (simp add: image_mset_subseteq_mono)
  then have "distinct (map ft_path (postorder S))" using d by (rule mset_distinct_sub)
  then show "distinct (map ft_path (ft_subs S))" by (cases S) (simp add: subs_distinct)
qed

text \<open>
  C21. The queries agree with the stored folders: the data of a path, the path of a data pointer, the
  subfolders (the stored paths whose parent is the path, each once) and the traversal, which visits every
  folder exactly once, so that the count is the number of folders.
\<close>

theorem folder_queries:
  assumes "tree_ok t"
  shows "e_folder_tree_get_folder t p = Inr (case folder_map t p of None \<Rightarrow> 0 | Some d \<Rightarrow> d) \<and>
    (\<exists>r. e_folder_tree_get_path_for_data t d = Inr r \<and>
       (\<forall>q. r = Some q \<longleftrightarrow> d \<noteq> 0 \<and> folder_map t q = Some d)) \<and>
    (\<exists>ps. e_folder_tree_get_subfolders t p = Inr ps \<and> distinct ps \<and>
       set ps = {q. folder_map t p \<noteq> None \<and> folder_map t q \<noteq> None \<and> q \<noteq> ''/'' \<and> get_parent_path q = p}) \<and>
    (\<exists>cs. e_folder_tree_foreach t = Inr cs \<and> distinct cs \<and> set cs = {(q, e). folder_map t q = Some e} \<and>
       e_folder_tree_get_count t = Inr (length cs))"
proof (cases "no_tree t")
  case True
  then show ?thesis
    by (simp add: no_tree_def folder_map_def e_folder_tree_get_folder_def e_folder_tree_get_path_for_data_def
        e_folder_tree_get_subfolders_def e_folder_tree_foreach_def e_folder_tree_get_count_def)
next
  case False
  then obtain T where t: "tree_of t T" using assms by (auto simp: tree_ok_def)
  then have rep: "rep (fheap t) None T" by (simp add: tree_of_def)
  have stored: "\<exists>f. fheap t (ft_addr n) = Some f \<and> fpath f = ft_path n \<and> fdata f = ft_data n \<and>
      fsubs f = map ft_addr (ft_subs n)" if "n \<in> set (postorder T)" for n
    using rep_node [OF rep that] .
  have "e_folder_tree_get_folder t p = Inr (case folder_map t p of None \<Rightarrow> 0 | Some d \<Rightarrow> d) \<and>
    (\<exists>ps. e_folder_tree_get_subfolders t p = Inr ps \<and> distinct ps \<and>
       set ps = {q. folder_map t p \<noteq> None \<and> folder_map t q \<noteq> None \<and> q \<noteq> ''/'' \<and> get_parent_path q = p})"
  proof (cases "folder_map t p")
    case None
    then show ?thesis using folder_map_none [OF t, of p]
      by (simp add: e_folder_tree_get_folder_def e_folder_tree_get_subfolders_def table_lookup)
  next
    case (Some e)
    then obtain S where S: "S \<in> set (postorder T)" "ft_path S = p" "ft_data S = e"
        "map_of (path_to_folder t) p = Some (ft_addr S)" "path_is_absolute p"
      using stored_path [OF t Some] by blast
    obtain f where f: "fheap t (ft_addr S) = Some f" "fdata f = e" "fsubs f = map ft_addr (ft_subs S)"
      using stored [OF S(1)] S(3) by blast
    have "\<exists>f. fheap t (ft_addr u) = Some f \<and> fpath f = ft_path u" if "u \<in> set (ft_subs S)" for u
      using stored [of u] that sub_in_postorder postorder_sub [OF S(1)] by blast
    then have "subfolder_paths t (fsubs f) [] = Inr (rev (map ft_path (ft_subs S)))"
      unfolding f(3) by (subst subfolder_paths_map) auto
    then have "e_folder_tree_get_subfolders t p = Inr (rev (map ft_path (ft_subs S)))"
      using S(4,5) f(1) by (simp add: e_folder_tree_get_subfolders_def table_lookup deref_def)
    moreover have "e_folder_tree_get_folder t p = Inr e"
      using S(4,5) f(1,2) by (simp add: e_folder_tree_get_folder_def table_lookup deref_def)
    ultimately show ?thesis using subs_paths [OF t S(1)] S(2) Some by (simp add: distinct_map)
  qed
  moreover have "\<exists>r. e_folder_tree_get_path_for_data t d = Inr r \<and>
      (\<forall>q. r = Some q \<longleftrightarrow> d \<noteq> 0 \<and> folder_map t q = Some d)"
  proof (cases "map_of (data_to_path t) d")
    case None
    then show ?thesis using data_free [OF t, of d]
      by (simp add: e_folder_tree_get_path_for_data_def table_lookup)
  next
    case (Some a)
    then obtain q where q: "(a, q, d) \<in> set (infos T)" using lookup_data [OF t] by blast
    then obtain n where n: "n \<in> set (postorder T)" "ft_addr n = a" "ft_path n = q" using infos_node by blast
    have "folder_map t r = Some d \<longleftrightarrow> r = q" for r
    proof
      assume "folder_map t r = Some d"
      then obtain b where "(b, r, d) \<in> set (infos T)" using folder_map_iff [OF t] by blast
      then show "r = q"
        using q distinct_map_eq [of "snd \<circ> snd" "infos T" "(a, q, d)" "(b, r, d)"] t by (simp add: tree_of_def)
    next
      assume "r = q"
      then show "folder_map t r = Some d" using q folder_map_iff [OF t] by blast
    qed
    then show ?thesis using stored [OF n(1)] n(2,3) Some
      by (auto simp: e_folder_tree_get_path_for_data_def table_lookup deref_def)
  qed
  moreover have "e_folder_tree_foreach t = Inr (preorder T)"
    using traverse_rep [OF rep depth_enough [OF t self_in_postorder]] root_stored [OF t]
    by (simp add: e_folder_tree_foreach_def table_lookup)
  moreover have "distinct (preorder T) \<and> set (preorder T) = {(q, e). folder_map t q = Some e}"
  proof -
    have "ft_path T = ''/''" using t by (simp add: tree_of_def)
    then have "(q, e) \<in> set (calls T) \<longleftrightarrow> folder_map t q = Some e" for q e
      using calls_below(2) [OF t self_in_postorder] by (simp add: below_def)
    then show ?thesis
      using calls_below(1) [OF t self_in_postorder] mset_eq_imp_distinct_iff [OF preorder_calls [of T]]
        mset_eq_setD [OF preorder_calls [of T]] by auto
  qed
  ultimately show ?thesis by (simp add: e_folder_tree_get_count_def)
qed

section \<open>New and destroyed trees\<close>

lemma folder_tree_new:
  "\<exists>t. e_folder_tree_new = Inr t \<and> tree_ok t \<and> folder_map t = [''/'' \<mapsto> 0] \<and> notified t = []"
proof -
  let ?e = "\<lparr>fheap = (\<lambda>_. None), fnext = 0, path_to_folder = [], data_to_path = [], notified = []\<rparr>"
  have e: "no_tree ?e" by (simp add: no_tree_def)
  obtain a t1 where t1: "folder_new ''/'' 0 ?e = (a, t1)" "tree_of (insert_folder ''/'' 0 a t1) (FT a ''/'' 0 [])"
      "notified (insert_folder ''/'' 0 a t1) = notified ?e"
    using add_root [OF e] by blast
  have "folder_map (insert_folder ''/'' 0 a t1) = (folder_map ?e)(''/'' \<mapsto> 0)"
    by (rule folder_map_eqI) (auto simp: folder_map_iff [OF t1(2)] infos_def info_def folder_map_no_tree [OF e])
  moreover have "folder_map ?e = Map.empty" using folder_map_no_tree [OF e] by blast
  moreover have "e_folder_tree_new = Inr (insert_folder ''/'' 0 a t1)"
    using t1(1) by (simp add: e_folder_tree_new_def e_folder_tree_add_def path_is_absolute_def Let_def)
  ultimately show ?thesis using t1(2,3) by (auto simp: tree_ok_def)
qed

text \<open>Destroying a tree reports every folder; a tree without its root follows a null pointer.\<close>

lemma folder_tree_destroy:
  assumes "tree_ok t"
  shows "folder_map t ''/'' = None \<longleftrightarrow> e_folder_tree_destroy t = Inl Undefined"
    and "folder_map t ''/'' \<noteq> None \<Longrightarrow> \<exists>t' xs. e_folder_tree_destroy t = Inr t' \<and> distinct xs \<and>
      notified t' = notified t @ xs \<and> set xs = {(q, d). folder_map t q = Some d}"
proof -
  have gone: "e_folder_tree_destroy t = Inl Undefined" if "folder_map t ''/'' = None"
    using that assms root_stored
    by (force simp: tree_ok_def no_tree_def e_folder_tree_destroy_def table_lookup)
  have all: "\<exists>t' xs. e_folder_tree_destroy t = Inr t' \<and> distinct xs \<and>
      notified t' = notified t @ xs \<and> set xs = {(q, d). folder_map t q = Some d}"
    if root: "folder_map t ''/'' \<noteq> None"
  proof -
    obtain T where t: "tree_of t T" using root assms folder_map_no_tree by (auto simp: tree_ok_def)
    have "ft_path T = ''/''" using t by (simp add: tree_of_def)
    then have "(q, e) \<in> set (calls T) \<longleftrightarrow> folder_map t q = Some e" for q e
      using calls_below(2) [OF t self_in_postorder] by (simp add: below_def)
    then have "set (calls T) = {(q, d). folder_map t q = Some d}" by auto
    moreover have "\<exists>t'. e_folder_tree_destroy t = Inr t' \<and> notified t' = notified t @ calls T"
      using remove_root [OF t] root_stored [OF t]
      by (simp add: e_folder_tree_destroy_def table_lookup drop_nodes_def calls_postorder)
    ultimately show ?thesis using calls_below(1) [OF t self_in_postorder] by blast
  qed
  show "folder_map t ''/'' = None \<longleftrightarrow> e_folder_tree_destroy t = Inl Undefined"
    using gone all by force
  show "folder_map t ''/'' \<noteq> None \<Longrightarrow> \<exists>t' xs. e_folder_tree_destroy t = Inr t' \<and> distinct xs \<and>
      notified t' = notified t @ xs \<and> set xs = {(q, d). folder_map t q = Some d}"
    by (rule all)
qed

theorem folder_add_refines_witness:
  "\<exists>t t'. e_folder_tree_new = Inr t \<and> e_folder_tree_add t ''/a'' 7 = Inr (True, t') \<and> tree_ok t' \<and>
    folder_map t' = [''/'' \<mapsto> 0, ''/a'' \<mapsto> 7]"
proof -
  obtain t where t: "e_folder_tree_new = Inr t" "tree_ok t" "folder_map t = [''/'' \<mapsto> 0]"
    using folder_tree_new by blast
  moreover have "addable t ''/a'' 7"
    by (simp add: addable_def t(3) get_parent_path_def path_is_absolute_def)
  ultimately show ?thesis using folder_add_refines [of t "''/a''" 7] by auto
qed

theorem folder_remove_refines_witness:
  "\<exists>t t'. e_folder_tree_new = Inr t \<and> e_folder_tree_remove t ''/'' = Inr (True, t') \<and> notified t' = [(''/'', 0)]"
proof -
  obtain t where t: "e_folder_tree_new = Inr t" "tree_ok t" "folder_map t = [''/'' \<mapsto> 0]" "notified t = []"
    using folder_tree_new by blast
  then obtain t' xs where r: "e_folder_tree_remove t ''/'' = Inr (True, t')" "notified t' = xs" "distinct xs"
      "set xs = {(q, d). below ''/'' q \<and> [''/'' \<mapsto> (0::nat)] q = Some d}"
    using folder_remove_refines [of t "''/''"] by auto
  have "set xs = {(''/'', 0)}" unfolding r(4) by (auto simp: below_def split: if_splits)
  then have "xs = [(''/'', 0)]" using r(3) by (cases xs; cases "tl xs") auto
  then show ?thesis using t(1) r(1,2) by blast
qed

theorem folder_queries_witness:
  "\<exists>t. e_folder_tree_new = Inr t \<and> e_folder_tree_get_count t = Inr 1 \<and> e_folder_tree_get_subfolders t ''/'' = Inr []"
proof -
  obtain t where t: "e_folder_tree_new = Inr t" "tree_ok t" "folder_map t = [''/'' \<mapsto> 0]"
    using folder_tree_new by blast
  then obtain ps cs where q: "e_folder_tree_get_subfolders t ''/'' = Inr ps" "distinct cs"
      "set ps = {q. [''/'' \<mapsto> (0::nat)] q \<noteq> None \<and> q \<noteq> ''/'' \<and> get_parent_path q = ''/''}"
      "set cs = {(q, e). [''/'' \<mapsto> (0::nat)] q = Some e}" "e_folder_tree_get_count t = Inr (length cs)"
    using folder_queries [OF t(2), of "''/''" 0] unfolding t(3) by auto
  have "set cs = {(''/'', 0)}" unfolding q(4) by (auto split: if_splits)
  then have "length cs = 1" using distinct_card [OF q(2)] by simp
  moreover have "ps = []" using q(3) by (auto split: if_splits)
  ultimately show ?thesis using t(1) q(1,5) by auto
qed

end
