(* ===== verification/Xml.thy ===== *)
theory Xml
  imports C_Text
begin

text \<open>
  XML documents as the server library reads and writes them (server/lib/e2k-xml-utils.c). A libxml2
  node is a tree here; a pointer to a node of a document is its position, the indices from the node
  up to the document, whose own position is empty. The parsers of libxml2 are not modelled: a parsed
  document is an argument of what uses one.
\<close>

section \<open>Nodes\<close>

text \<open>An attribute is its namespace, its name and its value.\<close>

datatype xmlNode =
    Elem string "string option" "(string option \<times> string \<times> string) list" "xmlNode list"
  | Text string
  | Comment string

fun node_name :: "xmlNode \<Rightarrow> string" where
  "node_name (Elem name ns attrs kids) = name"
| "node_name (Text s) = ''text''"
| "node_name (Comment s) = ''comment''"

fun node_ns :: "xmlNode \<Rightarrow> string option" where
  "node_ns (Elem name ns attrs kids) = ns"
| "node_ns _ = None"

fun node_kids :: "xmlNode \<Rightarrow> xmlNode list" where
  "node_kids (Elem name ns attrs kids) = kids"
| "node_kids _ = []"

text \<open>\<open>node->content\<close>, a null pointer for an element.\<close>

fun node_content :: "xmlNode \<Rightarrow> string option" where
  "node_content (Elem name ns attrs kids) = None"
| "node_content (Text s) = Some s"
| "node_content (Comment s) = Some s"

fun is_element :: "xmlNode \<Rightarrow> bool" where
  "is_element (Elem name ns attrs kids) \<longleftrightarrow> True"
| "is_element _ \<longleftrightarrow> False"

text \<open>\<open>xmlGetNsProp\<close>.\<close>

fun node_attr :: "string \<Rightarrow> string \<Rightarrow> xmlNode \<Rightarrow> string option" where
  "node_attr name ns (Elem _ _ attrs _) =
     map_option (\<lambda>(_, _, v). v) (find (\<lambda>(n, a, _). n = Some ns \<and> a = name) attrs)"
| "node_attr name ns _ = None"

definition E2K_IS_NODE :: "xmlNode \<Rightarrow> string \<Rightarrow> string \<Rightarrow> bool" where
  "E2K_IS_NODE node nspace nname \<longleftrightarrow> node_name node = nname \<and> node_ns node = Some nspace"

section \<open>Writing\<close>

definition E2K_XML_HEADER :: string where
  "E2K_XML_HEADER = ''<?xml version=\"1.0\" encoding=\"utf-8\" ?>''"

definition escape_char :: "char \<Rightarrow> string" where
  "escape_char c =
     (if c = CHR ''<'' then ''&lt;''
      else if c = CHR ''>'' then ''&gt;''
      else if c = CHR ''&'' then ''&amp;''
      else if c = CHR ''\"'' then ''&quot;''
      else [c])"

definition e2k_g_string_append_xml_escaped :: "string \<Rightarrow> string \<Rightarrow> string" where
  "e2k_g_string_append_xml_escaped buf val = buf @ concat (map escape_char val)"

section \<open>Searching\<close>

text \<open>The children of the node at a position, and the node.\<close>

fun kids_at :: "xmlNode list \<Rightarrow> nat list \<Rightarrow> xmlNode list" where
  "kids_at doc [] = doc"
| "kids_at doc (i # p) =
     (if i < length (kids_at doc p) then node_kids (kids_at doc p ! i) else [])"

fun name_at :: "xmlNode list \<Rightarrow> nat list \<Rightarrow> string" where
  "name_at doc [] = []"
| "name_at doc (i # p) = node_name (kids_at doc p ! i)"

text \<open>The inner loop: up to a node with a younger sibling, to the top, or out of the document.\<close>

fun climb :: "xmlNode list \<Rightarrow> nat list option \<Rightarrow> nat list \<Rightarrow> nat list option" where
  "climb doc bound [] = (if bound = Some [] then Some [] else None)"
| "climb doc bound (i # p) =
     (if Suc i < length (kids_at doc p) \<or> bound = Some (i # p) then Some (i # p) else climb doc bound p)"

definition sibling_after :: "xmlNode list \<Rightarrow> nat list option \<Rightarrow> nat list \<Rightarrow> nat list option" where
  "sibling_after doc bound node = (case climb doc bound node of
     None \<Rightarrow> None
   | Some n \<Rightarrow> if bound = Some n then None else (case n of [] \<Rightarrow> None | i # p \<Rightarrow> Some (Suc i # p)))"

definition find_step :: "xmlNode list \<Rightarrow> nat list option \<Rightarrow> nat list \<Rightarrow> nat list option" where
  "find_step doc bound node =
     (if kids_at doc node \<noteq> [] then Some (0 # node) else sibling_after doc bound node)"

fun find_loop :: "nat \<Rightarrow> xmlNode list \<Rightarrow> nat list \<Rightarrow> nat list option \<Rightarrow> string \<Rightarrow> nat list option result" where
  "find_loop 0 doc node bound name = Inl Out_of_fuel"
| "find_loop (Suc n) doc node bound name = (case find_step doc bound node of
     None \<Rightarrow> Inr None
   | Some m \<Rightarrow> if name_at doc m = name then Inr (Some m) else find_loop n doc m bound name)"

text \<open>Fuel: one more than the number of nodes.\<close>

fun node_count :: "xmlNode \<Rightarrow> nat" where
  "node_count (Elem name ns attrs kids) = Suc (sum_list (map node_count kids))"
| "node_count _ = 1"

definition e2k_xml_find_in :: "xmlNode list \<Rightarrow> nat list option \<Rightarrow> nat list option \<Rightarrow> string \<Rightarrow> nat list option result" where
  "e2k_xml_find_in doc node bound name = (case node of
     None \<Rightarrow> Inr None
   | Some node \<Rightarrow> find_loop (Suc (sum_list (map node_count doc))) doc node bound name)"

definition e2k_xml_find :: "xmlNode list \<Rightarrow> nat list option \<Rightarrow> string \<Rightarrow> nat list option result" where
  "e2k_xml_find doc node name = e2k_xml_find_in doc node None name"

section \<open>Escaped text\<close>

text \<open>How an XML reader takes character data: up to the next markup, with the predefined entities.\<close>

fun read_text :: "string \<Rightarrow> (string \<times> string) option" where
  "read_text [] = Some ([], [])"
| "read_text (c # s) =
     (if c = CHR ''<'' then Some ([], c # s)
      else if c = CHR ''&'' then
        (if take 3 s = ''lt;'' then map_option (apfst ((#) CHR ''<'')) (read_text (drop 3 s))
         else if take 3 s = ''gt;'' then map_option (apfst ((#) CHR ''>'')) (read_text (drop 3 s))
         else if take 4 s = ''amp;'' then map_option (apfst ((#) CHR ''&'')) (read_text (drop 4 s))
         else if take 5 s = ''quot;'' then map_option (apfst ((#) CHR ''\"'')) (read_text (drop 5 s))
         else None)
      else map_option (apfst ((#) c)) (read_text s))"

lemma read_escape_char: "read_text (escape_char c @ s) = map_option (apfst ((#) c)) (read_text s)"
  by (simp add: escape_char_def)

lemma read_escaped: "r = [] \<or> hd r = CHR ''<'' \<Longrightarrow> read_text (concat (map escape_char s) @ r) = Some (s, r)"
proof (induction s)
  case Nil
  then show ?case by (cases r) auto
next
  case (Cons c s)
  then show ?case by (simp add: read_escape_char)
qed

text \<open>
  Appended text comes back, character for character, when the document is read: the reader of
  XML takes exactly the text up to the markup behind it, so that no value can end its element, open
  another one, or end an attribute.
\<close>

theorem escaped_text:
  shows "read_text (drop (length buf) (e2k_g_string_append_xml_escaped buf s) @ ''</'' @ r) = Some (s, ''</'' @ r)
    \<and> CHR ''\"'' \<notin> set (drop (length buf) (e2k_g_string_append_xml_escaped buf s))"
  using read_escaped [of "''</'' @ r" s]
  by (auto simp: e2k_g_string_append_xml_escaped_def escape_char_def)

section \<open>Document order\<close>

fun pre_node :: "nat list \<Rightarrow> xmlNode \<Rightarrow> nat list list"
  and pre_list :: "nat list \<Rightarrow> nat \<Rightarrow> xmlNode list \<Rightarrow> nat list list" where
  "pre_node p (Elem name ns attrs kids) = p # pre_list p 0 kids"
| "pre_node p (Text s) = [p]"
| "pre_node p (Comment s) = [p]"
| "pre_list p i [] = []"
| "pre_list p i (k # ks) = pre_node (i # p) k @ pre_list p (Suc i) ks"

text \<open>The positions below a pointer's bound, in document order: the subtree of the bound, or the document.\<close>

definition region :: "xmlNode list \<Rightarrow> nat list option \<Rightarrow> nat list list" where
  "region doc bound = (case bound of
     None \<Rightarrow> pre_list [] 0 doc
   | Some t \<Rightarrow> t # pre_list t 0 (kids_at doc t))"

lemma sibling_after_root [simp]: "sibling_after doc bound [] = None"
  by (simp add: sibling_after_def)

lemma sibling_after_Cons:
  "sibling_after doc bound (i # p) =
     (if bound = Some (i # p) then None
      else if Suc i < length (kids_at doc p) then Some (Suc i # p) else sibling_after doc bound p)"
  by (simp add: sibling_after_def)

lemma pre_node_kids: "pre_node p k = p # pre_list p 0 (node_kids k)"
  by (cases k) auto

abbreviation follows :: "xmlNode list \<Rightarrow> nat list option \<Rightarrow> nat list \<Rightarrow> nat list \<Rightarrow> bool" where
  "follows doc bound a b \<equiv> find_step doc bound a = Some b"

lemma document_order:
  "(\<forall>p. kids_at doc p = node_kids k \<longrightarrow> (\<forall>q. q \<noteq> [] \<longrightarrow> bound \<noteq> Some (q @ p)) \<longrightarrow>
     successively (follows doc bound) (pre_node p k) \<and>
     find_step doc bound (last (pre_node p k)) = sibling_after doc bound p)"
  "(\<forall>p i. drop i (kids_at doc p) = ks \<longrightarrow> ks \<noteq> [] \<longrightarrow> (\<forall>q. q \<noteq> [] \<longrightarrow> bound \<noteq> Some (q @ p)) \<longrightarrow>
     successively (follows doc bound) (pre_list p i ks) \<and> pre_list p i ks \<noteq> [] \<and> hd (pre_list p i ks) = i # p \<and>
     find_step doc bound (last (pre_list p i ks)) = sibling_after doc bound p)"
proof -
  have lists: "\<forall>p i. drop i (kids_at doc p) = ks \<longrightarrow> ks \<noteq> [] \<longrightarrow> (\<forall>q. q \<noteq> [] \<longrightarrow> bound \<noteq> Some (q @ p)) \<longrightarrow>
     successively (follows doc bound) (pre_list p i ks) \<and> pre_list p i ks \<noteq> [] \<and> hd (pre_list p i ks) = i # p \<and>
     find_step doc bound (last (pre_list p i ks)) = sibling_after doc bound p"
    if nodes: "\<forall>k \<in> set ks. \<forall>p. kids_at doc p = node_kids k \<longrightarrow> (\<forall>q. q \<noteq> [] \<longrightarrow> bound \<noteq> Some (q @ p)) \<longrightarrow>
     successively (follows doc bound) (pre_node p k) \<and>
     find_step doc bound (last (pre_node p k)) = sibling_after doc bound p" for ks
    using nodes
  proof (induction ks)
    case (Cons k ks)
    show ?case
    proof (intro allI impI)
      fix p i
      assume d: "drop i (kids_at doc p) = k # ks" and b: "\<forall>q. q \<noteq> [] \<longrightarrow> bound \<noteq> Some (q @ p)"
      have i: "i < length (kids_at doc p)" using d by (metis drop_all list.distinct(1) not_le)
      then have k: "kids_at doc p ! i = k" "drop (Suc i) (kids_at doc p) = ks"
        using d by (metis Cons_nth_drop_Suc list.inject)+
      have b': "bound \<noteq> Some (i # p)" "\<forall>q. q \<noteq> [] \<longrightarrow> bound \<noteq> Some (q @ i # p)"
        using b [rule_format, of "[i]"] b [rule_format, of "_ @ [i]"] by auto
      have n: "successively (follows doc bound) (pre_node (i # p) k)"
          "find_step doc bound (last (pre_node (i # p) k)) = sibling_after doc bound (i # p)"
        using Cons.prems b' i k(1) by simp_all
      have h: "hd (pre_node (i # p) k) = i # p" "pre_node (i # p) k \<noteq> []" by (simp_all add: pre_node_kids)
      show "successively (follows doc bound) (pre_list p i (k # ks)) \<and> pre_list p i (k # ks) \<noteq> [] \<and>
          hd (pre_list p i (k # ks)) = i # p \<and>
          find_step doc bound (last (pre_list p i (k # ks))) = sibling_after doc bound p"
      proof (cases "ks = []")
        case True
        then have "\<not> Suc i < length (kids_at doc p)" using k(2) by simp
        then show ?thesis using n h True b'(1) by (simp add: sibling_after_Cons)
      next
        case False
        then have "Suc i < length (kids_at doc p)" using k(2) by (metis drop_all not_le)
        moreover have "successively (follows doc bound) (pre_list p (Suc i) ks) \<and> pre_list p (Suc i) ks \<noteq> [] \<and>
            hd (pre_list p (Suc i) ks) = Suc i # p \<and>
            find_step doc bound (last (pre_list p (Suc i) ks)) = sibling_after doc bound p"
          using Cons.IH Cons.prems k(2) False b by simp
        ultimately show ?thesis using n h b'(1) by (simp add: successively_append_iff sibling_after_Cons)
      qed
    qed
  qed simp
  have node: "\<forall>p. kids_at doc p = node_kids k \<longrightarrow> (\<forall>q. q \<noteq> [] \<longrightarrow> bound \<noteq> Some (q @ p)) \<longrightarrow>
     successively (follows doc bound) (pre_node p k) \<and>
     find_step doc bound (last (pre_node p k)) = sibling_after doc bound p" for k
  proof (induction k)
    case (Elem name ns attrs ks)
    show ?case
    proof (intro allI impI)
      fix p assume p: "kids_at doc p = node_kids (Elem name ns attrs ks)" "\<forall>q. q \<noteq> [] \<longrightarrow> bound \<noteq> Some (q @ p)"
      have f: "find_step doc bound p = (if ks = [] then sibling_after doc bound p else Some (0 # p))"
        using p(1) by (simp add: find_step_def)
      show "successively (follows doc bound) (pre_node p (Elem name ns attrs ks)) \<and>
          find_step doc bound (last (pre_node p (Elem name ns attrs ks))) = sibling_after doc bound p"
      proof (cases "ks = []")
        case False
        then have "successively (follows doc bound) (pre_list p 0 ks) \<and> pre_list p 0 ks \<noteq> [] \<and>
            hd (pre_list p 0 ks) = 0 # p \<and>
            find_step doc bound (last (pre_list p 0 ks)) = sibling_after doc bound p"
          using lists [of ks] Elem.IH p by simp
        then show ?thesis using f False by (cases "pre_list p 0 ks") auto
      qed (use f in simp)
    qed
  qed (simp_all add: find_step_def)
  show "\<forall>p. kids_at doc p = node_kids k \<longrightarrow> (\<forall>q. q \<noteq> [] \<longrightarrow> bound \<noteq> Some (q @ p)) \<longrightarrow>
     successively (follows doc bound) (pre_node p k) \<and>
     find_step doc bound (last (pre_node p k)) = sibling_after doc bound p" by (rule node)
  show "\<forall>p i. drop i (kids_at doc p) = ks \<longrightarrow> ks \<noteq> [] \<longrightarrow> (\<forall>q. q \<noteq> [] \<longrightarrow> bound \<noteq> Some (q @ p)) \<longrightarrow>
     successively (follows doc bound) (pre_list p i ks) \<and> pre_list p i ks \<noteq> [] \<and> hd (pre_list p i ks) = i # p \<and>
     find_step doc bound (last (pre_list p i ks)) = sibling_after doc bound p"
    using lists node by blast
qed

lemma region_order:
  "successively (follows doc bound) (region doc bound) \<and>
    (region doc bound \<noteq> [] \<longrightarrow> find_step doc bound (last (region doc bound)) = None)"
proof (cases bound)
  case None
  then show ?thesis using document_order(2) [of doc doc bound, rule_format, of 0 "[]"]
    by (cases doc) (simp_all add: region_def)
next
  case (Some t)
  let ?k = "Elem [] None [] (kids_at doc t)"
  have "successively (follows doc bound) (pre_node t ?k) \<and>
      find_step doc bound (last (pre_node t ?k)) = sibling_after doc bound t"
    using document_order(1) [of doc ?k bound, rule_format, of t] Some by simp
  moreover have "sibling_after doc bound t = None" by (cases t) (simp_all add: Some sibling_after_Cons)
  ultimately show ?thesis by (simp add: region_def Some)
qed

lemma length_pre: "length (pre_node p k) = node_count k" "length (pre_list p i ks) = sum_list (map node_count ks)"
  by (induction p k and p i ks rule: pre_node_pre_list.induct) auto

lemma kids_count: "sum_list (map node_count (kids_at doc p)) \<le> sum_list (map node_count doc)"
proof (induction p)
  case (Cons i p)
  show ?case
  proof (cases "i < length (kids_at doc p)")
    case True
    let ?k = "kids_at doc p ! i"
    have "sum_list (map node_count (node_kids ?k)) \<le> node_count ?k" by (cases ?k) auto
    also have "\<dots> \<le> sum_list (map node_count (kids_at doc p))"
      using True by (intro member_le_sum_list) auto
    finally show ?thesis using Cons True by simp
  qed simp
qed simp

lemma find_loop_chain:
  "successively (follows doc bound) (node # ys) \<Longrightarrow> find_step doc bound (last (node # ys)) = None \<Longrightarrow>
    length ys < n \<Longrightarrow> find_loop n doc node bound name = Inr (find (\<lambda>m. name_at doc m = name) ys)"
proof (induction ys arbitrary: node n)
  case Nil
  then show ?case by (cases n) auto
next
  case (Cons y ys)
  then show ?case by (cases n) (auto split: if_splits)
qed

text \<open>
  C20. The search returns, for a start anywhere in the region, the first node behind it in document
  order that has the name, or a null pointer when there is none: nothing in the region is skipped,
  nothing outside it is returned, and a caller that continues from each match sees every match once.
\<close>

theorem xml_find_order:
  assumes "region doc bound = xs @ node # ys"
  shows "e2k_xml_find_in doc (Some node) bound name = Inr (find (\<lambda>m. name_at doc m = name) ys)"
proof -
  have c: "successively (follows doc bound) (node # ys)" "find_step doc bound (last (node # ys)) = None"
    using region_order [of doc bound] unfolding assms by (simp_all add: successively_append_iff)
  have "length (region doc bound) \<le> Suc (sum_list (map node_count doc))"
    using kids_count [of doc] by (auto simp: region_def length_pre split: option.splits)
  then have "length ys < Suc (sum_list (map node_count doc))" unfolding assms by simp
  then show ?thesis using find_loop_chain [OF c] by (simp add: e2k_xml_find_in_def del: find_loop.simps)
qed

definition sample_doc :: "xmlNode list" where
  "sample_doc = [Elem ''html'' None []
     [Elem ''form'' None [] [Text ''x'', Elem ''input'' None [] []], Elem ''p'' None [] [Elem ''input'' None [] []]]]"

theorem xml_find_order_witness:
  "e2k_xml_find_in sample_doc (Some [0, 0]) (Some [0, 0]) ''input'' = Inr (Some [1, 0, 0])
    \<and> e2k_xml_find_in sample_doc (Some [1, 0, 0]) (Some [0, 0]) ''input'' = Inr None"
proof -
  have "region sample_doc (Some [0, 0]) = [] @ [0, 0] # [[0, 0, 0], [1, 0, 0]]"
    "region sample_doc (Some [0, 0]) = [[0, 0], [0, 0, 0]] @ [1, 0, 0] # []"
    by code_simp+
  from this [THEN xml_find_order, of "''input''"] show ?thesis by (simp add: sample_doc_def)
qed

end
