(* ===== verification/Http.thy ===== *)
theory Http
  imports Times
begin

text \<open>
  The HTTP helpers (server/lib/e2k-http-utils.c): dates and status lines of responses, the language
  header and the lookup of a header. A status is an integer; the codes of transport errors are those
  of libsoup's \<open>soup-status.h\<close>.
\<close>

section \<open>Status codes\<close>

definition E2K_HTTP_CANCELLED :: int where "E2K_HTTP_CANCELLED = 1"
definition E2K_HTTP_MALFORMED :: int where "E2K_HTTP_MALFORMED = 8"
definition E2K_HTTP_OK :: int where "E2K_HTTP_OK = 200"
definition E2K_HTTP_MULTI_STATUS :: int where "E2K_HTTP_MULTI_STATUS = 207"
definition E2K_HTTP_PRECONDITION_FAILED :: int where "E2K_HTTP_PRECONDITION_FAILED = 412"
definition E2K_HTTP_REQUESTED_RANGE_NOT_SATISFIABLE :: int where "E2K_HTTP_REQUESTED_RANGE_NOT_SATISFIABLE = 416"

definition E2K_HTTP_STATUS_IS_SUCCESSFUL :: "int \<Rightarrow> bool" where
  "E2K_HTTP_STATUS_IS_SUCCESSFUL status \<longleftrightarrow> 200 \<le> status \<and> status < 300"

lemmas http_status_defs = E2K_HTTP_CANCELLED_def E2K_HTTP_MALFORMED_def E2K_HTTP_OK_def E2K_HTTP_MULTI_STATUS_def
  E2K_HTTP_PRECONDITION_FAILED_def E2K_HTTP_REQUESTED_RANGE_NOT_SATISFIABLE_def E2K_HTTP_STATUS_IS_SUCCESSFUL_def

text \<open>
  The tests look at one character after the other and stop at the first mismatch, so a short line is
  not read behind its end.
\<close>

definition e2k_http_parse_status :: "string \<Rightarrow> int" where
  "e2k_http_parse_status status_line =
     (if take 7 status_line \<noteq> ''HTTP/1.'' \<or> length status_line < 9
         \<or> \<not> isdigit (status_line ! 7) \<or> status_line ! 8 \<noteq> CHR '' ''
      then E2K_HTTP_MALFORMED else atoi (drop 9 status_line))"

section \<open>Dates\<close>

text \<open>Moving a pointer into a string: behind the final NUL it must not be read.\<close>

definition step_ptr :: "nat \<Rightarrow> string \<Rightarrow> string result" where
  "step_ptr n p = (if n \<le> length p then Inr (drop n p) else Inl Undefined)"

text \<open>The loop over the names of the months, 12 when none is at the pointer.\<close>

fun month_index :: "nat \<Rightarrow> string list \<Rightarrow> string \<Rightarrow> nat" where
  "month_index i [] p = i"
| "month_index i (m # ms) p = (if take 3 p = m then i else month_index (Suc i) ms p)"

definition e2k_http_parse_date :: "(tm \<Rightarrow> int) \<Rightarrow> string \<Rightarrow> int result" where
  "e2k_http_parse_date e_mktime_utc date =
     (if length date < 29 \<or> date ! 3 \<noteq> CHR '','' \<or> date ! 4 \<noteq> CHR '' '' then Inr (-1)
      else let p = drop 5 date; mday = int_of_long (strtol p); p = strtol_end p in
        ok_bind (step_ptr 1 p) (\<lambda>p.
        let mon = int (month_index 0 e2k_rfc822_months p) in
        ok_bind (step_ptr 3 p) (\<lambda>p.
        let year = int_of_long (strtol p - 1900); p = strtol_end p;
            hour = int_of_long (strtol p); p = strtol_end p in
        ok_bind (step_ptr 1 p) (\<lambda>p.
        let mins = int_of_long (strtol p); p = strtol_end p in
        ok_bind (step_ptr 1 p) (\<lambda>p.
        let sec = int_of_long (strtol p) in
        Inr (e_mktime_utc \<lparr>tm_year = year, tm_mon = mon, tm_mday = mday,
               tm_hour = hour, tm_min = mins, tm_sec = sec\<rparr>))))))"

section \<open>Headers\<close>

definition strcspn :: "string \<Rightarrow> string \<Rightarrow> nat" where
  "strcspn s reject = length (takeWhile (\<lambda>c. c \<notin> set reject) s)"

text \<open>\<open>getenv ("LANG")\<close> is an argument; the value kept from the first call is the state.\<close>

definition e2k_http_accept_language :: "string option \<Rightarrow> string option \<Rightarrow> string \<times> string option" where
  "e2k_http_accept_language env accept = (case accept of
     Some s \<Rightarrow> (s, accept)
   | None \<Rightarrow>
       (let lang = (case env of None \<Rightarrow> ''en'' | Some l \<Rightarrow> if l = ''C'' \<or> l = ''POSIX'' then ''en'' else l);
            baselen = strcspn lang ''_.@'';
            buf = take baselen lang;
            buf = (if take 1 (drop baselen lang) = ''_''
                   then let sub = drop (baselen + 1) lang
                        in buf @ ''-'' @ take (strcspn sub ''.@'') sub @ '', '' @ take baselen lang
                   else buf);
            buf = (if baselen \<noteq> 2 \<or> take 2 lang \<noteq> ''en'' then buf @ '', en'' else buf)
        in (buf, Some buf)))"

text \<open>The headers of a message in order, names compared without case.\<close>

definition maybe_append_header :: "string \<Rightarrow> string \<Rightarrow> string \<Rightarrow> string list \<Rightarrow> string list" where
  "maybe_append_header wanted header_name val matches =
     (if map tolower header_name = map tolower wanted then matches @ [val] else matches)"

definition e2k_http_get_headers :: "(string \<times> string) list \<Rightarrow> string \<Rightarrow> string list" where
  "e2k_http_get_headers hdrs header_name =
     fold (\<lambda>(name, val). maybe_append_header header_name name val) hdrs []"

section \<open>Lemmas\<close>

lemma fmt_d_digits: "0 \<le> i \<Longrightarrow> fmt_d w i \<noteq> [] \<and> (\<forall>c \<in> set (fmt_d w i). is_base 10 c)"
  using set_pad0 [of w "to_base 10 (nat i)"] to_base_digits [of 10 "nat i"]
  by (auto simp: fmt_d_def pad0_nonempty is_base_0)

lemma digit_plain: "is_base 10 c \<Longrightarrow> \<not> isspace c \<and> c \<noteq> CHR ''-'' \<and> c \<noteq> CHR ''+''"
  by (auto simp: is_base_def digit_val_def isspace_def isdigit_def isupper_def islower_def ch_code_def split: if_splits)

lemma strtol_fmt_d:
  assumes "0 \<le> i" "i < 2 ^ 31" "r = [] \<or> \<not> is_base 10 (hd r)"
  shows "strtol (fmt_d w i @ r) = i" "strtol_end (fmt_d w i @ r) = r"
    "strtol (CHR '' '' # fmt_d w i @ r) = i" "strtol_end (CHR '' '' # fmt_d w i @ r) = r"
proof -
  have d: "fmt_d w i \<noteq> []" "\<forall>c \<in> set (fmt_d w i). is_base 10 c" using fmt_d_digits assms(1) by blast+
  then obtain c cs where c: "fmt_d w i = c # cs" "is_base 10 c" by (cases "fmt_d w i") auto
  have space: "isspace CHR '' ''" by (simp add: isspace_def ch_code_def)
  have sp: "dropWhile isspace (fmt_d w i @ r) = fmt_d w i @ r"
    "dropWhile isspace (CHR '' '' # fmt_d w i @ r) = fmt_d w i @ r"
    using digit_plain [OF c(2)] space by (simp_all add: c(1))
  have sg: "skip_sign (fmt_d w i @ r) = (False, fmt_d w i @ r)"
    using digit_plain [OF c(2)] by (simp add: c(1) skip_sign_def)
  have tw: "takeWhile (is_base 10) (fmt_d w i @ r) = fmt_d w i" "dropWhile (is_base 10) (fmt_d w i @ r) = r"
    using d(2) assms(3) by (cases r; auto)+
  have n: "int (num_of 10 (fmt_d w i)) = i" using assms(1) by (simp add: fmt_d_def num_of_to_base)
  show "strtol (fmt_d w i @ r) = i" "strtol (CHR '' '' # fmt_d w i @ r) = i"
    using assms n space by (simp_all add: strtol_def sp sg tw del: dropWhile.simps)
  show "strtol_end (fmt_d w i @ r) = r" "strtol_end (CHR '' '' # fmt_d w i @ r) = r"
    using d(1) by (simp_all add: strtol_end_def sp sg tw del: dropWhile.simps)
qed

lemma int_of_long_id: "- (2 ^ 31) \<le> i \<Longrightarrow> i < 2 ^ 31 \<Longrightarrow> int_of_long i = i"
  by (simp add: int_of_long_def signed_of_int signed_take_bit_int_eq_self)

lemma length_fmt_d: "0 \<le> i \<Longrightarrow> w \<le> length (fmt_d w i)"
  by (simp add: fmt_d_def length_pad0)

lemma month_index_nth:
  "distinct ms \<Longrightarrow> \<forall>m \<in> set ms. length m = 3 \<Longrightarrow> k < length ms \<Longrightarrow> month_index i ms (ms ! k @ r) = i + k"
  by (induction ms arbitrary: i k) (auto simp: nth_Cons split: nat.splits)

lemma months_3: "\<forall>m \<in> set e2k_rfc822_months. length m = 3"
  and months_distinct: "distinct e2k_rfc822_months"
  and months_12: "length e2k_rfc822_months = 12"
  by code_simp+

lemma month_index_months: "m < 12 \<Longrightarrow> month_index 0 e2k_rfc822_months (e2k_rfc822_months ! m @ r) = m"
  by (simp add: month_index_nth months_3 months_distinct months_12)

lemma month_length: "m < 12 \<Longrightarrow> length (e2k_rfc822_months ! m) = 3"
  using months_3 months_12 by simp

text \<open>The date of a response as RFC 1123 has it.\<close>

definition rfc1123_date :: "string \<Rightarrow> int \<Rightarrow> string" where
  "rfc1123_date wday t =
     (let tm = gmtime t in
      wday @ '', '' @ fmt_d 2 (tm_mday tm) @ '' '' @ e2k_rfc822_months ! nat (tm_mon tm) @ '' '' @
      fmt_d 4 (tm_year tm + 1900) @ '' '' @ fmt_d 2 (tm_hour tm) @ '':'' @
      fmt_d 2 (tm_min tm) @ '':'' @ fmt_d 2 (tm_sec tm) @ '' GMT'')"

lemma step_ptr_append: "length xs = n \<Longrightarrow> step_ptr n (xs @ r) = Inr r"
  and step_ptr_Cons: "step_ptr 1 (c # r) = Inr r"
  by (simp_all add: step_ptr_def)

lemma not_digit_space: "\<not> is_base 10 CHR '' ''"
  by (simp add: is_base_def digit_val_def isdigit_def isupper_def islower_def ch_code_def)

text \<open>
  A date of a response in the form of RFC 1123, for a time of the years 0 to 9999, is read back
  as that time when \<open>e_mktime_utc\<close> inverts \<open>gmtime\<close> at it.
\<close>

theorem http_date_roundtrip:
  assumes wday: "length wday = 3"
    and year: "0 \<le> tm_year (gmtime t) + 1900" "tm_year (gmtime t) + 1900 \<le> 9999"
    and mktime: "e_mktime_utc (gmtime t) = t"
  shows "e2k_http_parse_date e_mktime_utc (rfc1123_date wday t) = Inr t"
proof -
  define tm where "tm = gmtime t"
  note r = gmtime_ranges [of t, folded tm_def] gmtime_date_ranges [of t, folded tm_def]
  define m where "m = nat (tm_mon tm)"
  have m: "m < 12" "int m = tm_mon tm" using r by (simp_all add: m_def)
  obtain a b c where w: "wday = [a, b, c]" using wday
    by (metis length_0_conv length_Suc_conv numeral_3_eq_3)
  let ?date = "[a, b, c] @ '', '' @ fmt_d 2 (tm_mday tm) @ '' '' @ e2k_rfc822_months ! m @ '' '' @
      fmt_d 4 (tm_year tm + 1900) @ '' '' @ fmt_d 2 (tm_hour tm) @ '':'' @
      fmt_d 2 (tm_min tm) @ '':'' @ fmt_d 2 (tm_sec tm) @ '' GMT''"
  have date: "rfc1123_date wday t = ?date" by (simp add: rfc1123_date_def tm_def [symmetric] m_def w)
  have len: "29 \<le> length ?date" 
    using length_fmt_d [of "tm_mday tm" 2] length_fmt_d [of "tm_year tm + 1900" 4] length_fmt_d [of "tm_hour tm" 2]
      length_fmt_d [of "tm_min tm" 2] length_fmt_d [of "tm_sec tm" 2] r year [folded tm_def]
    by (simp add: month_length [OF m(1)])
  have fields: "\<lparr>tm_year = tm_year tm, tm_mon = tm_mon tm, tm_mday = tm_mday tm,
      tm_hour = tm_hour tm, tm_min = tm_min tm, tm_sec = tm_sec tm\<rparr> = gmtime t"
    by (simp add: tm_def)
  note rd = strtol_fmt_d [where r = "_ # _"]
  have "e2k_http_parse_date e_mktime_utc ?date = Inr (e_mktime_utc (gmtime t))"
    using len r year [folded tm_def] m
    by (simp add: e2k_http_parse_date_def Let_def rd not_digit_sep not_digit_space int_of_long_id
        month_index_months step_ptr_Cons [simplified] step_ptr_append [OF month_length [OF m(1)]] fields)
  with mktime show ?thesis by (simp add: date)
qed

theorem http_date_roundtrip_witness:
  "e2k_http_parse_date (\<lambda>tm. if tm = gmtime 784111777 then 784111777 else -1) ''Sun, 06 Nov 1994 08:49:37 GMT''
    = Inr 784111777"
proof -
  have y: "0 \<le> tm_year (gmtime 784111777) + 1900" "tm_year (gmtime 784111777) + 1900 \<le> 9999"
    by code_simp+
  have "rfc1123_date ''Sun'' 784111777 = ''Sun, 06 Nov 1994 08:49:37 GMT''" by code_simp
  moreover have "e2k_http_parse_date (\<lambda>tm. if tm = gmtime 784111777 then 784111777 else -1)
      (rfc1123_date ''Sun'' 784111777) = Inr 784111777"
    by (rule http_date_roundtrip [OF _ y]) simp_all
  ultimately show ?thesis by simp
qed

text \<open>A date without the separators makes the code read behind the string.\<close>

lemma parse_date_overread: "e2k_http_parse_date e_mktime_utc ''Sun, 000000000000000000000006'' = Inl Undefined"
  by code_simp

lemma accept_language_samples:
  "fst (e2k_http_accept_language (Some ''fr'') None) = ''fr, en''"
  "fst (e2k_http_accept_language (Some ''de_AT.utf8@euro'') None) = ''de-AT, de, en''"
  "fst (e2k_http_accept_language (Some ''en_GB.UTF-8'') None) = ''en-GB, en''"
  by code_simp+

lemma get_headers: "e2k_http_get_headers hdrs name =
    map snd (filter (\<lambda>h. map tolower (fst h) = map tolower name) hdrs)"
proof -
  have "fold (\<lambda>(n, v). maybe_append_header name n v) hdrs acc =
      acc @ map snd (filter (\<lambda>h. map tolower (fst h) = map tolower name) hdrs)" for acc
    by (induction hdrs arbitrary: acc) (auto simp: maybe_append_header_def)
  then show ?thesis by (simp add: e2k_http_get_headers_def)
qed

end
