(* ===== verification/Multistatus.thy ===== *)
theory Multistatus
  imports Xml Http Property_Store
begin

text \<open>
  Multi-Status responses (server/lib/e2k-result.c): how the XML of a response becomes an array of
  results with their property stores. The XML parser of libxml2 (\<open>e2k_parse_xml\<close>) and
  \<open>g_base64_decode\<close> are arguments. Following a null pointer is \<open>Undefined\<close>, and so is a value
  that is freed as another type than it has.
\<close>

section \<open>Properties of a result\<close>

type_synonym props = "xmlNode E2kProperties"

record E2kResult =
  href :: "string option"
  res_status :: int
  res_props :: "props option"

text \<open>What the parser works with: the two library functions.\<close>

record parsers =
  base64_decode :: "string \<Rightarrow> byte list"
  parse_xml :: "string \<Rightarrow> xmlNode list option"

definition E2K_NS_MAPI_ID :: string where
  "E2K_NS_MAPI_ID = ''http://schemas.microsoft.com/mapi/id/''"

text \<open>The text of the first child, when it has any.\<close>

definition first_content :: "xmlNode \<Rightarrow> string option" where
  "first_content node = (case node_kids node of [] \<Rightarrow> None | c # _ \<Rightarrow> node_content c)"

definition decode_content :: "parsers \<Rightarrow> xmlNode \<Rightarrow> byte list" where
  "decode_content ps node = (case first_content node of None \<Rightarrow> [] | Some s \<Rightarrow> base64_decode ps s)"

definition content_text :: "xmlNode \<Rightarrow> string" where
  "content_text node = (case first_content node of None \<Rightarrow> [] | Some s \<Rightarrow> s)"

definition prop_get_binary_array ::
  "parsers \<Rightarrow> prop_tables \<Rightarrow> props \<Rightarrow> string \<Rightarrow> xmlNode \<Rightarrow> (props \<times> prop_tables) result" where
  "prop_get_binary_array ps g props propname node =
     e2k_properties_set_binary_array g props propname (map (decode_content ps) (node_kids node))"

definition prop_get_string_array ::
  "prop_tables \<Rightarrow> props \<Rightarrow> string \<Rightarrow> e2k_prop_type \<Rightarrow> xmlNode \<Rightarrow> (props \<times> prop_tables) result" where
  "prop_get_string_array g props propname real_type node =
     e2k_properties_set_type_as_string_array g props propname real_type (map content_text (node_kids node))"

definition prop_get_binary ::
  "parsers \<Rightarrow> prop_tables \<Rightarrow> props \<Rightarrow> string \<Rightarrow> xmlNode \<Rightarrow> (props \<times> prop_tables) result" where
  "prop_get_binary ps g props propname node = e2k_properties_set_binary g props propname (decode_content ps node)"

definition prop_get_string ::
  "prop_tables \<Rightarrow> props \<Rightarrow> string \<Rightarrow> e2k_prop_type \<Rightarrow> xmlNode \<Rightarrow> (props \<times> prop_tables) result" where
  "prop_get_string g props propname real_type node =
     e2k_properties_set_type_as_string g props propname real_type (content_text node)"

definition prop_get_xml :: "prop_tables \<Rightarrow> props \<Rightarrow> string \<Rightarrow> xmlNode \<Rightarrow> (props \<times> prop_tables) result" where
  "prop_get_xml g props propname node = e2k_properties_set_xml g props propname node"

text \<open>The name of a property; the 0 that the names of MAPI ids begin with is put back.\<close>

definition prop_name :: "string \<Rightarrow> string \<Rightarrow> string" where
  "prop_name ns name =
     (if take (length E2K_NS_MAPI_ID) ns = E2K_NS_MAPI_ID then ns @ ''0'' @ name else ns @ name)"

definition set_parsed ::
  "parsers \<Rightarrow> prop_tables \<Rightarrow> props \<Rightarrow> string \<Rightarrow> string option \<Rightarrow> xmlNode \<Rightarrow> (props \<times> prop_tables) result" where
  "set_parsed ps g props name type node =
     (if type = Some ''mv.bin.base64'' then prop_get_binary_array ps g props name node
      else if type = Some ''mv.int'' then prop_get_string_array g props name PT_INT_ARRAY node
      else if map_option (take 3) type = Some ''mv.'' then prop_get_string_array g props name PT_STRING_ARRAY node
      else if type = Some ''bin.base64'' then prop_get_binary ps g props name node
      else if type = Some ''int'' then prop_get_string g props name PT_INT node
      else if type = Some ''boolean'' then prop_get_string g props name PT_BOOL node
      else if type = Some ''float'' then prop_get_string g props name PT_FLOAT node
      else if type = Some ''dateTime.tz'' then prop_get_string g props name PT_DATE node
      else if node_kids node = [] \<or> node_kids (hd (node_kids node)) = [] then prop_get_string g props name PT_STRING node
      else prop_get_xml g props name node)"

definition prop_parse :: "parsers \<Rightarrow> prop_tables \<Rightarrow> xmlNode \<Rightarrow> E2kResult \<Rightarrow> (E2kResult \<times> prop_tables) result" where
  "prop_parse ps g node r = (case node_ns node of
     None \<Rightarrow> Inr (r, g)
   | Some ns \<Rightarrow>
       (let props = (case res_props r of None \<Rightarrow> e2k_properties_new | Some p \<Rightarrow> p)
        in ok_bind (set_parsed ps g props (prop_name ns (node_name node)) (node_attr ''dt'' E2K_NS_TYPE node) node)
             (\<lambda>(props, g). Inr (r\<lparr>res_props := Some props\<rparr>, g))))"

section \<open>Results\<close>

text \<open>\<open>node->xmlChildrenNode->content\<close> of a status element: without text there is nothing to read.\<close>

definition status_content :: "xmlNode \<Rightarrow> int result" where
  "status_content node = (case first_content node of
     None \<Rightarrow> Inl Undefined | Some s \<Rightarrow> Inr (e2k_http_parse_status s))"

fun parse_props :: "parsers \<Rightarrow> prop_tables \<Rightarrow> xmlNode list \<Rightarrow> E2kResult \<Rightarrow> (E2kResult \<times> prop_tables) result" where
  "parse_props ps g [] r = Inr (r, g)"
| "parse_props ps g (node # ns) r =
     (if is_element node
      then ok_bind (prop_parse ps g node r) (\<lambda>(r, g). parse_props ps g ns r)
      else parse_props ps g ns r)"

text \<open>A first or second child that is not there is a null pointer, which the test of its name reads.\<close>

definition propstat_parse :: "parsers \<Rightarrow> prop_tables \<Rightarrow> xmlNode \<Rightarrow> E2kResult \<Rightarrow> (E2kResult \<times> prop_tables) result" where
  "propstat_parse ps g node r = (case node_kids node of
     [] \<Rightarrow> Inl Undefined
   | s # later \<Rightarrow>
       if \<not> E2K_IS_NODE s ''DAV:'' ''status'' then Inr (r, g)
       else ok_bind (status_content s) (\<lambda>st.
         let r = r\<lparr>res_status := st\<rparr>
         in if st \<noteq> E2K_HTTP_OK then Inr (r, g)
            else case later of
              [] \<Rightarrow> Inl Undefined
            | p # _ \<Rightarrow> if \<not> E2K_IS_NODE p ''DAV:'' ''prop'' then Inr (r, g)
                       else parse_props ps g (node_kids p) r))"

text \<open>\<open>xmlNodeGetContent\<close>: the text of a node and of everything in it.\<close>

fun all_text :: "xmlNode \<Rightarrow> string" where
  "all_text (Elem name ns attrs kids) = concat (map all_text (filter (\<lambda>k. case k of Comment _ \<Rightarrow> False | _ \<Rightarrow> True) kids))"
| "all_text (Text s) = s"
| "all_text (Comment s) = s"

fun parse_response :: "parsers \<Rightarrow> prop_tables \<Rightarrow> xmlNode list \<Rightarrow> E2kResult \<Rightarrow> (E2kResult \<times> prop_tables) result" where
  "parse_response ps g [] r = Inr (r, g)"
| "parse_response ps g (node # ns) r =
     (if \<not> is_element node then parse_response ps g ns r
      else ok_bind
        (if E2K_IS_NODE node ''DAV:'' ''href'' then Inr (r\<lparr>href := Some (all_text node)\<rparr>, g)
         else if E2K_IS_NODE node ''DAV:'' ''status''
         then ok_bind (status_content node) (\<lambda>st. Inr (r\<lparr>res_status := st\<rparr>, g))
         else if E2K_IS_NODE node ''DAV:'' ''propstat'' then propstat_parse ps g node r
         else prop_parse ps g node r)
        (\<lambda>(r, g). parse_response ps g ns r))"

definition e2k_result_clear :: "prop_tables \<Rightarrow> E2kResult \<Rightarrow> E2kResult result" where
  "e2k_result_clear g r = (case res_props r of
     None \<Rightarrow> Inr (r\<lparr>href := None\<rparr>)
   | Some p \<Rightarrow> ok_bind (e2k_properties_free g p) (\<lambda>_. Inr (r\<lparr>href := None, res_props := None\<rparr>)))"

fun add_responses ::
  "parsers \<Rightarrow> prop_tables \<Rightarrow> xmlNode list \<Rightarrow> E2kResult list \<Rightarrow> (E2kResult list \<times> prop_tables) result" where
  "add_responses ps g [] array = Inr (array, g)"
| "add_responses ps g (node # ns) array =
     (if \<not> E2K_IS_NODE node ''DAV:'' ''response'' \<or> node_kids node = [] then add_responses ps g ns array
      else ok_bind (parse_response ps g (node_kids node) \<lparr>href = None, res_status = E2K_HTTP_OK, res_props = None\<rparr>)
        (\<lambda>(r, g).
          if href r \<noteq> None then
            add_responses ps g ns (array @
              [if E2K_HTTP_STATUS_IS_SUCCESSFUL (res_status r) \<and> res_props r = None
               then r\<lparr>res_props := Some e2k_properties_new\<rparr> else r])
          else ok_bind (e2k_result_clear g r) (\<lambda>_. add_responses ps g ns array)))"

section \<open>Names that are no XML names\<close>

text \<open>\<open>while ((p = strstr (body, pat))) g_string_erase (body, p + k - body, 1);\<close>\<close>

function erase_all :: "string \<Rightarrow> nat \<Rightarrow> string \<Rightarrow> string" where
  "erase_all pat k body = (case strstr body pat of
     None \<Rightarrow> body
   | Some p \<Rightarrow> if p + k < length body then erase_all pat k (take (p + k) body @ drop (Suc (p + k)) body) else body)"
  by pat_completeness auto
termination
  by (relation "measure (\<lambda>(pat, k, body). length body)") auto

declare erase_all.simps [simp del]

text \<open>
  One turn of the loop over the namespace declarations: \<open>st\<close> is the index of the next one, \<open>None\<close>
  the end of the loop. First the properties of the namespace are repaired, then the next declaration
  is looked for behind the quotes of this one.
\<close>

definition strip_zeros :: "char \<Rightarrow> string \<Rightarrow> string" where
  "strip_zeros ns body = erase_all (''</'' @ [ns] @ '':0x'') 4 (erase_all (''<'' @ [ns] @ '':0x'') 3 body)"

definition next_declaration :: "string \<Rightarrow> nat \<Rightarrow> nat option" where
  "next_declaration body st = (case strchr (drop st body) CHR ''\"'' of
     None \<Rightarrow> None
   | Some q \<Rightarrow> (case strchr (drop (st + q + 1) body) CHR ''\"'' of
       None \<Rightarrow> None
     | Some q' \<Rightarrow> if take 1 (drop (st + q + q' + 2) body) \<noteq> '' '' then None else Some (st + q + q' + 3)))"

definition sanitize_turn :: "string \<Rightarrow> nat \<Rightarrow> (string \<times> nat option) result" where
  "sanitize_turn body st =
     (if st > length body then Inl Undefined
      else if take 6 (drop st body) \<noteq> ''xmlns:'' then Inr (body, None)
      else if st + 6 = length body then Inl Undefined
      else if take 2 (drop (st + 7) body) \<noteq> ''=\"'' then Inr (body, None)
      else let body' = (if take (length E2K_NS_MAPI_ID) (drop (st + 9) body) = E2K_NS_MAPI_ID
                        then strip_zeros (body ! (st + 6)) body else body)
           in if st > length body' then Inl Undefined else Inr (body', next_declaration body' st))"

text \<open>Each turn begins further on, so as many turns as there are characters are enough.\<close>

fun sanitize_loop :: "nat \<Rightarrow> string \<Rightarrow> nat \<Rightarrow> string result" where
  "sanitize_loop 0 body st = Inl Out_of_fuel"
| "sanitize_loop (Suc n) body st = ok_bind (sanitize_turn body st) (\<lambda>(body, nxt).
     case nxt of None \<Rightarrow> Inr body | Some st \<Rightarrow> sanitize_loop n body st)"

text \<open>The buffer of a message; \<open>strstr\<close> and \<open>strchr\<close> stop at a NUL in it.\<close>

definition c_string :: "string \<Rightarrow> string" where
  "c_string s = takeWhile (\<lambda>c. c \<noteq> nul) s"

definition sanitize_bad_multistatus :: "string \<Rightarrow> string option result" where
  "sanitize_bad_multistatus buf =
     (if CHR ''{'' \<notin> set buf then Inr None
      else let body = c_string buf
           in case strstr body '' xmlns:'' of
                None \<Rightarrow> Inr None
              | Some p \<Rightarrow>
                  if CHR ''>'' \<notin> set (drop p body) then Inr None
                  else ok_bind (sanitize_loop (Suc (Suc (length body))) body (p + 1)) (\<lambda>s. Inr (Some s)))"

section \<open>Whole responses\<close>

definition e2k_results_array_add_from_multistatus ::
  "parsers \<Rightarrow> prop_tables \<Rightarrow> E2kResult list \<Rightarrow> int \<Rightarrow> string \<Rightarrow> (E2kResult list \<times> prop_tables) result" where
  "e2k_results_array_add_from_multistatus ps g results_array status_code response_body =
     (if status_code \<noteq> E2K_HTTP_MULTI_STATUS then Inr (results_array, g)
      else ok_bind (sanitize_bad_multistatus response_body) (\<lambda>body.
        case parse_xml ps (case body of Some s \<Rightarrow> s | None \<Rightarrow> response_body) of
          None \<Rightarrow> Inr (results_array, g)
        | Some doc \<Rightarrow> (case doc of
            [] \<Rightarrow> Inr (results_array, g)
          | root # _ \<Rightarrow>
              if \<not> E2K_IS_NODE root ''DAV:'' ''multistatus'' then Inr (results_array, g)
              else add_responses ps g (node_kids root) results_array)))"

definition e2k_results_from_multistatus ::
  "parsers \<Rightarrow> prop_tables \<Rightarrow> int \<Rightarrow> string \<Rightarrow> (E2kResult list \<times> prop_tables) result" where
  "e2k_results_from_multistatus ps g status_code response_body =
     e2k_results_array_add_from_multistatus ps g [] status_code response_body"

fun e2k_results_copy :: "(xmlNode \<Rightarrow> xmlNode) \<Rightarrow> prop_tables \<Rightarrow> E2kResult list \<Rightarrow> E2kResult list result" where
  "e2k_results_copy cn g [] = Inr []"
| "e2k_results_copy cn g (r # rs) =
     ok_bind (case res_props r of
         None \<Rightarrow> Inr None
       | Some p \<Rightarrow> ok_bind (e2k_properties_copy cn g p) (\<lambda>p. Inr (Some p))) (\<lambda>p.
     ok_bind (e2k_results_copy cn g rs) (\<lambda>rs. Inr (r\<lparr>res_props := p\<rparr> # rs)))"

fun e2k_results_free :: "prop_tables \<Rightarrow> E2kResult list \<Rightarrow> unit result" where
  "e2k_results_free g [] = Inr ()"
| "e2k_results_free g (r # rs) = ok_bind (e2k_result_clear g r) (\<lambda>_. e2k_results_free g rs)"

section \<open>Repairing always ends\<close>

lemma length_erase_all: "length (erase_all pat k body) \<le> length body"
proof (induction pat k body rule: erase_all.induct)
  case (1 pat k body)
  then show ?case by (subst erase_all.simps) (auto split: option.splits)
qed

lemma erase_all_gone: "strstr (erase_all pat k body) pat = None \<or>
    (\<exists>p. strstr (erase_all pat k body) pat = Some p \<and> length (erase_all pat k body) \<le> p + k)"
proof (induction pat k body rule: erase_all.induct)
  case (1 pat k body)
  then show ?case by (subst (1 2 3) erase_all.simps) (auto split: option.splits)
qed

lemma length_strip_zeros: "length (strip_zeros ns body) \<le> length body"
  unfolding strip_zeros_def by (meson le_trans length_erase_all)

lemma next_declaration_inside: "next_declaration body st = Some st' \<Longrightarrow> st < st' \<and> st' \<le> length body"
proof -
  assume "next_declaration body st = Some st'"
  then obtain q q' where q: "st' = st + q + q' + 3" "take 1 (drop (st + q + q' + 2) body) = '' ''"
    by (auto simp: next_declaration_def split: option.splits if_splits)
  then have "\<not> length body \<le> st + q + q' + 2" by auto
  then show ?thesis using q(1) by simp
qed

lemma sanitize_loop_total: "length body - st < n \<Longrightarrow> sanitize_loop n body st \<noteq> Inl Out_of_fuel"
proof (induction n arbitrary: body st)
  case (Suc n)
  show ?case
  proof (cases "sanitize_turn body st")
    case (Inl e)
    then have "e = Undefined" by (auto simp: sanitize_turn_def Let_def split: if_splits)
    then show ?thesis using Inl by simp
  next
    case (Inr r)
    obtain body' nxt where r: "r = (body', nxt)" by (cases r)
    show ?thesis
    proof (cases nxt)
      case None
      then show ?thesis using Inr r by simp
    next
      case (Some st')
      have l: "length body' \<le> length body" "st' > st" "st' \<le> length body'"
        using Inr r Some length_strip_zeros next_declaration_inside
        by (auto simp: sanitize_turn_def Let_def split: if_splits)
      then have "length body' - st' < n" using Suc.prems by linarith
      then show ?thesis using Suc.IH Inr r Some by simp
    qed
  qed
qed simp

lemma sanitize_total: "sanitize_bad_multistatus buf \<noteq> Inl Out_of_fuel"
proof -
  have "sanitize_loop (Suc (Suc (length body))) body st \<noteq> Inl Out_of_fuel" for body st
    by (rule sanitize_loop_total) simp
  then show ?thesis
    by (auto simp: sanitize_bad_multistatus_def Let_def ok_bind_eq_Inl simp del: sanitize_loop.simps split: option.splits)
qed

end
