(* ===== verification/Webdav.thy ===== *)
theory Webdav
  imports Multistatus Uri Sql Utils
begin

text \<open>
  The requests of the WebDAV client (server/lib/e2k-context.c): the messages it builds, with their
  XML bodies, and the requests that need one message. The HTTP library is an argument: a session says
  which URIs it accepts, whether the operation was cancelled, and how the server answers a message,
  changing the state of the world. Base64 encoding is an argument too. A message that the library
  refuses to make is a null pointer, which the code follows.
\<close>

section \<open>Messages\<close>

record soup_message =
  msg_method :: string
  msg_uri :: string
  request_headers :: "(string \<times> string) list"
  request_type :: "string option"
  request_body :: string
  no_redirect :: bool

record soup_response =
  status_code :: int
  response_header :: "string \<Rightarrow> string option"
  response_body :: string

record 'w session =
  uri_valid :: "string \<Rightarrow> bool"
  op_cancelled :: "'w \<Rightarrow> bool"
  transport :: "soup_message \<Rightarrow> 'w \<Rightarrow> soup_response \<times> 'w"

definition add_header :: "string \<Rightarrow> string \<Rightarrow> soup_message \<Rightarrow> soup_message" where
  "add_header name val msg = msg\<lparr>request_headers := request_headers msg @ [(name, val)]\<rparr>"

definition replace_header :: "string \<Rightarrow> string \<Rightarrow> soup_message \<Rightarrow> soup_message" where
  "replace_header name val msg = msg\<lparr>request_headers :=
     filter (\<lambda>h. map tolower (fst h) \<noteq> map tolower name) (request_headers msg) @ [(name, val)]\<rparr>"

text \<open>\<open>soup_message_new\<close>.\<close>

definition new_message :: "'w session \<Rightarrow> string \<Rightarrow> string option \<Rightarrow> soup_message result" where
  "new_message ss method uri = (case uri of
     None \<Rightarrow> Inl Undefined
   | Some u \<Rightarrow> if uri_valid ss u
               then Inr \<lparr>msg_method = method, msg_uri = u, request_headers = [], request_type = None,
                         request_body = [], no_redirect = False\<rparr>
               else Inl Undefined)"

definition e2k_soup_message_new :: "'w session \<Rightarrow> string \<Rightarrow> string \<Rightarrow> soup_message result" where
  "e2k_soup_message_new ss uri method =
     (if take 1 method = ''B'' then new_message ss method (e2k_strdup_with_trailing_slash (Some uri))
      else new_message ss method (Some uri))"

definition e2k_soup_message_new_full :: "'w session \<Rightarrow> string \<Rightarrow> string \<Rightarrow> string \<Rightarrow> string \<Rightarrow> soup_message result" where
  "e2k_soup_message_new_full ss uri method content_type body =
     ok_bind (e2k_soup_message_new ss uri method) (\<lambda>msg.
     Inr (msg\<lparr>request_type := Some content_type, request_body := body\<rparr>))"

definition cancelled_response :: soup_response where
  "cancelled_response = \<lparr>status_code = E2K_HTTP_CANCELLED, response_header = (\<lambda>_. None), response_body = []\<rparr>"

definition e2k_context_send_message :: "'w session \<Rightarrow> soup_message \<Rightarrow> 'w \<Rightarrow> soup_response \<times> 'w" where
  "e2k_context_send_message ss msg w =
     (if op_cancelled ss w then (cancelled_response, w) else transport ss msg w)"

section \<open>GET, PUT, POST and DELETE\<close>

definition get_msg :: "'w session \<Rightarrow> string \<Rightarrow> bool \<Rightarrow> bool \<Rightarrow> string \<Rightarrow> soup_message result" where
  "get_msg ss uri owa claim_ie version =
     ok_bind (e2k_soup_message_new ss uri ''GET'') (\<lambda>msg.
     let msg = (if \<not> owa then add_header ''Translate'' ''F'' msg else msg)
     in Inr (if claim_ie
             then replace_header ''User-Agent'' (''MSIE 6.0b (Windows NT 5.0; compatible; Evolution/'' @ version @ '')'') msg
             else msg))"

text \<open>A successful request gives the content type and the body; otherwise the arguments are untouched.\<close>

definition e2k_context_get ::
  "'w session \<Rightarrow> string \<Rightarrow> 'w \<Rightarrow> (int \<times> (string option \<times> string) option \<times> 'w) result" where
  "e2k_context_get ss uri w =
     ok_bind (get_msg ss uri False False []) (\<lambda>msg.
     let (resp, w) = e2k_context_send_message ss msg w
     in Inr (status_code resp,
          if E2K_HTTP_STATUS_IS_SUCCESSFUL (status_code resp)
          then Some (response_header resp ''Content-Type'', response_body resp) else None, w))"

definition e2k_context_get_owa ::
  "'w session \<Rightarrow> string \<Rightarrow> string \<Rightarrow> bool \<Rightarrow> 'w \<Rightarrow> (int \<times> string option \<times> 'w) result" where
  "e2k_context_get_owa ss version uri claim_ie w =
     ok_bind (get_msg ss uri True claim_ie version) (\<lambda>msg.
     let (resp, w) = e2k_context_send_message ss msg w
     in Inr (status_code resp,
          if E2K_HTTP_STATUS_IS_SUCCESSFUL (status_code resp) then Some (response_body resp) else None, w))"

definition put_msg :: "'w session \<Rightarrow> string \<Rightarrow> string \<Rightarrow> string \<Rightarrow> soup_message result" where
  "put_msg ss uri content_type body =
     ok_bind (e2k_soup_message_new_full ss uri ''PUT'' content_type body) (\<lambda>msg. Inr (add_header ''Translate'' ''f'' msg))"

definition post_msg :: "'w session \<Rightarrow> string \<Rightarrow> string \<Rightarrow> string \<Rightarrow> soup_message result" where
  "post_msg ss uri content_type body =
     ok_bind (e2k_soup_message_new_full ss uri ''POST'' content_type body) (\<lambda>msg. Inr (msg\<lparr>no_redirect := True\<rparr>))"

text \<open>The location and the Repl-UID of a successful response.\<close>

definition extract_put_results :: "soup_response \<Rightarrow> (string option \<times> string option) option" where
  "extract_put_results resp =
     (if E2K_HTTP_STATUS_IS_SUCCESSFUL (status_code resp)
      then Some (response_header resp ''Location'', response_header resp ''Repl-UID'') else None)"

definition e2k_context_put ::
  "'w session \<Rightarrow> string \<Rightarrow> string \<Rightarrow> string \<Rightarrow> 'w \<Rightarrow> (int \<times> (string option \<times> string option) option \<times> 'w) result" where
  "e2k_context_put ss uri content_type body w =
     ok_bind (put_msg ss uri content_type body) (\<lambda>msg.
     let (resp, w) = e2k_context_send_message ss msg w
     in Inr (status_code resp, extract_put_results resp, w))"

definition e2k_context_post ::
  "'w session \<Rightarrow> string \<Rightarrow> string \<Rightarrow> string \<Rightarrow> 'w \<Rightarrow> (int \<times> (string option \<times> string option) option \<times> 'w) result" where
  "e2k_context_post ss uri content_type body w =
     ok_bind (post_msg ss uri content_type body) (\<lambda>msg.
     let (resp, w) = e2k_context_send_message ss msg w
     in Inr (status_code resp, extract_put_results resp, w))"

definition delete_msg :: "'w session \<Rightarrow> string \<Rightarrow> soup_message result" where
  "delete_msg ss uri = e2k_soup_message_new ss uri ''DELETE''"

definition e2k_context_delete :: "'w session \<Rightarrow> string \<Rightarrow> 'w \<Rightarrow> (int \<times> 'w) result" where
  "e2k_context_delete ss uri w =
     ok_bind (delete_msg ss uri) (\<lambda>msg.
     let (resp, w) = e2k_context_send_message ss msg w in Inr (status_code resp, w))"

definition e2k_context_transfer_dir ::
  "'w session \<Rightarrow> string \<Rightarrow> string \<Rightarrow> bool \<Rightarrow> 'w \<Rightarrow> (int \<times> string option option \<times> 'w) result" where
  "e2k_context_transfer_dir ss source_href dest_href delete_original w =
     ok_bind (e2k_soup_message_new ss source_href (if delete_original then ''MOVE'' else ''COPY'')) (\<lambda>msg.
     let msg = add_header ''Destination'' dest_href (add_header ''Overwrite'' ''f'' msg);
         (resp, w) = e2k_context_send_message ss msg w
     in Inr (status_code resp,
          if E2K_HTTP_STATUS_IS_SUCCESSFUL (status_code resp)
          then Some (response_header resp ''MS-Exchange-Permanent-URL'') else None, w))"

section \<open>New names\<close>

text \<open>
  The callback that tests a name is a predicate here. The loops run until it accepts, and until the
  server does; without an accepted name they do not end, which the fuel shows.
\<close>

definition candidate_uri :: "string \<Rightarrow> string \<Rightarrow> int \<Rightarrow> string" where
  "candidate_uri folder_uri encoded_name count =
     (if count = 1 then folder_uri @ encoded_name @ ''.EML''
      else folder_uri @ encoded_name @ ''-'' @ fmt_d 0 count @ ''.EML'')"

fun unique_uri :: "nat \<Rightarrow> (string \<Rightarrow> bool) option \<Rightarrow> string \<Rightarrow> string \<Rightarrow> int \<Rightarrow> (string \<times> int) result" where
  "unique_uri 0 test folder_uri encoded_name count = Inl Out_of_fuel"
| "unique_uri (Suc n) test folder_uri encoded_name count =
     (let uri = candidate_uri folder_uri encoded_name count
      in case test of
           None \<Rightarrow> Inr (uri, count + 1)
         | Some t \<Rightarrow> if t uri then Inr (uri, count + 1)
                     else unique_uri n test folder_uri encoded_name (count + 1))"

definition update_unique_uri ::
  "nat \<Rightarrow> 'w session \<Rightarrow> soup_message \<Rightarrow> string \<Rightarrow> string \<Rightarrow> int \<Rightarrow> (string \<Rightarrow> bool) option \<Rightarrow>
    (soup_message \<times> int) result" where
  "update_unique_uri n ss msg folder_uri encoded_name count test =
     ok_bind (unique_uri n test folder_uri encoded_name count) (\<lambda>(uri, count).
     if uri_valid ss uri then Inr (msg\<lparr>msg_uri := uri\<rparr>, count) else Inl Undefined)"

fun send_new ::
  "nat \<Rightarrow> 'w session \<Rightarrow> soup_message \<Rightarrow> string \<Rightarrow> string \<Rightarrow> int \<Rightarrow> (string \<Rightarrow> bool) option \<Rightarrow> 'w \<Rightarrow>
    (soup_response \<times> soup_message \<times> 'w) result" where
  "send_new 0 ss msg slash_uri encoded_name count test w = Inl Out_of_fuel"
| "send_new (Suc n) ss msg slash_uri encoded_name count test w =
     ok_bind (update_unique_uri (Suc n) ss msg slash_uri encoded_name count test) (\<lambda>(msg, count).
     let (resp, w) = e2k_context_send_message ss msg w
     in if status_code resp = E2K_HTTP_PRECONDITION_FAILED
        then send_new n ss msg slash_uri encoded_name count test w
        else Inr (resp, msg, w))"

definition e2k_context_put_new ::
  "nat \<Rightarrow> 'w session \<Rightarrow> string \<Rightarrow> string \<Rightarrow> (string \<Rightarrow> bool) option \<Rightarrow> string \<Rightarrow> string \<Rightarrow> 'w \<Rightarrow>
    (int \<times> (string option \<times> string option) option \<times> 'w) result" where
  "e2k_context_put_new fuel ss folder_uri object_name test content_type body w =
     (case e2k_strdup_with_trailing_slash (Some folder_uri) of
        None \<Rightarrow> Inl Undefined
      | Some slash_uri \<Rightarrow>
          (let encoded_name = e2k_uri_encode object_name True None
           in ok_bind (put_msg ss folder_uri content_type body) (\<lambda>msg.
              ok_bind (send_new fuel ss (add_header ''If-None-Match'' ''*'' msg) slash_uri encoded_name 1 test w)
                (\<lambda>(resp, msg, w). Inr (status_code resp, extract_put_results resp, w)))))"

section \<open>PROPPATCH\<close>

definition add_namespaces :: "string \<Rightarrow> string \<times> byte \<Rightarrow> string" where
  "add_namespaces propxml = (\<lambda>(namespace, abbrev).
     propxml @ '' xmlns:'' @ [char_of_byte abbrev] @ ''=\"'' @ namespace @ ''\"'')"

text \<open>The type attribute, and the text of one value, for the types that are written as a string.\<close>

fun type_attr :: "e2k_prop_type \<Rightarrow> string" where
  "type_attr PT_BINARY = '' T:dt=\"bin.base64\">''"
| "type_attr PT_STRING_ARRAY = '' T:dt=\"mv.string\">''"
| "type_attr PT_INT_ARRAY = '' T:dt=\"mv.int\">''"
| "type_attr PT_BINARY_ARRAY = '' T:dt=\"mv.bin.base64\">''"
| "type_attr PT_INT = '' T:dt=\"int\">''"
| "type_attr PT_BOOL = '' T:dt=\"boolean\">''"
| "type_attr PT_FLOAT = '' T:dt=\"float\">''"
| "type_attr PT_DATE = '' T:dt=\"dateTime.tz\">''"
| "type_attr _ = ''>''"

definition write_item :: "string \<Rightarrow> string" where
  "write_item s = ''<X:v>'' @ s @ ''</X:v>''"

definition write_value ::
  "(byte list \<Rightarrow> string) \<Rightarrow> e2k_prop_type \<Rightarrow> xmlNode prop_value \<Rightarrow> string \<Rightarrow> string result" where
  "write_value base64_encode type val xml =
     (if \<not> has_c_type type val \<or> type = PT_XML then Inl Undefined
      else case val of
        VBin b \<Rightarrow> Inr (xml @ base64_encode b)
      | VStrs ss \<Rightarrow> Inr (xml @ concat (map (\<lambda>s. write_item (e2k_g_string_append_xml_escaped [] s)) ss))
      | VBins bs \<Rightarrow> Inr (xml @ concat (map (\<lambda>b. write_item (base64_encode b)) bs))
      | VStr s \<Rightarrow> Inr (e2k_g_string_append_xml_escaped xml s)
      | _ \<Rightarrow> Inl Undefined)"

definition write_prop ::
  "(byte list \<Rightarrow> string) \<Rightarrow> prop_tables \<Rightarrow> string \<Rightarrow> string \<Rightarrow> e2k_prop_type \<Rightarrow> xmlNode prop_value \<Rightarrow> bool \<Rightarrow>
    (string \<times> prop_tables) result" where
  "write_prop base64_encode g xml propertyname type val set_it =
     (if set_it \<and> val = VNull then Inr (xml, g)
      else ok_bind (e2k_prop_namespace_name g propertyname) (\<lambda>(namespace, g).
           ok_bind (e2k_prop_namespace_abbrev g propertyname) (\<lambda>(abbrev, g).
           ok_bind (e2k_prop_property_name propertyname) (\<lambda>name.
           let ab = [char_of_byte abbrev]; xml = xml @ ''<'' @ ab @ '':'' @ name
           in if \<not> set_it then Inr (xml @ ''/>'', g)
              else ok_bind (write_value base64_encode type val
                     (xml @ (if strstr namespace ''/mapi/id/'' \<noteq> None then type_attr type else ''>''))) (\<lambda>xml.
                   Inr (xml @ ''</'' @ ab @ '':'' @ name @ ''>'', g))))))"

text \<open>The string behind \<open>*props\<close> is made by the first property.\<close>

definition text_so_far :: "string option \<Rightarrow> string" where
  "text_so_far props = (case props of None \<Rightarrow> [] | Some s \<Rightarrow> s)"

definition add_set_props ::
  "(byte list \<Rightarrow> string) \<Rightarrow> string \<times> e2k_prop_type \<times> xmlNode prop_value \<Rightarrow> string option \<times> prop_tables \<Rightarrow>
    (string option \<times> prop_tables) result" where
  "add_set_props base64_encode = (\<lambda>(name, type, val) (props, g).
     ok_bind (write_prop base64_encode g (text_so_far props) name type val True) (\<lambda>(xml, g). Inr (Some xml, g)))"

definition add_remove_props ::
  "(byte list \<Rightarrow> string) \<Rightarrow> string \<times> e2k_prop_type \<times> xmlNode prop_value \<Rightarrow> string option \<times> prop_tables \<Rightarrow>
    (string option \<times> prop_tables) result" where
  "add_remove_props base64_encode = (\<lambda>(name, type, val) (props, g).
     ok_bind (write_prop base64_encode g (text_so_far props) name type val False) (\<lambda>(xml, g). Inr (Some xml, g)))"

fun fold_ok :: "('a \<Rightarrow> 's \<Rightarrow> 's result) \<Rightarrow> 'a list \<Rightarrow> 's \<Rightarrow> 's result" where
  "fold_ok f [] s = Inr s"
| "fold_ok f (x # xs) s = ok_bind (f x s) (fold_ok f xs)"

definition crlf :: string where
  "crlf = [cr, lf]"

definition target_section :: "string list option \<Rightarrow> string" where
  "target_section hrefs = (case hrefs of
     None \<Rightarrow> []
   | Some hs \<Rightarrow> ''<D:target>'' @ crlf @ concat (map (\<lambda>h. ''<D:href>'' @ h @ ''</D:href>'') hs) @
                crlf @ ''</D:target>'' @ crlf)"

definition patch_section :: "string \<Rightarrow> string option \<Rightarrow> string" where
  "patch_section tag subxml = (case subxml of
     None \<Rightarrow> []
   | Some s \<Rightarrow> ''<D:'' @ tag @ ''><D:prop>'' @ crlf @ s @ crlf @ ''</D:prop></D:'' @ tag @ ''>'')"

definition patch_msg ::
  "(byte list \<Rightarrow> string) \<Rightarrow> 'w session \<Rightarrow> prop_tables \<Rightarrow> string \<Rightarrow> string \<Rightarrow> string list option \<Rightarrow> props \<Rightarrow> bool \<Rightarrow>
    (soup_message \<times> prop_tables) result" where
  "patch_msg base64_encode ss g uri method hrefs props create =
     ok_bind (e2k_properties_foreach_namespace g props) (\<lambda>(nss, g).
     ok_bind (fold_ok (add_set_props base64_encode) (e2k_properties_foreach g props) (None, g)) (\<lambda>(set_xml, g).
     ok_bind (fold_ok (add_remove_props base64_encode) (e2k_properties_foreach_removed g props) (None, g)) (\<lambda>(remove_xml, g).
     let propxml = foldl add_namespaces (E2K_XML_HEADER @ ''<D:propertyupdate xmlns:D=\"DAV:\"'') nss @ ''>'' @ crlf @
                   target_section hrefs @ patch_section ''set'' set_xml @ patch_section ''remove'' remove_xml @
                   crlf @ ''</D:propertyupdate>''
     in ok_bind (e2k_soup_message_new_full ss uri method ''text/xml'' propxml) (\<lambda>msg.
        let msg = add_header ''Brief'' ''t'' msg
        in Inr (if create then msg else add_header ''If-Match'' ''*'' msg, g)))))"

definition e2k_context_proppatch ::
  "(byte list \<Rightarrow> string) \<Rightarrow> 'w session \<Rightarrow> prop_tables \<Rightarrow> string \<Rightarrow> props \<Rightarrow> bool \<Rightarrow> 'w \<Rightarrow>
    (int \<times> (string option \<times> string option) option \<times> prop_tables \<times> 'w) result" where
  "e2k_context_proppatch base64_encode ss g uri props create w =
     ok_bind (patch_msg base64_encode ss g uri ''PROPPATCH'' None props create) (\<lambda>(msg, g).
     let (resp, w) = e2k_context_send_message ss msg w
     in Inr (status_code resp, extract_put_results resp, g, w))"

text \<open>The location is the URI of the message.\<close>

definition e2k_context_proppatch_new ::
  "(byte list \<Rightarrow> string) \<Rightarrow> nat \<Rightarrow> 'w session \<Rightarrow> prop_tables \<Rightarrow> string \<Rightarrow> string \<Rightarrow> (string \<Rightarrow> bool) option \<Rightarrow> props \<Rightarrow> 'w \<Rightarrow>
    (int \<times> string \<times> string option option \<times> prop_tables \<times> 'w) result" where
  "e2k_context_proppatch_new base64_encode fuel ss g folder_uri object_name test props w =
     (case e2k_strdup_with_trailing_slash (Some folder_uri) of
        None \<Rightarrow> Inl Undefined
      | Some slash_uri \<Rightarrow>
          (let encoded_name = e2k_uri_encode object_name True None
           in ok_bind (patch_msg base64_encode ss g folder_uri ''PROPPATCH'' None props True) (\<lambda>(msg, g).
              ok_bind (send_new fuel ss (add_header ''If-None-Match'' ''*'' msg) slash_uri encoded_name 1 test w)
                (\<lambda>(resp, msg, w).
                  Inr (status_code resp, msg_uri msg, map_option snd (extract_put_results resp), g, w)))))"

definition e2k_context_mkcol ::
  "(byte list \<Rightarrow> string) \<Rightarrow> 'w session \<Rightarrow> prop_tables \<Rightarrow> string \<Rightarrow> props option \<Rightarrow> 'w \<Rightarrow>
    (int \<times> string option option \<times> prop_tables \<times> 'w) result" where
  "e2k_context_mkcol base64_encode ss g uri props w =
     ok_bind (case props of
        None \<Rightarrow> ok_bind (e2k_soup_message_new ss uri ''MKCOL'') (\<lambda>msg. Inr (msg, g))
      | Some p \<Rightarrow> patch_msg base64_encode ss g uri ''MKCOL'' None p True) (\<lambda>(msg, g).
     let (resp, w) = e2k_context_send_message ss msg w
     in Inr (status_code resp,
          if E2K_HTTP_STATUS_IS_SUCCESSFUL (status_code resp)
          then Some (response_header resp ''MS-Exchange-Permanent-URL'') else None, g, w))"

end
