(* ===== verification/Result_Iter.thy ===== *)
theory Result_Iter
  imports Multistatus
begin

text \<open>
  Iterators over the results of a request (server/lib/e2k-result.c). The function that fetches more
  results is an argument: it is called with the tables, the index of the first result, the total and
  its own data. The interface \<open>chunk_source\<close> states what the iterator needs of it; inside it the
  results are proved to come out in order, each with its index.
\<close>

section \<open>Iterators\<close>

record fetched =
  f_status :: int
  f_results :: "E2kResult list"
  f_first :: int
  f_total :: int

type_synonym 's fetch_func = "prop_tables \<Rightarrow> int \<Rightarrow> int \<Rightarrow> 's \<Rightarrow> (fetched \<times> prop_tables \<times> 's) result"

text \<open>\<open>nresults\<close> is the length of the results.\<close>

record 's E2kResultIter =
  iter_status :: int
  iter_results :: "E2kResult list"
  iter_at :: int
  iter_first :: int
  iter_total :: int
  iter_ascending :: bool
  iter_user_data :: 's

abbreviation iter_nresults :: "'s E2kResultIter \<Rightarrow> int" where
  "iter_nresults it \<equiv> int (length (iter_results it))"

definition iter_fetch ::
  "'s fetch_func \<Rightarrow> prop_tables \<Rightarrow> 's E2kResultIter \<Rightarrow> ('s E2kResultIter \<times> prop_tables) result" where
  "iter_fetch fetch g it =
     ok_bind (if iter_nresults it \<noteq> 0
              then ok_bind (e2k_results_free g (iter_results it)) (\<lambda>_.
                Inr (it\<lparr>iter_first := (if iter_ascending it then iter_first it + iter_nresults it
                                      else iter_first it - iter_nresults it), iter_results := []\<rparr>))
              else Inr it) (\<lambda>it.
     ok_bind (fetch g (iter_first it) (iter_total it) (iter_user_data it)) (\<lambda>(f, g, s).
     Inr (it\<lparr>iter_status := f_status f, iter_results := f_results f, iter_first := f_first f,
             iter_total := f_total f, iter_at := 0, iter_user_data := s\<rparr>, g)))"

definition e2k_result_iter_new ::
  "'s fetch_func \<Rightarrow> prop_tables \<Rightarrow> bool \<Rightarrow> int \<Rightarrow> 's \<Rightarrow> ('s E2kResultIter \<times> prop_tables) result" where
  "e2k_result_iter_new fetch g ascending tot user_data =
     iter_fetch fetch g \<lparr>iter_status = 0, iter_results = [], iter_at = 0, iter_first = 0, iter_total = tot,
       iter_ascending = ascending, iter_user_data = user_data\<rparr>"

text \<open>Handing out the result at the position, which then moves on.\<close>

definition iter_take :: "'s E2kResultIter \<Rightarrow> E2kResult \<times> 's E2kResultIter" where
  "iter_take it =
     (if iter_ascending it
      then (iter_results it ! nat (iter_at it), it\<lparr>iter_at := iter_at it + 1\<rparr>)
      else (iter_results it ! nat (iter_nresults it - (iter_at it + 1)), it\<lparr>iter_at := iter_at it + 1\<rparr>))"

definition e2k_result_iter_next ::
  "'s fetch_func \<Rightarrow> prop_tables \<Rightarrow> 's E2kResultIter \<Rightarrow> (E2kResult option \<times> 's E2kResultIter \<times> prop_tables) result" where
  "e2k_result_iter_next fetch g it =
     (if iter_nresults it = 0 then Inr (None, it, g)
      else if iter_at it \<ge> iter_nresults it
      then ok_bind (iter_fetch fetch g it) (\<lambda>(it, g).
        if iter_nresults it = 0 then Inr (None, it, g)
        else let it = (if iter_total it \<le> 0 then it\<lparr>iter_status := E2K_HTTP_MALFORMED\<rparr> else it)
             in if \<not> E2K_HTTP_STATUS_IS_SUCCESSFUL (iter_status it) then Inr (None, it, g)
                else let (r, it) = iter_take it in Inr (Some r, it, g))
      else let (r, it) = iter_take it in Inr (Some r, it, g))"

definition e2k_result_iter_get_index :: "'s E2kResultIter \<Rightarrow> int" where
  "e2k_result_iter_get_index it =
     (if iter_ascending it then iter_first it + iter_at it - 1
      else iter_first it + (iter_nresults it - iter_at it))"

definition e2k_result_iter_get_total :: "'s E2kResultIter \<Rightarrow> int" where
  "e2k_result_iter_get_total it = iter_total it"

definition e2k_result_iter_free :: "prop_tables \<Rightarrow> 's E2kResultIter \<Rightarrow> int result" where
  "e2k_result_iter_free g it =
     ok_bind (if iter_nresults it \<noteq> 0 then e2k_results_free g (iter_results it) else Inr ()) (\<lambda>_. Inr (iter_status it))"

text \<open>The loop of every caller: all results with their indices, until \<open>NULL\<close>.\<close>

fun iter_drain ::
  "nat \<Rightarrow> 's fetch_func \<Rightarrow> prop_tables \<Rightarrow> 's E2kResultIter \<Rightarrow>
    ((int \<times> E2kResult) list \<times> 's E2kResultIter \<times> prop_tables) result" where
  "iter_drain 0 fetch g it = Inl Out_of_fuel"
| "iter_drain (Suc n) fetch g it =
     ok_bind (e2k_result_iter_next fetch g it) (\<lambda>(r, it, g).
     case r of
       None \<Rightarrow> Inr ([], it, g)
     | Some r \<Rightarrow>
         ok_bind (iter_drain n fetch g it) (\<lambda>(rs, it', g'). Inr ((e2k_result_iter_get_index it, r) # rs, it', g')))"

section \<open>The interface of the fetch functions\<close>

text \<open>
  A chunk is the index of its first result and the results. \<open>chunks asc first tot s cs\<close>: from the data
  \<open>s\<close>, called with the index \<open>first\<close> and the total \<open>tot\<close>, the function delivers the chunks \<open>cs\<close> and then nothing. \<open>good\<close> is what the
  property tables have to satisfy, such as that they give the properties of the results their types.
  \<open>finished\<close> is what the provider says of its data when nothing is left to deliver.
\<close>

type_synonym chunk = "int \<times> E2kResult list"

definition after_chunk :: "bool \<Rightarrow> chunk \<Rightarrow> int" where
  "after_chunk asc c = (if asc then fst c + int (length (snd c)) else fst c - int (length (snd c)))"

fun numbered :: "int \<Rightarrow> E2kResult list \<Rightarrow> (int \<times> E2kResult) list" where
  "numbered i [] = []"
| "numbered i (r # rs) = (i, r) # numbered (i + 1) rs"

definition chunk_order :: "bool \<Rightarrow> chunk \<Rightarrow> (int \<times> E2kResult) list" where
  "chunk_order asc c = (if asc then numbered (fst c) (snd c) else rev (numbered (fst c) (snd c)))"

lemma length_numbered [simp]: "length (numbered i rs) = length rs"
  by (induction rs arbitrary: i) auto

lemma numbered_nth: "k < length rs \<Longrightarrow> numbered i rs ! k = (i + int k, rs ! k)"
  by (induction rs arbitrary: i k) (auto simp: nth_Cons split: nat.splits)

lemma length_chunk_order [simp]: "length (chunk_order asc c) = length (snd c)"
  by (simp add: chunk_order_def)

locale chunk_source =
  fixes fetch :: "'s fetch_func"
    and good :: "prop_tables \<Rightarrow> bool"
    and finished :: "'s \<Rightarrow> bool"
    and chunks :: "bool \<Rightarrow> int \<Rightarrow> int \<Rightarrow> 's \<Rightarrow> chunk list \<Rightarrow> bool"
  assumes at_end: "chunks asc i t s [] \<Longrightarrow> good g \<Longrightarrow>
      \<exists>f g' s'. fetch g i t s = Inr (f, g', s') \<and> f_results f = [] \<and> E2K_HTTP_STATUS_IS_SUCCESSFUL (f_status f) \<and>
        finished s'"
    and next_chunk: "chunks asc i t s (c # cs) \<Longrightarrow> good g \<Longrightarrow>
      \<exists>f g' s'. fetch g i t s = Inr (f, g', s') \<and> f_results f = snd c \<and> f_first f = fst c \<and> f_total f > 0 \<and>
        E2K_HTTP_STATUS_IS_SUCCESSFUL (f_status f) \<and> snd c \<noteq> [] \<and> e2k_results_free g' (snd c) = Inr () \<and> good g' \<and>
        chunks asc (after_chunk asc c) (f_total f) s' cs"
begin

text \<open>An iterator inside a chunk: what is left of it and the chunks to come.\<close>

definition inside :: "prop_tables \<Rightarrow> 's E2kResultIter \<Rightarrow> chunk \<Rightarrow> chunk list \<Rightarrow> bool" where
  "inside g it c cs \<longleftrightarrow> iter_results it = snd c \<and> iter_first it = fst c \<and> 0 \<le> iter_at it \<and>
     iter_at it \<le> int (length (snd c)) \<and> snd c \<noteq> [] \<and> good g \<and> e2k_results_free g (snd c) = Inr () \<and>
     E2K_HTTP_STATUS_IS_SUCCESSFUL (iter_status it) \<and>
     chunks (iter_ascending it) (after_chunk (iter_ascending it) c) (iter_total it) (iter_user_data it) cs"

lemma next_inside:
  assumes it: "inside g it c cs" and a: "iter_at it < int (length (snd c))"
  shows "\<exists>r it'. e2k_result_iter_next fetch g it = Inr (Some r, it', g) \<and> inside g it' c cs \<and>
    iter_at it' = iter_at it + 1 \<and> iter_ascending it' = iter_ascending it \<and>
    drop (nat (iter_at it)) (chunk_order (iter_ascending it) c) =
      (e2k_result_iter_get_index it', r) # drop (nat (iter_at it')) (chunk_order (iter_ascending it) c)"
proof -
  let ?k = "nat (iter_at it)"
  have k: "?k < length (snd c)" "int ?k = iter_at it" "0 \<le> iter_at it"
    using it a by (auto simp: inside_def)
  have res: "iter_results it = snd c" "iter_first it = fst c" "snd c \<noteq> []" using it by (auto simp: inside_def)
  obtain r it' where t: "iter_take it = (r, it')" by (cases "iter_take it")
  have it': "it' = it\<lparr>iter_at := iter_at it + 1\<rparr>" using t by (auto simp: iter_take_def split: if_splits)
  have "chunk_order (iter_ascending it) c ! ?k = (e2k_result_iter_get_index it', r)"
  proof (cases "iter_ascending it")
    case True
    then show ?thesis using t k res
      by (auto simp: chunk_order_def numbered_nth it' iter_take_def e2k_result_iter_get_index_def)
  next
    case False
    have "nat (int (length (snd c)) - (iter_at it + 1)) = length (snd c) - Suc ?k" using k by simp
    then show ?thesis using t k res False
      by (auto simp: chunk_order_def numbered_nth rev_nth it' iter_take_def e2k_result_iter_get_index_def of_nat_diff)
  qed
  moreover have "nat (iter_at it') = Suc ?k" using k by (simp add: it')
  moreover have "e2k_result_iter_next fetch g it = Inr (Some r, it', g)"
    using a t res by (simp add: e2k_result_iter_next_def)
  moreover have "inside g it' c cs" using it a by (auto simp: inside_def it')
  moreover have "iter_ascending it' = iter_ascending it" "iter_at it' = iter_at it + 1" by (simp_all add: it')
  ultimately show ?thesis using k(1) by (metis Cons_nth_drop_Suc length_chunk_order)
qed

text \<open>Fetching behind a chunk, or for a new iterator.\<close>

lemma fetch_next:
  assumes "chunks (iter_ascending it) (iter_first it) (iter_total it) (iter_user_data it) (c # cs)" "iter_results it = []" "good g"
  shows "\<exists>it' g'. iter_fetch fetch g it = Inr (it', g') \<and> inside g' it' c cs \<and> iter_at it' = 0 \<and>
    iter_ascending it' = iter_ascending it \<and> iter_total it' > 0"
proof -
  obtain f g' s' where f: "fetch g (iter_first it) (iter_total it) (iter_user_data it) = Inr (f, g', s')"
      "f_results f = snd c" "f_first f = fst c" "f_total f > 0" "E2K_HTTP_STATUS_IS_SUCCESSFUL (f_status f)"
      "snd c \<noteq> []" "e2k_results_free g' (snd c) = Inr ()" "good g'" "chunks (iter_ascending it) (after_chunk (iter_ascending it) c) (f_total f) s' cs"
    using next_chunk [OF assms(1,3)] by blast
  then show ?thesis using assms(2) by (simp add: iter_fetch_def inside_def)
qed

lemma fetch_end:
  assumes "chunks (iter_ascending it) (iter_first it) (iter_total it) (iter_user_data it) []" "iter_results it = []" "good g"
  shows "\<exists>it' g'. iter_fetch fetch g it = Inr (it', g') \<and> iter_results it' = [] \<and>
    E2K_HTTP_STATUS_IS_SUCCESSFUL (iter_status it') \<and> finished (iter_user_data it')"
proof -
  obtain f g' s' where f: "fetch g (iter_first it) (iter_total it) (iter_user_data it) = Inr (f, g', s')"
      "f_results f = []" "E2K_HTTP_STATUS_IS_SUCCESSFUL (f_status f)" "finished s'"
    using at_end [OF assms(1,3)] by blast
  then show ?thesis using assms(2) by (simp add: iter_fetch_def)
qed

lemma fetch_behind:
  assumes "inside g it c cs"
  shows "iter_fetch fetch g it =
    iter_fetch fetch g (it\<lparr>iter_results := [], iter_first := after_chunk (iter_ascending it) c\<rparr>)"
  using assms by (simp add: iter_fetch_def inside_def after_chunk_def)

lemma drain_inside:
  assumes "inside g it c cs" "length (snd c) - nat (iter_at it) + length (concat (map snd cs)) < n"
  shows "\<exists>it' g'. iter_drain n fetch g it =
      Inr (drop (nat (iter_at it)) (chunk_order (iter_ascending it) c) @ concat (map (chunk_order (iter_ascending it)) cs), it', g')
    \<and> iter_results it' = [] \<and> E2K_HTTP_STATUS_IS_SUCCESSFUL (iter_status it') \<and> finished (iter_user_data it')"
  using assms
proof (induction n arbitrary: g it c cs)
  case (Suc n)
  note it = Suc.prems(1)
  show ?case
  proof (cases "iter_at it < int (length (snd c))")
    case True
    obtain r it1 where n: "e2k_result_iter_next fetch g it = Inr (Some r, it1, g)" "inside g it1 c cs"
        "iter_at it1 = iter_at it + 1" "iter_ascending it1 = iter_ascending it"
        "drop (nat (iter_at it)) (chunk_order (iter_ascending it) c) =
          (e2k_result_iter_get_index it1, r) # drop (nat (iter_at it1)) (chunk_order (iter_ascending it) c)"
      using next_inside [OF it True] by blast
    have "0 \<le> iter_at it" using it by (simp add: inside_def)
    then have "length (snd c) - nat (iter_at it1) + length (concat (map snd cs)) < n"
      using Suc.prems(2) True n(3) by linarith
    from Suc.IH [OF n(2) this] show ?thesis using n(1,4,5) by auto
  next
    case False
    have at: "iter_at it = int (length (snd c))" using False it by (simp add: inside_def)
    have res: "iter_results it = snd c" "snd c \<noteq> []" "good g"
      "chunks (iter_ascending it) (after_chunk (iter_ascending it) c) (iter_total it) (iter_user_data it) cs"
      using it by (simp_all add: inside_def)
    let ?it = "it\<lparr>iter_results := [], iter_first := after_chunk (iter_ascending it) c\<rparr>"
    have fb: "iter_fetch fetch g it = iter_fetch fetch g ?it" by (rule fetch_behind [OF it])
    show ?thesis
    proof (cases cs)
      case Nil
      then obtain it1 g1 where "iter_fetch fetch g ?it = Inr (it1, g1)" "iter_results it1 = []"
          "E2K_HTTP_STATUS_IS_SUCCESSFUL (iter_status it1)" "finished (iter_user_data it1)"
        using fetch_end [of ?it g] res(3,4) by auto
      then show ?thesis using at res fb Nil by (simp add: e2k_result_iter_next_def)
    next
      case (Cons c1 cs1)
      then obtain it1 g1 where f: "iter_fetch fetch g ?it = Inr (it1, g1)" "inside g1 it1 c1 cs1" "iter_at it1 = 0"
          "iter_ascending it1 = iter_ascending it" "iter_total it1 > 0"
        using fetch_next [of ?it c1 cs1 g] res(3,4) by auto
      have r1: "iter_results it1 = snd c1" "snd c1 \<noteq> []" "E2K_HTTP_STATUS_IS_SUCCESSFUL (iter_status it1)"
        using f(2) by (simp_all add: inside_def)
      obtain r it2 where n: "e2k_result_iter_next fetch g1 it1 = Inr (Some r, it2, g1)" "inside g1 it2 c1 cs1"
          "iter_at it2 = 1" "iter_ascending it2 = iter_ascending it1"
          "chunk_order (iter_ascending it1) c1 =
            (e2k_result_iter_get_index it2, r) # drop 1 (chunk_order (iter_ascending it1) c1)"
        using next_inside [OF f(2)] f(3) r1(2) by auto
      have "iter_take it1 = (r, it2)" using n(1) f(3) r1 by (auto simp: e2k_result_iter_next_def split: prod.splits)
      then have nx: "e2k_result_iter_next fetch g it = Inr (Some r, it2, g1)"
        using at res fb f r1 by (simp add: e2k_result_iter_next_def)
      have "length (snd c1) - nat (iter_at it2) + length (concat (map snd cs1)) < n"
        using Suc.prems(2) at Cons r1(2) n(3) by (cases "snd c1") auto
      from Suc.IH [OF n(2) this] show ?thesis
        using nx n(3-5) f(4) at Cons by (auto simp: append_eq_Cons_conv)
    qed
  qed
qed simp

lemma drain_new:
  assumes "chunks asc 0 tot s cs" "good g" "length (concat (map snd cs)) < n"
  shows "\<exists>it g1 it' g'. e2k_result_iter_new fetch g asc tot s = Inr (it, g1) \<and>
    iter_drain n fetch g1 it = Inr (concat (map (chunk_order asc) cs), it', g') \<and>
    iter_results it' = [] \<and> E2K_HTTP_STATUS_IS_SUCCESSFUL (iter_status it') \<and> finished (iter_user_data it')"
proof -
  let ?it = "\<lparr>iter_status = 0, iter_results = [], iter_at = 0, iter_first = 0, iter_total = tot,
       iter_ascending = asc, iter_user_data = s\<rparr>"
  show ?thesis
  proof (cases cs)
    case Nil
    then obtain it1 g1 where "iter_fetch fetch g ?it = Inr (it1, g1)" "iter_results it1 = []"
        "E2K_HTTP_STATUS_IS_SUCCESSFUL (iter_status it1)" "finished (iter_user_data it1)"
      using fetch_end [of ?it g] assms(1,2) by auto
    then show ?thesis using Nil assms(3)
      by (cases n) (auto simp: e2k_result_iter_new_def e2k_result_iter_next_def)
  next
    case (Cons c cs1)
    then obtain it1 g1 where f: "iter_fetch fetch g ?it = Inr (it1, g1)" "inside g1 it1 c cs1" "iter_at it1 = 0"
        "iter_ascending it1 = asc"
      using fetch_next [of ?it c cs1 g] assms(1,2) by auto
    then show ?thesis using drain_inside [OF f(2), of n] Cons assms(3) by (simp add: e2k_result_iter_new_def)
  qed
qed

end

end
