(* ===== verification/Bulk.thy ===== *)
theory Bulk
  imports Webdav Result_Iter
begin

text \<open>
  The requests that are answered through an iterator (server/lib/e2k-context.c): BPROPPATCH,
  BPROPFIND, BDELETE, BMOVE and BCOPY, which are cut into batches, and SEARCH, which asks for one
  range of rows after the other. The data of a fetch function is paired with the state of the world.
\<close>

section \<open>Messages\<close>

text \<open>The namespace declarations of a PROPFIND, each namespace once; \<open>seen\<close> is the data list.\<close>

fun find_namespaces :: "prop_tables \<Rightarrow> string list \<Rightarrow> string list \<Rightarrow> string \<Rightarrow> (string \<times> prop_tables) result" where
  "find_namespaces g [] seen xml = Inr (xml, g)"
| "find_namespaces g (p # ps) seen xml =
     ok_bind (e2k_prop_namespace_name g p) (\<lambda>(name, g).
     ok_bind (e2k_prop_namespace_abbrev g p) (\<lambda>(abbrev, g).
     if name \<in> set seen then find_namespaces g ps seen xml
     else find_namespaces g ps (name # seen) (add_namespaces xml (name, abbrev))))"

fun find_props :: "prop_tables \<Rightarrow> string list \<Rightarrow> string \<Rightarrow> (string \<times> prop_tables) result" where
  "find_props g [] xml = Inr (xml, g)"
| "find_props g (p # ps) xml =
     ok_bind (e2k_prop_namespace_abbrev g p) (\<lambda>(abbrev, g).
     ok_bind (e2k_prop_property_name p) (\<lambda>name.
     find_props g ps (xml @ ''<'' @ [char_of_byte abbrev] @ '':'' @ name @ ''/>'')))"

definition propfind_msg ::
  "'w session \<Rightarrow> prop_tables \<Rightarrow> string \<Rightarrow> string list \<Rightarrow> string list option \<Rightarrow> (soup_message \<times> prop_tables) result" where
  "propfind_msg ss g base_uri props hrefs =
     ok_bind (find_namespaces g props [] (E2K_XML_HEADER @ ''<D:propfind xmlns:D=\"DAV:\"'')) (\<lambda>(xml, g).
     ok_bind (find_props g props (xml @ ''>'' @ crlf @ target_section hrefs @ ''<D:prop>'' @ crlf)) (\<lambda>(xml, g).
     ok_bind (e2k_soup_message_new_full ss base_uri (if hrefs \<noteq> None then ''BPROPFIND'' else ''PROPFIND'') ''text/xml''
       (xml @ crlf @ ''</D:prop>'' @ crlf @ ''</D:propfind>'')) (\<lambda>msg.
     Inr (add_header ''Depth'' ''0'' (add_header ''Brief'' ''t'' msg), g))))"

definition e2k_context_propfind ::
  "parsers \<Rightarrow> 'w session \<Rightarrow> prop_tables \<Rightarrow> string \<Rightarrow> string list \<Rightarrow> 'w \<Rightarrow>
    (int \<times> E2kResult list option \<times> prop_tables \<times> 'w) result" where
  "e2k_context_propfind ps ss g uri props w =
     ok_bind (propfind_msg ss g uri props None) (\<lambda>(msg, g).
     let (resp, w) = e2k_context_send_message ss msg w
     in if status_code resp = E2K_HTTP_MULTI_STATUS
        then ok_bind (e2k_results_from_multistatus ps g (status_code resp) (response_body resp)) (\<lambda>(rs, g).
               Inr (status_code resp, Some rs, g, w))
        else Inr (status_code resp, None, g, w))"

definition href_elements :: "string list \<Rightarrow> string" where
  "href_elements hrefs = concat (map (\<lambda>h. e2k_g_string_append_xml_escaped ''<href>'' h @ ''</href>'') hrefs)"

definition bdelete_msg :: "'w session \<Rightarrow> string \<Rightarrow> string list \<Rightarrow> soup_message result" where
  "bdelete_msg ss uri hrefs =
     e2k_soup_message_new_full ss uri ''BDELETE'' ''text/xml''
       (E2K_XML_HEADER @ ''<delete xmlns=\"DAV:\"><target>'' @ href_elements hrefs @ ''</target></delete>'')"

definition transfer_msg :: "'w session \<Rightarrow> string \<Rightarrow> string \<Rightarrow> string list \<Rightarrow> bool \<Rightarrow> soup_message result" where
  "transfer_msg ss source_uri dest_uri source_hrefs delete_originals =
     ok_bind (e2k_soup_message_new_full ss source_uri (if delete_originals then ''BMOVE'' else ''BCOPY'') ''text/xml''
       (E2K_XML_HEADER @ (if delete_originals then ''<move'' else ''<copy'') @ '' xmlns=\"DAV:\"><target>'' @
        href_elements source_hrefs @ ''</target></'' @ (if delete_originals then ''move>'' else ''copy>''))) (\<lambda>msg.
     Inr (add_header ''Destination'' dest_uri (add_header ''Allow-Rename'' ''t'' (add_header ''Overwrite'' ''f'' msg))))"

definition INT_MAX :: int where
  "INT_MAX = 2 ^ 31 - 1"

text \<open>\<open>%u\<close> of an \<open>int\<close>.\<close>

definition fmt_unsigned :: "int \<Rightarrow> string" where
  "fmt_unsigned i = fmt_u (nat (i mod 2 ^ 32))"

definition search_msg :: "'w session \<Rightarrow> string \<Rightarrow> string \<Rightarrow> int \<Rightarrow> int \<Rightarrow> soup_message result" where
  "search_msg ss uri searchxml batch offset =
     ok_bind (e2k_soup_message_new_full ss uri ''SEARCH'' ''text/xml'' searchxml) (\<lambda>msg.
     let msg = add_header ''Brief'' ''t'' msg
     in Inr (if batch \<noteq> 0
             then add_header ''Range''
               (if offset = INT_MAX then ''rows=-'' @ fmt_unsigned batch
                else ''rows='' @ fmt_unsigned offset @ ''-'' @ fmt_unsigned (offset + batch - 1)) msg
             else msg))"

definition select_list :: "string list \<Rightarrow> string" where
  "select_list props = join '', '' (map (\<lambda>p. ''\"'' @ p @ ''\"'') props)"

definition search_xml :: "string list \<Rightarrow> e2k_restriction option \<Rightarrow> string option \<Rightarrow> string result" where
  "search_xml props rn orderby =
     (let xml = E2K_XML_HEADER @ ''<searchrequest xmlns=\"DAV:\"><sql>'' @ crlf @ ''SELECT '' @ select_list props;
          folders = (case rn of None \<Rightarrow> False | Some r \<Rightarrow> e2k_restriction_folders_only r);
          xml = xml @ crlf @ (if folders then ''FROM SCOPE(''@ [CHR 0x27] @ ''hierarchical traversal of \"\"'' @ [CHR 0x27] @ '')''
                              else ''FROM \"\"'') @ crlf
      in ok_bind (case rn of
             None \<Rightarrow> Inr xml
           | Some r \<Rightarrow> ok_bind (e2k_restriction_to_sql r) (\<lambda>wh. Inr (case wh of
               None \<Rightarrow> xml | Some s \<Rightarrow> e2k_g_string_append_xml_escaped xml s @ crlf))) (\<lambda>xml.
         Inr (xml @ (case orderby of None \<Rightarrow> [] | Some o' \<Rightarrow> ''ORDER BY \"'' @ o' @ ''\"'' @ crlf) @ ''</sql></searchrequest>'')))"

section \<open>Batches of a bulk request\<close>

definition E2K_CONTEXT_MIN_BATCH_SIZE :: nat where "E2K_CONTEXT_MIN_BATCH_SIZE = 25"
definition E2K_CONTEXT_MAX_BATCH_SIZE :: nat where "E2K_CONTEXT_MAX_BATCH_SIZE = 100"

text \<open>The body of \<open>bpropfind_fetch\<close>, \<open>bdelete_fetch\<close> and \<open>transfer_next\<close>: the next message of the list.\<close>

definition batch_fetch :: "parsers \<Rightarrow> 'w session \<Rightarrow> (soup_message list \<times> 'w) fetch_func" where
  "batch_fetch ps ss g first tot = (\<lambda>(msgs, w). case msgs of
     [] \<Rightarrow> Inr (\<lparr>f_status = E2K_HTTP_OK, f_results = [], f_first = first, f_total = tot\<rparr>, g, ([], w))
   | msg # msgs \<Rightarrow>
       (let (resp, w) = e2k_context_send_message ss msg w
        in if status_code resp = E2K_HTTP_MULTI_STATUS
           then ok_bind (e2k_results_from_multistatus ps g (status_code resp) (response_body resp)) (\<lambda>(rs, g).
             Inr (\<lparr>f_status = status_code resp, f_results = rs, f_first = first, f_total = tot\<rparr>, g, (msgs, w)))
           else Inr (\<lparr>f_status = status_code resp, f_results = [], f_first = first, f_total = tot\<rparr>, g, (msgs, w))))"

definition bpropfind_fetch :: "parsers \<Rightarrow> 'w session \<Rightarrow> (soup_message list \<times> 'w) fetch_func" where
  "bpropfind_fetch = batch_fetch"

definition bdelete_fetch :: "parsers \<Rightarrow> 'w session \<Rightarrow> (soup_message list \<times> 'w) fetch_func" where
  "bdelete_fetch = batch_fetch"

definition transfer_next :: "parsers \<Rightarrow> 'w session \<Rightarrow> (soup_message list \<times> 'w) fetch_func" where
  "transfer_next = batch_fetch"

text \<open>
  The loops over the hrefs: \<open>batches n hrefs\<close> are the parts of \<open>n\<close> hrefs from the front on, the last
  one with what is left.
\<close>

function batches :: "nat \<Rightarrow> 'a list \<Rightarrow> 'a list list" where
  "batches n xs = (if xs = [] \<or> n = 0 then [] else take n xs # batches n (drop n xs))"
  by pat_completeness auto
termination
  by (relation "measure (\<lambda>(n, xs). length xs)") auto

declare batches.simps [simp del]

fun propfind_msgs ::
  "'w session \<Rightarrow> prop_tables \<Rightarrow> string \<Rightarrow> string list \<Rightarrow> string list list \<Rightarrow> (soup_message list \<times> prop_tables) result" where
  "propfind_msgs ss g uri props [] = Inr ([], g)"
| "propfind_msgs ss g uri props (b # bs) =
     ok_bind (propfind_msg ss g uri props (Some b)) (\<lambda>(msg, g).
     ok_bind (propfind_msgs ss g uri props bs) (\<lambda>(msgs, g). Inr (msg # msgs, g)))"

definition e2k_context_bpropfind_start ::
  "parsers \<Rightarrow> 'w session \<Rightarrow> prop_tables \<Rightarrow> string \<Rightarrow> string list \<Rightarrow> string list \<Rightarrow> 'w \<Rightarrow>
    ((soup_message list \<times> 'w) E2kResultIter \<times> prop_tables) result" where
  "e2k_context_bpropfind_start ps ss g uri hrefs props w =
     ok_bind (propfind_msgs ss g uri props (batches E2K_CONTEXT_MAX_BATCH_SIZE hrefs)) (\<lambda>(msgs, g).
     e2k_result_iter_new (bpropfind_fetch ps ss) g True (int (length hrefs)) (msgs, w))"

text \<open>\<open>batchsize = (nhrefs + 9) / 10\<close>, kept between the limits; the messages are prepended.\<close>

definition delete_batch_size :: "nat \<Rightarrow> nat" where
  "delete_batch_size nhrefs =
     (let batchsize = (nhrefs + 9) div 10
      in if batchsize < E2K_CONTEXT_MIN_BATCH_SIZE then E2K_CONTEXT_MIN_BATCH_SIZE
         else if batchsize > E2K_CONTEXT_MAX_BATCH_SIZE then E2K_CONTEXT_MAX_BATCH_SIZE else batchsize)"

fun map_ok :: "('a \<Rightarrow> 'b result) \<Rightarrow> 'a list \<Rightarrow> 'b list result" where
  "map_ok f [] = Inr []"
| "map_ok f (x # xs) = ok_bind (f x) (\<lambda>y. ok_bind (map_ok f xs) (\<lambda>ys. Inr (y # ys)))"

definition e2k_context_bdelete_start ::
  "parsers \<Rightarrow> 'w session \<Rightarrow> prop_tables \<Rightarrow> string \<Rightarrow> string list \<Rightarrow> 'w \<Rightarrow>
    ((soup_message list \<times> 'w) E2kResultIter \<times> prop_tables) result" where
  "e2k_context_bdelete_start ps ss g uri hrefs w =
     ok_bind (map_ok (bdelete_msg ss uri) (batches (delete_batch_size (length hrefs)) hrefs)) (\<lambda>msgs.
     e2k_result_iter_new (bdelete_fetch ps ss) g True (int (length hrefs)) (rev msgs, w))"

text \<open>An empty destination makes the code return \<open>NULL\<close>.\<close>

definition e2k_context_transfer_start ::
  "parsers \<Rightarrow> 'w session \<Rightarrow> prop_tables \<Rightarrow> string \<Rightarrow> string \<Rightarrow> string list \<Rightarrow> bool \<Rightarrow> 'w \<Rightarrow>
    ((soup_message list \<times> 'w) E2kResultIter \<times> prop_tables) result" where
  "e2k_context_transfer_start ps ss g source_folder dest_folder source_hrefs delete_originals w =
     (case e2k_strdup_with_trailing_slash (Some dest_folder) of
        None \<Rightarrow> Inl Rejected
      | Some dest_uri \<Rightarrow>
          ok_bind (map_ok (\<lambda>hs. transfer_msg ss source_folder dest_uri hs delete_originals)
             (batches E2K_CONTEXT_MAX_BATCH_SIZE source_hrefs)) (\<lambda>msgs.
          e2k_result_iter_new (transfer_next ps ss) g True (int (length source_hrefs)) (msgs, w)))"

text \<open>A BPROPPATCH has one message, which is sent only while it has no status.\<close>

definition bproppatch_fetch :: "parsers \<Rightarrow> 'w session \<Rightarrow> (soup_message \<times> int \<times> 'w) fetch_func" where
  "bproppatch_fetch ps ss g first tot = (\<lambda>(msg, status, w).
     if status \<noteq> 0 then Inr (\<lparr>f_status = E2K_HTTP_OK, f_results = [], f_first = first, f_total = tot\<rparr>, g, (msg, status, w))
     else let (resp, w) = e2k_context_send_message ss msg w
          in if status_code resp = E2K_HTTP_MULTI_STATUS
             then ok_bind (e2k_results_from_multistatus ps g (status_code resp) (response_body resp)) (\<lambda>(rs, g).
               Inr (\<lparr>f_status = status_code resp, f_results = rs, f_first = first, f_total = int (length rs)\<rparr>, g,
                    (msg, status_code resp, w)))
             else Inr (\<lparr>f_status = status_code resp, f_results = [], f_first = first, f_total = tot\<rparr>, g,
                    (msg, status_code resp, w)))"

definition e2k_context_bproppatch_start ::
  "(byte list \<Rightarrow> string) \<Rightarrow> parsers \<Rightarrow> 'w session \<Rightarrow> prop_tables \<Rightarrow> string \<Rightarrow> string list \<Rightarrow> props \<Rightarrow> bool \<Rightarrow> 'w \<Rightarrow>
    ((soup_message \<times> int \<times> 'w) E2kResultIter \<times> prop_tables) result" where
  "e2k_context_bproppatch_start base64_encode ps ss g uri hrefs props create w =
     ok_bind (patch_msg base64_encode ss g uri ''BPROPPATCH'' (Some hrefs) props create) (\<lambda>(msg, g).
     e2k_result_iter_new (bproppatch_fetch ps ss) g True (-1) (msg, 0, w))"

section \<open>SEARCH\<close>

record E2kSearchData =
  sd_uri :: string
  sd_xml :: string
  sd_ascending :: bool
  sd_batch_size :: int
  sd_next :: int

text \<open>The first row and the total of a response, when it has them; a range without a total gives -1.\<close>

definition search_result_get_range :: "soup_response \<Rightarrow> int \<Rightarrow> int \<Rightarrow> int \<times> int" where
  "search_result_get_range resp first tot = (case response_header resp ''Content-Range'' of
     None \<Rightarrow> (first, tot)
   | Some rng \<Rightarrow> (case strstr rng ''rows '' of
       None \<Rightarrow> (first, tot)
     | Some p \<Rightarrow> (atoi (drop (p + 5) rng),
         case strstr rng ''total='' of None \<Rightarrow> -1 | Some p \<Rightarrow> atoi (drop (p + 6) rng))))"

definition search_advance :: "E2kSearchData \<Rightarrow> int \<Rightarrow> int \<Rightarrow> int \<Rightarrow> E2kSearchData" where
  "search_advance sd first nresults tot =
     (if sd_ascending sd \<and> first + nresults < tot then sd\<lparr>sd_next := first + nresults\<rparr>
      else if \<not> sd_ascending sd \<and> first > 0 then
        if first \<ge> sd_batch_size sd then sd\<lparr>sd_next := first - sd_batch_size sd\<rparr>
        else sd\<lparr>sd_batch_size := first, sd_next := 0\<rparr>
      else sd\<lparr>sd_batch_size := 0\<rparr>)"

definition search_fetch :: "parsers \<Rightarrow> 'w session \<Rightarrow> (E2kSearchData \<times> 'w) fetch_func" where
  "search_fetch ps ss g first tot = (\<lambda>(sd, w).
     if sd_batch_size sd = 0
     then Inr (\<lparr>f_status = E2K_HTTP_OK, f_results = [], f_first = first, f_total = tot\<rparr>, g, (sd, w))
     else ok_bind (search_msg ss (sd_uri sd) (sd_xml sd) (sd_batch_size sd) (sd_next sd)) (\<lambda>msg.
       let (resp, w) = e2k_context_send_message ss msg w; status = status_code resp
       in if status = E2K_HTTP_REQUESTED_RANGE_NOT_SATISFIABLE
          then Inr (\<lparr>f_status = E2K_HTTP_OK, f_results = [], f_first = first, f_total = tot\<rparr>, g, (sd, w))
          else if status \<noteq> E2K_HTTP_MULTI_STATUS
          then Inr (\<lparr>f_status = status, f_results = [], f_first = first, f_total = tot\<rparr>, g, (sd, w))
          else let (first, tot) = search_result_get_range resp first tot
               in if tot = 0
                  then Inr (\<lparr>f_status = status, f_results = [], f_first = first, f_total = tot\<rparr>, g, (sd, w))
                  else ok_bind (e2k_results_from_multistatus ps g status (response_body resp)) (\<lambda>(rs, g).
                    let nresults = int (length rs); tot = (if tot = -1 then first + nresults else tot)
                    in Inr (\<lparr>f_status = status, f_results = rs, f_first = first, f_total = tot\<rparr>, g,
                            (search_advance sd first nresults tot, w)))))"

definition e2k_context_search_start ::
  "parsers \<Rightarrow> 'w session \<Rightarrow> prop_tables \<Rightarrow> string \<Rightarrow> string list \<Rightarrow> e2k_restriction option \<Rightarrow> string option \<Rightarrow> bool \<Rightarrow> 'w \<Rightarrow>
    ((E2kSearchData \<times> 'w) E2kResultIter \<times> prop_tables) result" where
  "e2k_context_search_start ps ss g uri props rn orderby ascending w =
     ok_bind (search_xml props rn orderby) (\<lambda>xml.
     e2k_result_iter_new (search_fetch ps ss) g ascending (-1)
       (\<lparr>sd_uri = uri, sd_xml = xml, sd_ascending = ascending, sd_batch_size = int E2K_CONTEXT_MAX_BATCH_SIZE,
         sd_next = (if ascending then 0 else INT_MAX)\<rparr>, w))"

end
