(* ===== verification/Search_Order.thy ===== *)
theory Search_Order
  imports Bulk
begin

text \<open>
  A whole search (server/lib/e2k-context.c and e2k-result.c together): what a server that keeps a
  list of rows answers, the chunks the fetch function delivers from it, and the order in which the
  iterator hands the rows to its caller.
\<close>

section \<open>Answers\<close>

definition answered :: "parsers \<Rightarrow> (prop_tables \<Rightarrow> bool) \<Rightarrow> soup_response \<Rightarrow> E2kResult list \<Rightarrow> bool" where
  "answered ps good resp rs \<longleftrightarrow> (\<forall>g. good g \<longrightarrow>
     (\<exists>g'. e2k_results_from_multistatus ps g (status_code resp) (response_body resp) = Inr (rs, g') \<and>
       e2k_results_free g' rs = Inr () \<and> good g'))"

definition row_range :: "E2kResult list \<Rightarrow> int \<Rightarrow> int \<Rightarrow> nat \<times> E2kResult list" where
  "row_range rows batch offset =
     (let k = nat (if offset = INT_MAX then int (length rows) - batch else offset)
      in (k, take (nat batch) (drop k rows)))"

definition content_range :: "nat \<Rightarrow> nat \<Rightarrow> nat \<Rightarrow> string" where
  "content_range k l n = ''rows '' @ fmt_u k @ ''-'' @ fmt_u l @ ''; total='' @ fmt_u n"

definition rows_answer ::
  "parsers \<Rightarrow> (prop_tables \<Rightarrow> bool) \<Rightarrow> E2kResult list \<Rightarrow> int \<Rightarrow> int \<Rightarrow> soup_response \<Rightarrow> bool" where
  "rows_answer ps good rows batch offset resp \<longleftrightarrow>
     (let (k, part) = row_range rows batch offset
      in if part = [] then status_code resp = E2K_HTTP_REQUESTED_RANGE_NOT_SATISFIABLE
         else status_code resp = E2K_HTTP_MULTI_STATUS \<and> answered ps good resp part \<and>
           response_header resp ''Content-Range'' = Some (content_range k (k + length part - 1) (length rows)))"

definition serves ::
  "parsers \<Rightarrow> (prop_tables \<Rightarrow> bool) \<Rightarrow> 'w session \<Rightarrow> string \<Rightarrow> string \<Rightarrow> E2kResult list \<Rightarrow> bool" where
  "serves ps good ss uri xml rows \<longleftrightarrow> uri_valid ss uri \<and> (\<forall>w. \<not> op_cancelled ss w) \<and>
     (\<forall>w batch offset msg. 0 < batch \<and> batch \<le> int E2K_CONTEXT_MAX_BATCH_SIZE \<and> 0 \<le> offset \<and> offset \<le> INT_MAX \<and>
        search_msg ss uri xml batch offset = Inr msg \<longrightarrow>
        rows_answer ps good rows batch offset (fst (transport ss msg w)))"

lemma strstr_first: "c \<notin> set pre \<Longrightarrow> strstr (pre @ (c # cs) @ post) (c # cs) = Some (length pre)"
  by (induction pre) auto

lemma fmt_u_chars: "c \<in> set (fmt_u n) \<Longrightarrow> is_base 10 c"
  using to_base_digits [of 10 n] by (auto simp: fmt_u_def)

lemma fmt_u_fmt_d: "fmt_u n = fmt_d 0 (int n)"
  by (simp add: fmt_u_def fmt_d_def pad0_def)

lemma atoi_fmt_u: "n < 2 ^ 31 \<Longrightarrow> r = [] \<or> \<not> is_base 10 (hd r) \<Longrightarrow> atoi (fmt_u n @ r) = int n"
  using strtol_fmt_d(1) [of "int n" r 0] by (simp add: fmt_u_fmt_d atoi_def int_of_long_id)

lemma drop_length_append: "drop (length xs) (xs @ ys) = ys"
  by simp

lemma content_range_read:
  assumes "k < 2 ^ 31" "n < 2 ^ 31" "response_header resp ''Content-Range'' = Some (content_range k l n)"
  shows "search_result_get_range resp i t = (int k, int n)"
proof -
  have nd: "\<not> is_base 10 CHR ''t''" "\<not> is_base 10 CHR ''-''"
    by (simp_all add: is_base_def digit_val_def isdigit_def isupper_def islower_def ch_code_def)
  define pre where "pre = ''rows '' @ fmt_u k @ ''-'' @ fmt_u l @ ''; ''"
  have c: "content_range k l n = pre @ ''total='' @ fmt_u n" by (simp add: content_range_def pre_def)
  have "CHR ''t'' \<notin> set pre" using nd(1) fmt_u_chars by (auto simp: pre_def)
  then have t1: "strstr (pre @ ''total='' @ fmt_u n) ''total='' = Some (length pre)"
    using strstr_first [of "CHR ''t''" pre "''otal=''" "fmt_u n"] by simp
  have t2: "drop (length pre + 6) (pre @ ''total='' @ fmt_u n) = fmt_u n"
    using drop_length_append [of "pre @ ''total=''" "fmt_u n"] by simp
  have r: "strstr (content_range k l n) ''rows '' = Some 0"
    "drop 5 (content_range k l n) = fmt_u k @ ''-'' @ fmt_u l @ ''; total='' @ fmt_u n"
    by (simp_all add: content_range_def)
  have "atoi (fmt_u k @ ''-'' @ fmt_u l @ ''; total='' @ fmt_u n) = int k" "atoi (fmt_u n) = int n"
    using atoi_fmt_u [OF assms(1), of "''-'' @ fmt_u l @ ''; total='' @ fmt_u n"] atoi_fmt_u [OF assms(2), of "[]"] nd(2)
    by simp_all
  then show ?thesis using assms(3) r t1 t2 by (simp add: search_result_get_range_def c)
qed

section \<open>The chunks of a search\<close>

function asc_chunks :: "E2kResult list \<Rightarrow> nat \<Rightarrow> chunk list" where
  "asc_chunks rows k = (if k \<ge> length rows then []
     else (int k, take 100 (drop k rows)) # asc_chunks rows (k + 100))"
  by pat_completeness auto
termination
  by (relation "measure (\<lambda>(rows, k). length rows - k)") auto

function desc_chunks :: "E2kResult list \<Rightarrow> nat \<Rightarrow> chunk list" where
  "desc_chunks rows m = (if m = 0 then []
     else let k = m - 100 in (int k, take (m - k) (drop k rows)) # desc_chunks rows k)"
  by pat_completeness auto
termination
  by (relation "measure snd") auto

declare asc_chunks.simps [simp del] desc_chunks.simps [simp del]

text \<open>The states of the search data: in the middle of an ascending or a descending search, or at its end.\<close>

definition search_state :: "E2kResult list \<Rightarrow> E2kSearchData \<Rightarrow> chunk list \<Rightarrow> bool" where
  "search_state rows sd cs \<longleftrightarrow>
     sd_batch_size sd = 0 \<and> cs = [] \<or>
     sd_ascending sd \<and> sd_batch_size sd = 100 \<and>
       (\<exists>k \<le> length rows. sd_next sd = int k \<and> cs = asc_chunks rows k) \<or>
     \<not> sd_ascending sd \<and> sd_batch_size sd = 100 \<and> sd_next sd = INT_MAX \<and> cs = desc_chunks rows (length rows) \<or>
     \<not> sd_ascending sd \<and> (\<exists>m \<le> length rows. 0 < m \<and> sd_batch_size sd = int (min 100 m) \<and>
       sd_next sd = int (m - 100) \<and> cs = desc_chunks rows m)"

definition search_chunks ::
  "parsers \<Rightarrow> (prop_tables \<Rightarrow> bool) \<Rightarrow> 'w session \<Rightarrow> bool \<Rightarrow> int \<Rightarrow> int \<Rightarrow> E2kSearchData \<times> 'w \<Rightarrow> chunk list \<Rightarrow> bool" where
  "search_chunks ps good ss asc i t s cs \<longleftrightarrow> (\<exists>rows. serves ps good ss (sd_uri (fst s)) (sd_xml (fst s)) rows \<and>
     int (length rows) < INT_MAX \<and> asc = sd_ascending (fst s) \<and> search_state rows (fst s) cs)"

lemma search_request:
  assumes "serves ps good ss (sd_uri sd) (sd_xml sd) rows" "0 < sd_batch_size sd" "sd_batch_size sd \<le> 100" "0 \<le> sd_next sd" "sd_next sd \<le> INT_MAX"
  obtains msg resp w' where "search_msg ss (sd_uri sd) (sd_xml sd) (sd_batch_size sd) (sd_next sd) = Inr msg"
    "e2k_context_send_message ss msg w = (resp, w')" "rows_answer ps good rows (sd_batch_size sd) (sd_next sd) resp"
proof -
  obtain msg where msg: "search_msg ss (sd_uri sd) (sd_xml sd) (sd_batch_size sd) (sd_next sd) = Inr msg"
    using assms(1)
    by (simp add: search_msg_def e2k_soup_message_new_full_def e2k_soup_message_new_def new_message_def serves_def Let_def)
  obtain resp w' where "transport ss msg w = (resp, w')" by (cases "transport ss msg w")
  moreover from this have "rows_answer ps good rows (sd_batch_size sd) (sd_next sd) resp"
    using assms msg unfolding serves_def E2K_CONTEXT_MAX_BATCH_SIZE_def by (metis fst_conv of_nat_numeral)
  moreover have "e2k_context_send_message ss msg w = transport ss msg w"
    using assms(1) by (simp add: e2k_context_send_message_def serves_def)
  ultimately show ?thesis using that msg by simp
qed

text \<open>What one fetch of a search does when the server has rows for it, and when it has none.\<close>

lemma search_fetch_rows:
  assumes s: "serves ps good ss (sd_uri sd) (sd_xml sd) rows" and n: "int (length rows) < INT_MAX"
    and b: "0 < sd_batch_size sd" "sd_batch_size sd \<le> 100" "0 \<le> sd_next sd" "sd_next sd \<le> INT_MAX"
    and r: "row_range rows (sd_batch_size sd) (sd_next sd) = (k, part)" "part \<noteq> []" and good: "good g"
  shows "\<exists>f g' w'. search_fetch ps ss g i t (sd, w) =
      Inr (f, g', (search_advance sd (int k) (int (length part)) (int (length rows)), w')) \<and>
    f_results f = part \<and> f_first f = int k \<and> f_total f > 0 \<and> E2K_HTTP_STATUS_IS_SUCCESSFUL (f_status f) \<and>
    e2k_results_free g' part = Inr () \<and> good g'"
proof -
  obtain msg resp w' where m: "search_msg ss (sd_uri sd) (sd_xml sd) (sd_batch_size sd) (sd_next sd) = Inr msg"
      "e2k_context_send_message ss msg w = (resp, w')" "rows_answer ps good rows (sd_batch_size sd) (sd_next sd) resp"
    using search_request [OF s b] by blast
  have k: "k < length rows" using r by (auto simp: row_range_def Let_def)
  have a: "status_code resp = E2K_HTTP_MULTI_STATUS" "answered ps good resp part"
      "response_header resp ''Content-Range'' = Some (content_range k (k + length part - 1) (length rows))"
    using m(3) r by (simp_all add: rows_answer_def)
  have rg: "search_result_get_range resp i t = (int k, int (length rows))"
    by (rule content_range_read [OF _ _ a(3)]) (use n k in \<open>simp_all add: INT_MAX_def\<close>)
  obtain g' where g': "e2k_results_from_multistatus ps g E2K_HTTP_MULTI_STATUS (response_body resp) = Inr (part, g')"
      "e2k_results_free g' part = Inr ()" "good g'"
    using a(1,2) good unfolding answered_def by metis
  show ?thesis
    using b(1) m(1,2) a(1) rg g' k
    by (auto simp: search_fetch_def Let_def E2K_HTTP_MULTI_STATUS_def E2K_HTTP_REQUESTED_RANGE_NOT_SATISFIABLE_def
        E2K_HTTP_STATUS_IS_SUCCESSFUL_def)
qed

lemma search_fetch_none:
  assumes s: "serves ps good ss (sd_uri sd) (sd_xml sd) rows"
    and b: "0 < sd_batch_size sd" "sd_batch_size sd \<le> 100" "0 \<le> sd_next sd" "sd_next sd \<le> INT_MAX"
    and r: "row_range rows (sd_batch_size sd) (sd_next sd) = (k, [])"
  shows "\<exists>f w'. search_fetch ps ss g i t (sd, w) = Inr (f, g, (sd, w')) \<and>
    f_results f = [] \<and> E2K_HTTP_STATUS_IS_SUCCESSFUL (f_status f)"
proof -
  obtain msg resp w' where m: "search_msg ss (sd_uri sd) (sd_xml sd) (sd_batch_size sd) (sd_next sd) = Inr msg"
      "e2k_context_send_message ss msg w = (resp, w')" "rows_answer ps good rows (sd_batch_size sd) (sd_next sd) resp"
    using search_request [OF s b] by blast
  have a: "status_code resp = E2K_HTTP_REQUESTED_RANGE_NOT_SATISFIABLE" using m(3) r by (simp add: rows_answer_def)
  then show ?thesis using b(1) m(1,2)
    by (auto simp: search_fetch_def Let_def E2K_HTTP_OK_def E2K_HTTP_STATUS_IS_SUCCESSFUL_def)
qed

lemma asc_step: "k < length rows \<Longrightarrow> asc_chunks rows k = (int k, take 100 (drop k rows)) # asc_chunks rows (k + 100)"
  and asc_end: "length rows \<le> k \<Longrightarrow> asc_chunks rows k = []"
  by (subst asc_chunks.simps, simp)+

lemma desc_step: "0 < m \<Longrightarrow> desc_chunks rows m =
    (int (m - 100), take (min 100 m) (drop (m - 100) rows)) # desc_chunks rows (m - 100)"
proof -
  have "m - (m - 100) = min 100 m" by simp
  then show "0 < m \<Longrightarrow> ?thesis" by (subst desc_chunks.simps) (simp add: Let_def)
qed

lemma desc_end: "desc_chunks rows 0 = []"
  by (subst desc_chunks.simps) simp

text \<open>The state behind a fetch.\<close>

lemma advance_asc:
  assumes "sd_ascending sd" "sd_batch_size sd = 100" "sd_next sd = int k" "k < length rows"
  shows "search_state rows (search_advance sd (int k) (int (length (take 100 (drop k rows)))) (int (length rows)))
    (asc_chunks rows (k + 100))"
proof (cases "k + 100 < length rows")
  case True
  then have "length (take 100 (drop k rows)) = 100" by simp
  then show ?thesis using True assms by (auto simp: search_advance_def search_state_def intro: exI [of _ "k + 100"])
next
  case False
  then have "length (take 100 (drop k rows)) = length rows - k" using assms(4) by simp
  then show ?thesis using False assms by (auto simp: search_advance_def search_state_def asc_end)
qed

lemma advance_desc:
  assumes "\<not> sd_ascending sd" "sd_batch_size sd = int (min 100 m) \<or> sd_batch_size sd = 100" "m \<le> length rows"
  shows "search_state rows (search_advance sd (int (m - 100)) l n) (desc_chunks rows (m - 100))"
proof (cases "m \<le> 100")
  case True
  then show ?thesis using assms by (simp add: search_advance_def search_state_def desc_end)
next
  case False
  then have b: "sd_batch_size sd = 100" using assms(2) by auto
  show ?thesis
  proof (cases "m - 100 \<ge> 100")
    case True
    then have "search_advance sd (int (m - 100)) l n = sd\<lparr>sd_next := int (m - 100 - 100)\<rparr>"
      using assms(1) b by (simp add: search_advance_def)
    then show ?thesis using True assms(1,3) b False
      by (auto simp: search_state_def intro!: exI [of _ "m - 100"])
  next
    case less: False
    then have "search_advance sd (int (m - 100)) l n = sd\<lparr>sd_batch_size := int (m - 100), sd_next := 0\<rparr>"
      using assms(1) b False by (simp add: search_advance_def)
    then show ?thesis using less assms(1,3) b False
      by (auto simp: search_state_def intro!: exI [of _ "m - 100"])
  qed
qed

lemma advance_keeps [simp]:
  "sd_uri (search_advance sd i l n) = sd_uri sd" "sd_xml (search_advance sd i l n) = sd_xml sd"
  "sd_ascending (search_advance sd i l n) = sd_ascending sd"
  by (simp_all add: search_advance_def)

text \<open>The rows a state asks for are the chunk that comes next.\<close>

lemma search_next_chunk:
  assumes st: "search_state rows sd (c # cs)" and n: "int (length rows) < INT_MAX"
  obtains k part where "row_range rows (sd_batch_size sd) (sd_next sd) = (k, part)" "c = (int k, part)" "part \<noteq> []"
    "0 < sd_batch_size sd" "sd_batch_size sd \<le> 100" "0 \<le> sd_next sd" "sd_next sd \<le> INT_MAX"
    "search_state rows (search_advance sd (int k) (int (length part)) (int (length rows))) cs"
    "after_chunk (sd_ascending sd) c = after_chunk (sd_ascending sd) (int k, part)"
proof -
  consider (asc) k where "sd_ascending sd" "sd_batch_size sd = 100" "k \<le> length rows" "sd_next sd = int k"
      "c # cs = asc_chunks rows k"
    | (first) "\<not> sd_ascending sd" "sd_batch_size sd = 100" "sd_next sd = INT_MAX" "c # cs = desc_chunks rows (length rows)"
    | (desc) m where "\<not> sd_ascending sd" "m \<le> length rows" "0 < m" "sd_batch_size sd = int (min 100 m)"
      "sd_next sd = int (m - 100)" "c # cs = desc_chunks rows m"
    using st unfolding search_state_def by blast
  then show ?thesis
  proof cases
    case asc
    have k: "k < length rows" using asc(5) asc_end [of rows k] by (cases "length rows \<le> k") auto
    have c: "c = (int k, take 100 (drop k rows))" "cs = asc_chunks rows (k + 100)"
      using asc(5) asc_step [OF k] by simp_all
    show ?thesis
    proof (rule that)
      show "row_range rows (sd_batch_size sd) (sd_next sd) = (k, take 100 (drop k rows))"
        using asc(2,4) k n by (simp add: row_range_def)
    qed (use asc c k n advance_asc [OF asc(1,2,4) k] in simp_all)
  next
    case first
    let ?m = "length rows"
    have m: "0 < ?m" using first(4) desc_end [of rows] by (cases ?m) auto
    have c: "c = (int (?m - 100), take (min 100 ?m) (drop (?m - 100) rows))" "cs = desc_chunks rows (?m - 100)"
      using first(4) desc_step [OF m] by simp_all
    show ?thesis
    proof (rule that)
      have "nat (int ?m - 100) = ?m - 100" by simp
      moreover have "take 100 (drop (?m - 100) rows) = take (min 100 ?m) (drop (?m - 100) rows)" by simp
      ultimately show "row_range rows (sd_batch_size sd) (sd_next sd) = (?m - 100, take (min 100 ?m) (drop (?m - 100) rows))"
        using first(2,3) by (simp add: row_range_def Let_def)
      show "take (min 100 ?m) (drop (?m - 100) rows) \<noteq> []"
        using m by (cases rows) auto
    qed (use first c m advance_desc [of sd ?m rows] in \<open>simp_all add: INT_MAX_def\<close>)
  next
    case desc
    have c: "c = (int (m - 100), take (min 100 m) (drop (m - 100) rows))" "cs = desc_chunks rows (m - 100)"
      using desc(6) desc_step [OF desc(3)] by simp_all
    show ?thesis
    proof (rule that)
      have "int (m - 100) \<noteq> INT_MAX" using desc(2) n by linarith
      then show "row_range rows (sd_batch_size sd) (sd_next sd) = (m - 100, take (min 100 m) (drop (m - 100) rows))"
        using desc(4,5) by (simp add: row_range_def Let_def)
      show "take (min 100 m) (drop (m - 100) rows) \<noteq> []" using desc(2,3) by simp
    qed (use desc c n advance_desc [of sd m rows] in simp_all)
  qed
qed

interpretation search: chunk_source "search_fetch ps ss" good "\<lambda>_. True" "search_chunks ps good ss"
  for ps :: parsers and ss :: "'w session" and good :: "prop_tables \<Rightarrow> bool"
proof
  fix asc i t and s :: "E2kSearchData \<times> 'w" and c cs g
  assume ch: "search_chunks ps good ss asc i t s (c # cs)" and good: "good g"
  obtain sd w where sw: "s = (sd, w)" by (cases s)
  obtain rows where r: "serves ps good ss (sd_uri sd) (sd_xml sd) rows" "int (length rows) < INT_MAX"
      "asc = sd_ascending sd" "search_state rows sd (c # cs)"
    using ch by (auto simp: search_chunks_def sw)
  obtain k part where k: "row_range rows (sd_batch_size sd) (sd_next sd) = (k, part)" "c = (int k, part)" "part \<noteq> []"
      "0 < sd_batch_size sd" "sd_batch_size sd \<le> 100" "0 \<le> sd_next sd" "sd_next sd \<le> INT_MAX"
      "search_state rows (search_advance sd (int k) (int (length part)) (int (length rows))) cs"
    using search_next_chunk [OF r(4,2)] by metis
  obtain f g' w' where f: "search_fetch ps ss g i t (sd, w) =
        Inr (f, g', (search_advance sd (int k) (int (length part)) (int (length rows)), w'))"
      "f_results f = part" "f_first f = int k" "f_total f > 0" "E2K_HTTP_STATUS_IS_SUCCESSFUL (f_status f)"
      "e2k_results_free g' part = Inr ()" "good g'"
    using search_fetch_rows [OF r(1,2) k(4,5,6,7,1,3) good] by metis
  then show "\<exists>f g' s'. search_fetch ps ss g i t s = Inr (f, g', s') \<and> f_results f = snd c \<and> f_first f = fst c \<and>
      f_total f > 0 \<and> E2K_HTTP_STATUS_IS_SUCCESSFUL (f_status f) \<and> snd c \<noteq> [] \<and>
      e2k_results_free g' (snd c) = Inr () \<and> good g' \<and> search_chunks ps good ss asc (after_chunk asc c) (f_total f) s' cs"
    using r(1-3) k(2,3,8) unfolding sw search_chunks_def by (intro exI) auto
next
  fix asc i t and s :: "E2kSearchData \<times> 'w" and g
  assume ch: "search_chunks ps good ss asc i t s []" and good: "good g"
  obtain sd w where sw: "s = (sd, w)" by (cases s)
  obtain rows where r: "serves ps good ss (sd_uri sd) (sd_xml sd) rows" "int (length rows) < INT_MAX"
      "search_state rows sd []"
    using ch by (auto simp: search_chunks_def sw)
  show "\<exists>f g' s'. search_fetch ps ss g i t s = Inr (f, g', s') \<and> f_results f = [] \<and> E2K_HTTP_STATUS_IS_SUCCESSFUL (f_status f) \<and>
      (\<lambda>_. True) s'"
  proof (cases "sd_batch_size sd = 0")
    case True
    then show ?thesis by (simp add: sw search_fetch_def E2K_HTTP_OK_def E2K_HTTP_STATUS_IS_SUCCESSFUL_def)
  next
    case False
    have "\<exists>k. row_range rows (sd_batch_size sd) (sd_next sd) = (k, []) \<and> 0 < sd_batch_size sd \<and>
        sd_batch_size sd \<le> 100 \<and> 0 \<le> sd_next sd \<and> sd_next sd \<le> INT_MAX"
    proof -
      consider (asc) k where "sd_batch_size sd = 100" "k \<le> length rows" "sd_next sd = int k" "[] = asc_chunks rows k"
        | (first) "sd_batch_size sd = 100" "sd_next sd = INT_MAX" "[] = desc_chunks rows (length rows)"
        | (desc) m where "0 < m" "[] = desc_chunks rows m"
        using r(3) False unfolding search_state_def by blast
      then show ?thesis
      proof cases
        case asc
        have "k = length rows"
        proof (rule ccontr)
          assume "k \<noteq> length rows"
          then show False using asc asc_step [of k rows] by simp
        qed
        then show ?thesis using asc r(2) by (simp add: row_range_def)
      next
        case first
        then have "length rows = 0" using desc_step [of "length rows" rows] by (cases "length rows") auto
        then show ?thesis using first by (simp add: row_range_def INT_MAX_def)
      next
        case desc
        then show ?thesis using desc_step [of m rows] by simp
      qed
    qed
    then show ?thesis using search_fetch_none [OF r(1)] unfolding sw by metis
  qed
qed

lemma numbered_append: "numbered i (xs @ ys) = numbered i xs @ numbered (i + int (length xs)) ys"
  by (induction xs arbitrary: i) (auto simp: algebra_simps)

lemma asc_all: "concat (map (chunk_order True) (asc_chunks rows k)) = numbered (int k) (drop k rows)"
proof (induction rows k rule: asc_chunks.induct)
  case (1 rows k)
  show ?case
  proof (cases "k < length rows")
    case True
    have "numbered (int k) (drop k rows) =
        numbered (int k) (take 100 (drop k rows)) @ numbered (int k + int (length (take 100 (drop k rows)))) (drop 100 (drop k rows))"
      by (metis append_take_drop_id numbered_append)
    also have "numbered (int k + int (length (take 100 (drop k rows)))) (drop 100 (drop k rows)) =
        numbered (int (k + 100)) (drop (k + 100) rows)"
      by (cases "k + 100 \<le> length rows") (auto simp: add.commute)
    finally show ?thesis using 1 True by (simp add: asc_step chunk_order_def)
  qed (simp add: asc_end)
qed

lemma asc_total: "concat (map snd (asc_chunks rows k)) = drop k rows"
proof (induction rows k rule: asc_chunks.induct)
  case (1 rows k)
  show ?case
  proof (cases "k < length rows")
    case True
    then show ?thesis using 1 append_take_drop_id [of 100 "drop k rows"] by (simp add: asc_step add.commute)
  qed (simp add: asc_end)
qed

lemma desc_all: "m \<le> length rows \<Longrightarrow>
    concat (map (chunk_order False) (desc_chunks rows m)) = rev (numbered 0 (take m rows)) \<and>
    length (concat (map snd (desc_chunks rows m))) = m"
proof (induction rows m rule: desc_chunks.induct)
  case (1 rows m)
  show ?case
  proof (cases "m = 0")
    case False
    let ?k = "m - 100" and ?c = "take (min 100 m) (drop (m - 100) rows)"
    have IH: "concat (map (chunk_order False) (desc_chunks rows ?k)) = rev (numbered 0 (take ?k rows))"
        "length (concat (map snd (desc_chunks rows ?k))) = ?k"
      using 1 False by simp_all
    have "min 100 m = m - ?k" by simp
    then have "take m rows = take ?k rows @ ?c" using 1(2)
      by (metis diff_le_self le_add_diff_inverse take_add)
    then have "rev (numbered 0 (take m rows)) = rev (numbered (int ?k) ?c) @ rev (numbered 0 (take ?k rows))"
      using 1(2) by (simp add: numbered_append min_absorb2)
    moreover have "length ?c = min 100 m" using 1(2) by simp
    moreover have "chunk_order False (int ?k, ?c) = rev (numbered (int ?k) ?c)" by (simp add: chunk_order_def)
    moreover have "min 100 m + ?k = m" by simp
    ultimately show ?thesis using IH False by (simp add: desc_step)
  qed (simp add: desc_end)
qed

text \<open>
  C2. A search of a server that keeps a list of rows and answers every range request with its rows,
  their position and their number, or with 416 when there are none: the caller gets every row exactly
  once, in ascending or in descending order as asked, with its index in the whole list, and then
  \<open>NULL\<close> with a successful status. The batches, their ranges and the bookkeeping between them lose
  and repeat nothing.
\<close>

theorem search_order:
  assumes "search_xml props rn orderby = Inr xml" "serves ps good ss uri xml rows"
    and "int (length rows) < INT_MAX" "good g"
  shows "\<exists>it g1 it' g'. e2k_context_search_start ps ss g uri props rn orderby ascending w = Inr (it, g1) \<and>
    iter_drain (Suc (length rows)) (search_fetch ps ss) g1 it =
      Inr (if ascending then numbered 0 rows else rev (numbered 0 rows), it', g') \<and>
    e2k_result_iter_free g' it' = Inr (iter_status it') \<and> E2K_HTTP_STATUS_IS_SUCCESSFUL (iter_status it')"
proof -
  define sd where "sd = \<lparr>sd_uri = uri, sd_xml = xml, sd_ascending = ascending,
    sd_batch_size = int E2K_CONTEXT_MAX_BATCH_SIZE, sd_next = (if ascending then 0 else INT_MAX)\<rparr>"
  define cs where "cs = (if ascending then asc_chunks rows 0 else desc_chunks rows (length rows))"
  have "search_state rows sd cs"
    by (auto simp: search_state_def sd_def cs_def E2K_CONTEXT_MAX_BATCH_SIZE_def)
  then have ch: "search_chunks ps good ss ascending 0 (-1) (sd, w) cs"
    using assms(2,3) by (auto simp: search_chunks_def sd_def)
  have "length (concat (map snd cs)) < Suc (length rows)"
    using asc_total [of rows 0] desc_all [of "length rows" rows] by (simp add: cs_def)
  from search.drain_new [OF ch assms(4) this]
  obtain it g1 it' g' where r: "e2k_result_iter_new (search_fetch ps ss) g ascending (-1) (sd, w) = Inr (it, g1)"
      "iter_drain (Suc (length rows)) (search_fetch ps ss) g1 it =
        Inr (concat (map (chunk_order ascending) cs), it', g')"
      "iter_results it' = []" "E2K_HTTP_STATUS_IS_SUCCESSFUL (iter_status it')"
    by blast
  have "concat (map (chunk_order ascending) cs) = (if ascending then numbered 0 rows else rev (numbered 0 rows))"
    using asc_all [of rows 0] desc_all [of "length rows" rows] by (simp add: cs_def)
  moreover have "e2k_result_iter_free g' it' = Inr (iter_status it')" using r(3) by (simp add: e2k_result_iter_free_def)
  ultimately show ?thesis using r assms(1) by (simp add: e2k_context_search_start_def sd_def)
qed

section \<open>A sample server\<close>

definition sample_row :: E2kResult where
  "sample_row = \<lparr>href = Some ''a'', res_status = 404, res_props = None\<rparr>"

definition sample_parsers :: parsers where
  "sample_parsers = \<lparr>base64_decode = (\<lambda>_. []), parse_xml = (\<lambda>_. Some [Elem ''multistatus'' (Some ''DAV:'') []
     [Elem ''response'' (Some ''DAV:'') []
       [Elem ''href'' (Some ''DAV:'') [] [Text ''a''],
        Elem ''status'' (Some ''DAV:'') [] [Text ''HTTP/1.1 404 Not Found'']]]])\<rparr>"

definition sample_transport :: "soup_message \<Rightarrow> unit \<Rightarrow> soup_response \<times> unit" where
  "sample_transport msg w =
     (let r = (case map_of (request_headers msg) ''Range'' of None \<Rightarrow> [] | Some r \<Rightarrow> r)
      in (if take 6 r = ''rows=-'' \<or> take 7 r = ''rows=0-''
          then \<lparr>status_code = E2K_HTTP_MULTI_STATUS, response_header = [''Content-Range'' \<mapsto> ''rows 0-0; total=1''],
                response_body = []\<rparr>
          else \<lparr>status_code = E2K_HTTP_REQUESTED_RANGE_NOT_SATISFIABLE, response_header = Map.empty, response_body = []\<rparr>, w))"

definition sample_session :: "unit session" where
  "sample_session = \<lparr>uri_valid = (\<lambda>_. True), op_cancelled = (\<lambda>_. False), transport = sample_transport\<rparr>"

lemma fmt_u_zero: "take 2 (fmt_u n @ ''-'' @ r) = ''0-'' \<Longrightarrow> n = 0"
proof -
  assume t: "take 2 (fmt_u n @ ''-'' @ r) = ''0-''"
  have "\<not> is_base 10 CHR ''-''" by (simp add: not_digit_sep)
  then have "CHR ''-'' \<notin> set (fmt_u n)" using fmt_u_chars by blast
  moreover obtain c cs where c: "fmt_u n = c # cs" by (cases "fmt_u n") (auto simp: fmt_u_def)
  ultimately have "fmt_u n = ''0''" using t by (cases cs) auto
  then have "num_of 10 (fmt_u n) = 0" by (simp add: num_of_def)
  then show "n = 0" by (simp add: fmt_u_def num_of_to_base)
qed

lemma sample_answer: "answered sample_parsers good \<lparr>status_code = E2K_HTTP_MULTI_STATUS, response_header = h,
    response_body = []\<rparr> [sample_row]"
proof -
  have "e2k_results_from_multistatus sample_parsers g E2K_HTTP_MULTI_STATUS [] = Inr ([sample_row], g)" for g
  proof -
    have "e2k_http_parse_status ''HTTP/1.1 404 Not Found'' = 404" by code_simp
    then show ?thesis
      by (simp add: e2k_results_from_multistatus_def e2k_results_array_add_from_multistatus_def sample_parsers_def
          sanitize_bad_multistatus_def E2K_IS_NODE_def status_content_def first_content_def sample_row_def
          E2K_HTTP_STATUS_IS_SUCCESSFUL_def)
  qed
  moreover have "e2k_results_free g [sample_row] = Inr ()" for g
    by (simp add: e2k_result_clear_def sample_row_def)
  ultimately show ?thesis by (auto simp: answered_def)
qed

lemma sample_serves: "serves sample_parsers (\<lambda>_. True) sample_session uri xml [sample_row]"
proof -
  have "rows_answer sample_parsers (\<lambda>_. True) [sample_row] batch offset (fst (sample_transport msg w))"
    if b: "0 < batch" "0 \<le> offset" "offset \<le> INT_MAX" and m: "search_msg sample_session uri xml batch offset = Inr msg"
    for w batch offset msg
  proof -
    define rg where "rg = (if offset = INT_MAX then ''rows=-'' @ fmt_unsigned batch
        else ''rows='' @ fmt_unsigned offset @ ''-'' @ fmt_unsigned (offset + batch - 1))"
    have h: "map_of (request_headers msg) ''Range'' = Some rg"
      using m b(1) by (auto simp: search_msg_def e2k_soup_message_new_full_def e2k_soup_message_new_def new_message_def
          sample_session_def add_header_def rg_def Let_def)
    consider "offset = INT_MAX" | "offset = 0" | "0 < offset" "offset \<noteq> INT_MAX" using b(2) by linarith
    then show ?thesis
    proof cases
      case 3
      have "fmt_unsigned offset = fmt_u (nat offset)" using b(2,3) by (simp add: fmt_unsigned_def INT_MAX_def)
      moreover have "nat offset \<noteq> 0" using 3 by simp
      moreover obtain c cs where c: "fmt_u (nat offset) = c # cs" by (cases "fmt_u (nat offset)") (auto simp: fmt_u_def)
      moreover have "c \<noteq> CHR ''-''" using fmt_u_chars [of c "nat offset"] not_digit_sep(1) c by auto
      ultimately have "take 6 rg \<noteq> ''rows=-''" "take 7 rg \<noteq> ''rows=0-''"
        using 3 fmt_u_zero [of "nat offset"] by (auto simp: rg_def)
      then show ?thesis using 3 by (simp add: rows_answer_def row_range_def sample_transport_def h Let_def)
    next
      case 1
      then have "take 6 rg = ''rows=-''" by (simp add: rg_def)
      moreover have "row_range [sample_row] batch offset = (0, [sample_row])"
        using 1 b(1) by (simp add: row_range_def take_Cons')
      moreover have "content_range 0 0 1 = ''rows 0-0; total=1''" by code_simp
      ultimately show ?thesis using sample_answer
        by (simp add: rows_answer_def sample_transport_def h E2K_HTTP_MULTI_STATUS_def)
    next
      case 2
      have "fmt_unsigned 0 = ''0''" by code_simp
      then have "take 7 rg = ''rows=0-''" using 2 by (simp add: rg_def INT_MAX_def)
      moreover have "row_range [sample_row] batch offset = (0, [sample_row])"
        using 2 b(1) by (simp add: row_range_def take_Cons' INT_MAX_def)
      moreover have "content_range 0 0 1 = ''rows 0-0; total=1''" by code_simp
      ultimately show ?thesis using sample_answer
        by (simp add: rows_answer_def sample_transport_def h E2K_HTTP_MULTI_STATUS_def)
    qed
  qed
  then show ?thesis by (auto simp: serves_def sample_session_def)
qed

theorem search_order_witness:
  "\<exists>it g1 it' g'. e2k_context_search_start sample_parsers sample_session initial_tables ''http://h/'' [''DAV:href''] None None False ()
      = Inr (it, g1) \<and>
    iter_drain 2 (search_fetch sample_parsers sample_session) g1 it = Inr ([(0, sample_row)], it', g') \<and>
    E2K_HTTP_STATUS_IS_SUCCESSFUL (iter_status it')"
proof -
  obtain xml where x: "search_xml [''DAV:href''] None None = Inr xml" by (simp add: search_xml_def)
  have "int (length [sample_row]) < INT_MAX" by (simp add: INT_MAX_def)
  from search_order [OF x sample_serves [of "''http://h/''"] this, where g = initial_tables and ascending = False and w = "()"]
  show ?thesis by (simp add: numeral_2_eq_2 del: iter_drain.simps) blast
qed

end
