(* ===== verification/Bulk_Results.thy ===== *)
theory Bulk_Results
  imports Search_Order "HOL-Library.Multiset"
begin

text \<open>
  Bulk requests as a whole (server/lib/e2k-context.c): how the hrefs are cut into batches and what
  the caller gets when the server answers each of them.
\<close>

section \<open>Batches\<close>

lemma batches_Nil [simp]: "batches n [] = []"
  by (subst batches.simps) simp

lemma batches_step: "xs \<noteq> [] \<Longrightarrow> 0 < n \<Longrightarrow> batches n xs = take n xs # batches n (drop n xs)"
  by (subst batches.simps) simp

lemma batches_all: "0 < n \<Longrightarrow> concat (batches n xs) = xs \<and>
    (\<forall>b \<in> set (batches n xs). b \<noteq> [] \<and> length b \<le> n)"
proof (induction n xs rule: batches.induct)
  case (1 n xs)
  show ?case
  proof (cases "xs = []")
    case False
    then have "concat (batches n (drop n xs)) = drop n xs"
        "\<forall>b \<in> set (batches n (drop n xs)). b \<noteq> [] \<and> length b \<le> n"
      using 1 by simp_all
    then show ?thesis using False 1(2) by (subst (1 2) batches_step) simp_all
  qed simp
qed

text \<open>The number of batches, rounded up.\<close>

lemma batches_count: "0 < n \<Longrightarrow> length (batches n xs) = (length xs + n - 1) div n"
proof (induction n xs rule: batches.induct)
  case (1 n xs)
  show ?case
  proof (cases "xs = []")
    case False
    show ?thesis
    proof (cases "length xs \<le> n")
      case True
      have "length xs + n - 1 = n + (length xs - 1)" using False by (cases xs) auto
      moreover have "length xs - 1 < n" using True False 1(2) by (cases xs) auto
      ultimately have "(length xs + n - 1) div n = 1" using 1(2) by (simp only: div_add_self1) simp
      moreover have "batches n xs = [take n xs]" using True False 1(2) by (subst batches_step) simp_all
      ultimately show ?thesis by simp
    next
      case len: False
      then have "length xs + n - 1 = (length (drop n xs) + n - 1) + n" by simp
      moreover have "(a + n) div n = Suc (a div n)" for a using 1(2) div_add_self2 [of n a] by simp
      ultimately have "(length xs + n - 1) div n = Suc ((length (drop n xs) + n - 1) div n)" by metis
      moreover have "length (batches n (drop n xs)) = (length (drop n xs) + n - 1) div n" using 1 False by simp
      moreover have "length (batches n xs) = Suc (length (batches n (drop n xs)))"
        using False 1(2) by (subst batches_step) simp_all
      ultimately show ?thesis by simp
    qed
  qed (use 1 in simp)
qed

section \<open>Iterating over the answers\<close>

fun batch_answers ::
  "parsers \<Rightarrow> (prop_tables \<Rightarrow> bool) \<Rightarrow> 'w session \<Rightarrow> int \<Rightarrow> soup_message list \<Rightarrow> 'w \<Rightarrow> chunk list \<Rightarrow> bool" where
  "batch_answers ps good ss i [] w cs \<longleftrightarrow> cs = []"
| "batch_answers ps good ss i (m # ms) w cs \<longleftrightarrow>
     (\<exists>rs cs' resp w'. cs = (i, rs) # cs' \<and> rs \<noteq> [] \<and> e2k_context_send_message ss m w = (resp, w') \<and>
        status_code resp = E2K_HTTP_MULTI_STATUS \<and> answered ps good resp rs \<and>
        batch_answers ps good ss (i + int (length rs)) ms w' cs')"

text \<open>The world after some messages were sent, one after the other.\<close>

fun after_sending :: "'w session \<Rightarrow> soup_message list \<Rightarrow> 'w \<Rightarrow> 'w" where
  "after_sending ss [] w = w"
| "after_sending ss (m # ms) w = after_sending ss ms (snd (e2k_context_send_message ss m w))"

definition batch_chunks ::
  "parsers \<Rightarrow> (prop_tables \<Rightarrow> bool) \<Rightarrow> 'w session \<Rightarrow> 'w \<Rightarrow> bool \<Rightarrow> int \<Rightarrow> int \<Rightarrow> soup_message list \<times> 'w \<Rightarrow> chunk list \<Rightarrow> bool" where
  "batch_chunks ps good ss wz asc i t s cs \<longleftrightarrow> asc \<and> (fst s = [] \<or> 0 < t) \<and>
     batch_answers ps good ss i (fst s) (snd s) cs \<and> after_sending ss (fst s) (snd s) = wz"

text \<open>When nothing is left, every message was sent, and nothing else.\<close>

interpretation batch: chunk_source "batch_fetch ps ss" good "\<lambda>s. s = ([], wz)" "batch_chunks ps good ss wz"
  for ps :: parsers and ss :: "'w session" and good :: "prop_tables \<Rightarrow> bool" and wz :: 'w
proof
  fix asc i t and s :: "soup_message list \<times> 'w" and g
  assume ch: "batch_chunks ps good ss wz asc i t s []" and g: "good g"
  obtain ms w where s: "s = (ms, w)" by (cases s)
  have "ms = []" "w = wz" using ch by (cases ms; auto simp: batch_chunks_def s)+
  then show "\<exists>f g' s'. batch_fetch ps ss g i t s = Inr (f, g', s') \<and> f_results f = [] \<and>
      E2K_HTTP_STATUS_IS_SUCCESSFUL (f_status f) \<and> s' = ([], wz)"
    by (simp add: s batch_fetch_def E2K_HTTP_OK_def E2K_HTTP_STATUS_IS_SUCCESSFUL_def)
next
  fix asc i t and s :: "soup_message list \<times> 'w" and c cs g
  assume ch: "batch_chunks ps good ss wz asc i t s (c # cs)" and g: "good g"
  obtain m ms w where s: "s = (m # ms, w)"
    using ch by (cases s; cases "fst s") (auto simp: batch_chunks_def)
  obtain rs resp w' where r: "c = (i, rs)" "rs \<noteq> []" "e2k_context_send_message ss m w = (resp, w')"
      "status_code resp = E2K_HTTP_MULTI_STATUS" "answered ps good resp rs"
      "batch_answers ps good ss (i + int (length rs)) ms w' cs" "asc" "0 < t" "after_sending ss ms w' = wz"
    using ch by (auto simp: batch_chunks_def s)
  obtain g' where "e2k_results_from_multistatus ps g E2K_HTTP_MULTI_STATUS (response_body resp) = Inr (rs, g')"
      "e2k_results_free g' rs = Inr ()" "good g'"
    using r(4,5) g unfolding answered_def by metis
  then show "\<exists>f g' s'. batch_fetch ps ss g i t s = Inr (f, g', s') \<and> f_results f = snd c \<and> f_first f = fst c \<and>
      f_total f > 0 \<and> E2K_HTTP_STATUS_IS_SUCCESSFUL (f_status f) \<and> snd c \<noteq> [] \<and>
      e2k_results_free g' (snd c) = Inr () \<and> good g' \<and> batch_chunks ps good ss wz asc (after_chunk asc c) (f_total f) s' cs"
    using r by (simp add: s batch_fetch_def E2K_HTTP_MULTI_STATUS_def E2K_HTTP_STATUS_IS_SUCCESSFUL_def
        batch_chunks_def after_chunk_def)
qed

text \<open>
  A server that answers a message made for some hrefs with one result for each of them, in order.
\<close>

definition answers_each ::
  "parsers \<Rightarrow> (prop_tables \<Rightarrow> bool) \<Rightarrow> 'w session \<Rightarrow> (string list \<Rightarrow> soup_message result) \<Rightarrow> (string \<Rightarrow> E2kResult) \<Rightarrow> bool" where
  "answers_each ps good ss mk res \<longleftrightarrow> (\<forall>w. \<not> op_cancelled ss w) \<and>
     (\<forall>hs msg w. hs \<noteq> [] \<longrightarrow> mk hs = Inr msg \<longrightarrow>
        status_code (fst (transport ss msg w)) = E2K_HTTP_MULTI_STATUS \<and>
        answered ps good (fst (transport ss msg w)) (map res hs))"

fun result_chunks :: "(string \<Rightarrow> E2kResult) \<Rightarrow> int \<Rightarrow> string list list \<Rightarrow> chunk list" where
  "result_chunks res i [] = []"
| "result_chunks res i (b # bs) = (i, map res b) # result_chunks res (i + int (length b)) bs"

lemma batch_answers_made:
  assumes "answers_each ps good ss mk res" "list_all2 (\<lambda>b m. mk b = Inr m \<and> b \<noteq> []) bs ms"
  shows "batch_answers ps good ss i ms w (result_chunks res i bs)"
  using assms(2)
proof (induction bs ms arbitrary: i w rule: list_all2_induct)
  case Nil
  then show ?case by simp
next
  case (Cons b bs m ms)
  obtain resp w' where "transport ss m w = (resp, w')" by (cases "transport ss m w")
  then show ?case using Cons assms(1)
    unfolding answers_each_def by (auto simp: e2k_context_send_message_def dest!: spec [of _ b] spec [of _ m] spec [of _ w])
qed

lemma result_chunks_order:
  "concat (map (chunk_order True) (result_chunks res i bs)) = numbered i (map res (concat bs))"
  "concat (map snd (result_chunks res i bs)) = map res (concat bs)"
  by (induction bs arbitrary: i) (simp_all add: chunk_order_def numbered_append)

lemma map_ok_all2: "map_ok f xs = Inr ys \<Longrightarrow> list_all2 (\<lambda>x y. f x = Inr y) xs ys"
  by (induction xs arbitrary: ys) (auto simp: ok_bind_eq_Inr)

lemma map_ok_total: "(\<And>x. x \<in> set xs \<Longrightarrow> \<exists>y. f x = Inr y) \<Longrightarrow> \<exists>ys. map_ok f xs = Inr ys"
  by (induction xs) force+

text \<open>Iterating over batches that were answered: a result for every href, in the order of the batches.\<close>

lemma batch_drain:
  assumes a: "answers_each ps good ss mk res" and m: "list_all2 (\<lambda>b m. mk b = Inr m \<and> b \<noteq> []) bs ms"
    and t: "ms = [] \<or> 0 < t" and g: "good g"
  shows "\<exists>it g1 it' g'. e2k_result_iter_new (batch_fetch ps ss) g True t (ms, w) = Inr (it, g1) \<and>
    iter_drain (Suc (length (concat bs))) (batch_fetch ps ss) g1 it = Inr (numbered 0 (map res (concat bs)), it', g') \<and>
    E2K_HTTP_STATUS_IS_SUCCESSFUL (iter_status it') \<and> iter_user_data it' = ([], after_sending ss ms w)"
proof -
  have "batch_chunks ps good ss (after_sending ss ms w) True 0 t (ms, w) (result_chunks res 0 bs)"
    using batch_answers_made [OF a m] t by (simp add: batch_chunks_def)
  from batch.drain_new [OF this g, of "Suc (length (concat bs))"]
  show ?thesis by (simp add: result_chunks_order del: iter_drain.simps) blast
qed

lemma delete_batch_size_limits: "25 \<le> delete_batch_size n \<and> delete_batch_size n \<le> 100 \<and> 0 < delete_batch_size n"
  by (simp add: delete_batch_size_def Let_def E2K_CONTEXT_MIN_BATCH_SIZE_def E2K_CONTEXT_MAX_BATCH_SIZE_def)

lemma delete_batch_count: "n \<le> 1000 \<Longrightarrow> (n + delete_batch_size n - 1) div delete_batch_size n \<le> 10"
proof -
  assume n: "n \<le> 1000"
  let ?b = "delete_batch_size n"
  have b: "n \<le> 10 * ?b" "0 < ?b"
    using n by (auto simp: delete_batch_size_def Let_def E2K_CONTEXT_MIN_BATCH_SIZE_def E2K_CONTEXT_MAX_BATCH_SIZE_def)
  then have "n + ?b - 1 < 11 * ?b" by linarith
  then have "(n + ?b - 1) div ?b < 11" using b(2) by (simp add: less_mult_imp_div_less)
  then show ?thesis by simp
qed

text \<open>
  C8. A bulk deletion sends the deletion messages of batches into which the hrefs are divided, one
  after the other and no other message: every href is in exactly one batch, a batch has at most 100
  hrefs and, up to a thousand hrefs, there are at most ten. The caller gets the result of every href
  exactly once, in the order of the batches and numbered from 0, and then \<open>NULL\<close> with a successful
  status. This is for a server that answers every such message with one result for each of its hrefs,
  and an operation that is not cancelled. (A transport that keeps a record of the messages makes the
  world at the end that record.)
\<close>

theorem bdelete_results:
  assumes valid: "e2k_strdup_with_trailing_slash (Some uri) = Some u" "uri_valid ss u"
    and server: "answers_each ps good ss (bdelete_msg ss uri) res" and good: "good g"
  shows "\<exists>bs ms it g1 rs it' g'. mset (concat bs) = mset hrefs \<and> (\<forall>b \<in> set bs. b \<noteq> [] \<and> length b \<le> 100) \<and>
    (length hrefs \<le> 1000 \<longrightarrow> length bs \<le> 10) \<and> list_all2 (\<lambda>b m. bdelete_msg ss uri b = Inr m) bs ms \<and>
    e2k_context_bdelete_start ps ss g uri hrefs w = Inr (it, g1) \<and>
    iter_drain (Suc (length hrefs)) (bdelete_fetch ps ss) g1 it = Inr (rs, it', g') \<and>
    rs = numbered 0 (map res (concat bs)) \<and> E2K_HTTP_STATUS_IS_SUCCESSFUL (iter_status it') \<and>
    iter_user_data it' = ([], after_sending ss ms w)"
proof -
  let ?n = "delete_batch_size (length hrefs)"
  have n: "0 < ?n" "?n \<le> 100" using delete_batch_size_limits by blast+
  define bs where "bs = rev (batches ?n hrefs)"
  have b: "concat (batches ?n hrefs) = hrefs" "\<forall>b \<in> set (batches ?n hrefs). b \<noteq> [] \<and> length b \<le> ?n"
    using batches_all [OF n(1), of hrefs] by blast+
  have m: "mset (concat bs) = mset hrefs"
    using b(1) by (metis bs_def mset_concat mset_rev rev_map sum_list.rev)
  then have len: "length (concat bs) = length hrefs" by (metis size_mset)
  have "\<exists>msg. bdelete_msg ss uri hs = Inr msg" for hs
    using valid by (simp add: bdelete_msg_def e2k_soup_message_new_full_def e2k_soup_message_new_def new_message_def)
  then obtain ms where ms: "map_ok (bdelete_msg ss uri) (batches ?n hrefs) = Inr ms"
    using map_ok_total [of "batches ?n hrefs" "bdelete_msg ss uri"] by blast
  have "list_all2 (\<lambda>b m. bdelete_msg ss uri b = Inr m) (batches ?n hrefs) ms" by (rule map_ok_all2 [OF ms])
  then have "list_all2 (\<lambda>b m. bdelete_msg ss uri b = Inr m \<and> b \<noteq> []) (batches ?n hrefs) ms"
    using b(2) by (auto simp: list_all2_conv_all_nth)
  then have all2: "list_all2 (\<lambda>b m. bdelete_msg ss uri b = Inr m \<and> b \<noteq> []) bs (rev ms)"
    by (simp add: bs_def)
  have "rev ms = [] \<or> 0 < int (length hrefs)" using all2 bs_def by (cases "hrefs = []") auto
  from batch_drain [OF server all2 this good, of w]
  obtain it g1 it' g' where r: "iter_user_data it' = ([], after_sending ss (rev ms) w)"
      "e2k_result_iter_new (batch_fetch ps ss) g True (int (length hrefs)) (rev ms, w) = Inr (it, g1)"
      "iter_drain (Suc (length hrefs)) (batch_fetch ps ss) g1 it = Inr (numbered 0 (map res (concat bs)), it', g')"
      "E2K_HTTP_STATUS_IS_SUCCESSFUL (iter_status it')"
    unfolding len by blast
  have "length bs \<le> 10" if "length hrefs \<le> 1000"
    using delete_batch_count [OF that] batches_count [OF n(1), of hrefs] by (simp add: bs_def)
  moreover have "\<forall>b \<in> set bs. b \<noteq> [] \<and> length b \<le> 100" using b(2) n(2) by (auto simp: bs_def)
  moreover have "list_all2 (\<lambda>b m. bdelete_msg ss uri b = Inr m) bs (rev ms)"
    using all2 by (rule list_all2_mono) simp
  ultimately show ?thesis using m r ms
    by (intro exI [of _ bs] exI [of _ "rev ms"] exI [of _ it] exI [of _ g1] exI [of _ "numbered 0 (map res (concat bs))"] exI [of _ it'] exI [of _ g'])
      (simp add: e2k_context_bdelete_start_def bdelete_fetch_def del: iter_drain.simps)
qed

text \<open>A bulk move or copy answers in the order of the source hrefs.\<close>

lemma transfer_results:
  assumes valid: "e2k_strdup_with_trailing_slash (Some source) = Some u" "uri_valid ss u"
    and dest: "e2k_strdup_with_trailing_slash (Some dest) = Some d"
    and server: "answers_each ps good ss (\<lambda>hs. transfer_msg ss source d hs del) res" and good: "good g"
  shows "\<exists>it g1 it' g'. e2k_context_transfer_start ps ss g source dest hrefs del w = Inr (it, g1) \<and>
    iter_drain (Suc (length hrefs)) (transfer_next ps ss) g1 it = Inr (numbered 0 (map res hrefs), it', g') \<and>
    E2K_HTTP_STATUS_IS_SUCCESSFUL (iter_status it')"
proof -
  let ?bs = "batches E2K_CONTEXT_MAX_BATCH_SIZE hrefs" and ?mk = "\<lambda>hs. transfer_msg ss source d hs del"
  have b: "concat ?bs = hrefs" "\<forall>b \<in> set ?bs. b \<noteq> []"
    using batches_all [of E2K_CONTEXT_MAX_BATCH_SIZE hrefs] by (auto simp: E2K_CONTEXT_MAX_BATCH_SIZE_def)
  have "\<exists>msg. ?mk hs = Inr msg" for hs
    using valid by (simp add: transfer_msg_def e2k_soup_message_new_full_def e2k_soup_message_new_def new_message_def)
  then obtain ms where ms: "map_ok ?mk ?bs = Inr ms" using map_ok_total [of ?bs ?mk] by blast
  have "list_all2 (\<lambda>b m. ?mk b = Inr m) ?bs ms" by (rule map_ok_all2 [OF ms])
  then have all2: "list_all2 (\<lambda>b m. ?mk b = Inr m \<and> b \<noteq> []) ?bs ms"
    using b(2) by (auto simp: list_all2_conv_all_nth)
  have "ms = [] \<or> 0 < int (length hrefs)" using all2 by (cases "hrefs = []") auto
  from batch_drain [OF server all2 this good, of w] show ?thesis
    using ms dest b(1) by (simp add: e2k_context_transfer_start_def transfer_next_def del: iter_drain.simps) blast
qed

text \<open>
  A server that answers a message with one failed result for every href in its body, and records the
  messages.
\<close>

definition sample_response :: xmlNode where
  "sample_response = Elem ''response'' (Some ''DAV:'') []
     [Elem ''href'' (Some ''DAV:'') [] [Text ''a''], Elem ''status'' (Some ''DAV:'') [] [Text ''HTTP/1.1 404 Not Found'']]"

definition counting_parsers :: parsers where
  "counting_parsers = \<lparr>base64_decode = (\<lambda>_. []), parse_xml = (\<lambda>s. Some
     [Elem ''multistatus'' (Some ''DAV:'') [] (replicate ((length s - 5) div 2) sample_response)])\<rparr>"

definition counting_session :: "soup_message list session" where
  "counting_session = \<lparr>uri_valid = (\<lambda>_. True), op_cancelled = (\<lambda>_. False),
     transport = (\<lambda>msg w. (\<lparr>status_code = E2K_HTTP_MULTI_STATUS, response_header = Map.empty,
       response_body = filter (\<lambda>c. c = CHR ''<'') (request_body msg)\<rparr>, w @ [msg]))\<rparr>"

lemma add_samples: "add_responses ps g (replicate n sample_response) acc = Inr (acc @ replicate n sample_row, g)"
proof (induction n arbitrary: acc)
  case (Suc n)
  have "e2k_http_parse_status ''HTTP/1.1 404 Not Found'' = 404" by code_simp
  then have "parse_response ps g (node_kids sample_response) \<lparr>href = None, res_status = E2K_HTTP_OK, res_props = None\<rparr>
      = Inr (sample_row, g)"
    by (simp add: sample_response_def E2K_IS_NODE_def status_content_def first_content_def sample_row_def)
  then show ?case using Suc
    by (simp add: sample_response_def E2K_IS_NODE_def sample_row_def E2K_HTTP_STATUS_IS_SUCCESSFUL_def)
qed simp

lemma href_elements_marks: "length (filter (\<lambda>c. c = CHR ''<'') (href_elements hs)) = 2 * length hs"
proof -
  have "filter (\<lambda>c. c = CHR ''<'') (concat (map escape_char s)) = []" for s
    by (induction s) (auto simp: escape_char_def)
  then show ?thesis
    by (induction hs) (auto simp: href_elements_def e2k_g_string_append_xml_escaped_def)
qed

lemma counting_answers: "answers_each counting_parsers (\<lambda>_. True) counting_session (bdelete_msg counting_session uri) (\<lambda>_. sample_row)"
proof -
  have "answered counting_parsers (\<lambda>_. True) (fst (transport counting_session msg w)) (replicate (length hs) sample_row)"
    if m: "bdelete_msg counting_session uri hs = Inr msg" for hs msg w
  proof -
    let ?body = "filter (\<lambda>c. c = CHR ''<'') (request_body msg)"
    have "request_body msg = E2K_XML_HEADER @ ''<delete xmlns=\"DAV:\"><target>'' @ href_elements hs @ ''</target></delete>''"
      using m by (auto simp: bdelete_msg_def e2k_soup_message_new_full_def ok_bind_eq_Inr)
    then have n: "length ?body = 5 + 2 * length hs" using href_elements_marks [of hs] by (simp add: E2K_XML_HEADER_def)
    have s: "sanitize_bad_multistatus ?body = Inr None" by (simp add: sanitize_bad_multistatus_def)
    have "e2k_results_from_multistatus counting_parsers g E2K_HTTP_MULTI_STATUS ?body =
        Inr (replicate (length hs) sample_row, g)" for g
      using n by (simp add: e2k_results_from_multistatus_def e2k_results_array_add_from_multistatus_def s
          counting_parsers_def E2K_IS_NODE_def add_samples)
    moreover have "e2k_results_free g (replicate k sample_row) = Inr ()" for g k
      by (induction k) (auto simp: e2k_result_clear_def sample_row_def)
    ultimately show ?thesis by (simp add: answered_def counting_session_def)
  qed
  then show ?thesis by (auto simp: answers_each_def counting_session_def map_replicate_const)
qed

lemma after_sending_counted: "after_sending counting_session ms w = w @ ms"
  by (induction ms arbitrary: w) (simp_all add: counting_session_def e2k_context_send_message_def)

theorem bdelete_results_witness:
  "\<exists>bs ms it g1 rs it' g'. mset (concat bs) = mset [''a'', ''b''] \<and>
     list_all2 (\<lambda>b m. bdelete_msg counting_session ''http://h/'' b = Inr m) bs ms \<and>
     e2k_context_bdelete_start counting_parsers counting_session initial_tables ''http://h/'' [''a'', ''b''] [] = Inr (it, g1) \<and>
     iter_drain 3 (bdelete_fetch counting_parsers counting_session) g1 it = Inr (rs, it', g') \<and>
     length rs = 2 \<and> snd (iter_user_data it') = ms"
proof -
  have v: "e2k_strdup_with_trailing_slash (Some ''http://h/'') = Some ''http://h/''" "uri_valid counting_session ''http://h/''"
    by (code_simp, simp add: counting_session_def)
  obtain bs ms it g1 rs it' g' where r: "mset (concat bs) = mset [''a'', ''b'']"
      "e2k_context_bdelete_start counting_parsers counting_session initial_tables ''http://h/'' [''a'', ''b''] [] = Inr (it, g1)"
      "iter_drain (Suc (length [''a'', ''b''])) (bdelete_fetch counting_parsers counting_session) g1 it = Inr (rs, it', g')"
      "rs = numbered 0 (map (\<lambda>_. sample_row) (concat bs))"
      "list_all2 (\<lambda>b m. bdelete_msg counting_session ''http://h/'' b = Inr m) bs ms"
      "iter_user_data it' = ([], after_sending counting_session ms [])"
    using bdelete_results [OF v counting_answers TrueI, of "[''a'', ''b'']" initial_tables "[]"]
    by (elim exE conjE) (rule that)
  have "length (concat bs) = 2" using arg_cong [OF r(1), of size] by simp
  then have "length rs = 2" using r(4) by simp
  have three: "Suc (length [''a'', ''b'']) = 3" by simp
  have "snd (iter_user_data it') = ms" using r(6) by (simp add: after_sending_counted)
  with three r(1,2,5) r(3) [unfolded three] \<open>length rs = 2\<close> show ?thesis
    by (intro exI [of _ bs] exI [of _ ms] exI [of _ it] exI [of _ g1] exI [of _ rs] exI [of _ it'] exI [of _ g'] conjI)
qed

end
