(* ===== verification/Requests.thy ===== *)
theory Requests
  imports Webdav
begin

text \<open>
  What the requests of the WebDAV client achieve (server/lib/e2k-context.c with e2k-result.c): a
  property written by a PROPPATCH and read back from a result, the name a new object gets, and a
  response whose properties change their types.
\<close>

section \<open>Properties on the wire\<close>

text \<open>The element for a property with its value, as the reader of results sees it.\<close>

fun type_name :: "e2k_prop_type \<Rightarrow> string option" where
  "type_name PT_BINARY = Some ''bin.base64''"
| "type_name PT_STRING_ARRAY = Some ''mv.string''"
| "type_name PT_INT_ARRAY = Some ''mv.int''"
| "type_name PT_BINARY_ARRAY = Some ''mv.bin.base64''"
| "type_name PT_INT = Some ''int''"
| "type_name PT_BOOL = Some ''boolean''"
| "type_name PT_FLOAT = Some ''float''"
| "type_name PT_DATE = Some ''dateTime.tz''"
| "type_name _ = None"

definition text_nodes :: "string \<Rightarrow> xmlNode list" where
  "text_nodes s = (if s = [] then [] else [Text s])"

definition item_node :: "string \<Rightarrow> xmlNode" where
  "item_node s = Elem ''v'' (Some ''xml:'') [] (text_nodes s)"

fun value_nodes :: "(byte list \<Rightarrow> string) \<Rightarrow> xmlNode prop_value \<Rightarrow> xmlNode list" where
  "value_nodes enc (VStr s) = text_nodes s"
| "value_nodes enc (VBin b) = text_nodes (enc b)"
| "value_nodes enc (VStrs ss) = map item_node ss"
| "value_nodes enc (VBins bs) = map (\<lambda>b. item_node (enc b)) bs"
| "value_nodes enc _ = []"

definition prop_node :: "(byte list \<Rightarrow> string) \<Rightarrow> string \<Rightarrow> string \<Rightarrow> e2k_prop_type \<Rightarrow> xmlNode prop_value \<Rightarrow> xmlNode" where
  "prop_node enc ns name type val =
     Elem name (Some ns) (case type_name type of None \<Rightarrow> [] | Some d \<Rightarrow> [(Some E2K_NS_TYPE, ''dt'', d)]) (value_nodes enc val)"

text \<open>Such an element as XML text, with the prefixes the requests declare.\<close>

fun print_kids :: "xmlNode list \<Rightarrow> string" where
  "print_kids [] = []"
| "print_kids (Text s # ks) = concat (map escape_char s) @ print_kids ks"
| "print_kids (Comment s # ks) = ''<!--'' @ s @ ''-->'' @ print_kids ks"
| "print_kids (Elem name ns attrs kids # ks) = ''<X:'' @ name @ ''>'' @ print_kids kids @ ''</X:'' @ name @ ''>'' @ print_kids ks"

fun print_prop :: "string \<Rightarrow> xmlNode \<Rightarrow> string" where
  "print_prop ab (Elem name ns attrs kids) =
     ''<'' @ ab @ '':'' @ name @ concat (map (\<lambda>(_, a, v). '' T:'' @ a @ ''=\"'' @ v @ ''\"'') attrs) @ ''>'' @
     print_kids kids @ ''</'' @ ab @ '':'' @ name @ ''>''"
| "print_prop ab _ = []"

lemma print_text_nodes: "print_kids (text_nodes s) = concat (map escape_char s)"
  by (simp add: text_nodes_def)

lemma print_items: "print_kids (map item_node ss) =
    concat (map (\<lambda>s. write_item (e2k_g_string_append_xml_escaped [] s)) ss)"
  by (induction ss) (simp_all add: item_node_def print_text_nodes write_item_def e2k_g_string_append_xml_escaped_def)

text \<open>Base64 text needs no escapes.\<close>

definition plain_encoding :: "(byte list \<Rightarrow> string) \<Rightarrow> bool" where
  "plain_encoding enc \<longleftrightarrow> (\<forall>b. set (enc b) \<inter> {CHR ''<'', CHR ''>'', CHR ''&'', CHR ''\"''} = {})"

lemma plain_escape: "plain_encoding enc \<Longrightarrow> concat (map escape_char (enc b)) = enc b"
proof -
  have "concat (map escape_char s) = s" if "set s \<inter> {CHR ''<'', CHR ''>'', CHR ''&'', CHR ''\"''} = {}" for s
    using that by (induction s) (auto simp: escape_char_def)
  then show "plain_encoding enc \<Longrightarrow> concat (map escape_char (enc b)) = enc b"
    by (simp add: plain_encoding_def)
qed

lemma type_attr_name: "type_attr type =
    (case type_name type of None \<Rightarrow> ''>'' | Some d \<Rightarrow> '' T:dt=\"'' @ d @ ''\">'')"
  by (cases type) auto

lemma write_value_nodes:
  assumes "plain_encoding enc" "has_c_type type val" "type \<noteq> PT_XML"
  shows "write_value enc type val xml = Inr (xml @ print_kids (value_nodes enc val))"
proof (cases val)
  case (VBins bs)
  have "print_kids (map (\<lambda>b. item_node (enc b)) bs) = concat (map (\<lambda>b. write_item (enc b)) bs)"
    using print_items [of "map enc bs"] plain_escape [OF assms(1)]
    by (simp add: comp_def e2k_g_string_append_xml_escaped_def)
  then show ?thesis using assms VBins by (simp add: write_value_def)
qed (use assms in \<open>cases type; simp add: write_value_def print_text_nodes plain_escape print_items
      e2k_g_string_append_xml_escaped_def [of xml]\<close>)+

lemma content_text_item [simp]: "content_text (item_node s) = s"
  by (simp add: content_text_def first_content_def item_node_def text_nodes_def)

lemma decode_item [simp]: "base64_decode ps (enc b) = b \<Longrightarrow> base64_decode ps [] = [] \<Longrightarrow> decode_content ps (item_node (enc b)) = b"
  by (auto simp: decode_content_def first_content_def item_node_def text_nodes_def)

lemma decode_text_nodes: "base64_decode ps (enc b) = b \<Longrightarrow> base64_decode ps [] = [] \<Longrightarrow>
    decode_content ps (Elem n ns at (text_nodes (enc b))) = b"
  by (auto simp: decode_content_def first_content_def text_nodes_def)

lemma content_text_nodes: "content_text (Elem n ns at (text_nodes s)) = s"
  by (simp add: content_text_def first_content_def text_nodes_def)

lemma set_parsed_node:
  assumes "\<forall>b. base64_decode ps (enc b) = b" "base64_decode ps [] = []"
    and "has_c_type type val" "type \<noteq> PT_XML" "type \<noteq> PT_UNKNOWN"
  shows "set_parsed ps g props name (type_name type) (prop_node enc ns n type val) = set_prop g props name type val"
proof -
  have st: "node_kids (prop_node enc ns n PT_STRING (VStr s)) = [] \<or>
      node_kids (hd (node_kids (prop_node enc ns n PT_STRING (VStr s)))) = []" for s
    by (simp add: prop_node_def text_nodes_def)
  show ?thesis
    using assms st
    by (cases type; cases val)
      (auto simp: set_parsed_def prop_get_binary_array_def prop_get_string_array_def prop_get_binary_def prop_get_string_def
        e2k_properties_set_binary_array_def e2k_properties_set_type_as_string_array_def e2k_properties_set_binary_def
        e2k_properties_set_type_as_string_def prop_node_def content_text_nodes decode_text_nodes comp_def)
qed

lemma strstr_inside: "strstr (pre @ needle @ post) needle \<noteq> None"
proof (induction pre)
  case Nil
  have "take (length needle) (needle @ post) = needle" by simp
  then show ?case by (cases "needle @ post") auto
qed auto

lemma mapi_id_needs_type: "take (length E2K_NS_MAPI_ID) ns = E2K_NS_MAPI_ID \<Longrightarrow> strstr ns ''/mapi/id/'' \<noteq> None"
proof -
  assume "take (length E2K_NS_MAPI_ID) ns = E2K_NS_MAPI_ID"
  then have "ns = ''http://schemas.microsoft.com'' @ ''/mapi/id/'' @ drop (length E2K_NS_MAPI_ID) ns"
    using append_take_drop_id [of "length E2K_NS_MAPI_ID" ns] by (simp add: E2K_NS_MAPI_ID_def)
  then show ?thesis using strstr_inside [of "''http://schemas.microsoft.com''"] by metis
qed

text \<open>
  C5. A property with a MAPI id survives the wire: what a PROPPATCH writes for it is the XML of an
  element of its namespace with its type and its value, and when the server returns that element, with
  the leading 0 of its name stripped or not sent, reading the result sets the same property with the
  same type and the same value, for every type the code can write.
\<close>

theorem property_on_wire:
  assumes ns: "e2k_prop_namespace_name g p = Inr (ns, g1)" and ab: "e2k_prop_namespace_abbrev g1 p = Inr (ab, g2)"
    and name: "e2k_prop_property_name p = Inr (CHR ''0'' # short)" "p = ns @ CHR ''0'' # short"
    and mapi: "take (length E2K_NS_MAPI_ID) ns = E2K_NS_MAPI_ID"
    and type: "has_c_type type val" "type \<noteq> PT_XML" "type \<noteq> PT_UNKNOWN"
    and base64: "\<forall>b. base64_decode ps (enc b) = b" "base64_decode ps [] = []" "plain_encoding enc"
  shows "write_prop enc g xml p type val True =
      Inr (xml @ print_prop [char_of_byte ab] (prop_node enc ns (CHR ''0'' # short) type val), g2) \<and>
    prop_parse ps g' (prop_node enc ns short type val) r =
      ok_bind (set_prop g' (case res_props r of None \<Rightarrow> e2k_properties_new | Some props \<Rightarrow> props) p type val)
        (\<lambda>(props, g). Inr (r\<lparr>res_props := Some props\<rparr>, g))"
proof
  have "val \<noteq> VNull" using type(1) by (cases type) auto
  then show "write_prop enc g xml p type val True =
      Inr (xml @ print_prop [char_of_byte ab] (prop_node enc ns (CHR ''0'' # short) type val), g2)"
    using mapi_id_needs_type [OF mapi]
    by (simp add: write_prop_def ns ab name(1) write_value_nodes [OF base64(3) type(1,2)] type_attr_name prop_node_def Let_def
        split: option.splits)
  have "node_attr ''dt'' E2K_NS_TYPE (prop_node enc ns short type val) = type_name type"
    by (cases "type_name type") (simp_all add: prop_node_def)
  moreover have "prop_name ns short = p" using mapi name(2) by (simp add: prop_name_def)
  moreover have "node_ns (prop_node enc ns short type val) = Some ns" "node_name (prop_node enc ns short type val) = short"
    by (simp_all add: prop_node_def)
  ultimately show "prop_parse ps g' (prop_node enc ns short type val) r =
      ok_bind (set_prop g' (case res_props r of None \<Rightarrow> e2k_properties_new | Some props \<Rightarrow> props) p type val)
        (\<lambda>(props, g). Inr (r\<lparr>res_props := Some props\<rparr>, g))"
    by (simp add: prop_parse_def set_parsed_node [OF base64(1,2) type])
qed

definition hex_encode :: "byte list \<Rightarrow> string" where
  "hex_encode bs = concat (map hex2 bs)"

lemma hex_plain: "plain_encoding hex_encode"
proof -
  have "is_base 16 c" if "c \<in> set (hex2 b)" for b c
    using that set_pad0 [of 2 "to_base 16 (unat b)"] to_base_digits [of 16 "unat b"]
    by (auto simp: hex2_def fmt_x_def is_base_0)
  then have "is_base 16 c" if "c \<in> set (hex_encode b)" for b c using that by (auto simp: hex_encode_def)
  moreover have "\<not> is_base 16 CHR ''<''" "\<not> is_base 16 CHR ''>''" "\<not> is_base 16 CHR ''&''" "\<not> is_base 16 CHR ''\"''"
    by (simp_all add: is_base_def digit_val_def isdigit_def isupper_def islower_def ch_code_def)
  ultimately show ?thesis by (auto simp: plain_encoding_def)
qed

lemma pair_hex: "pair_bytes (hex_encode bs) = bs"
  by (simp add: hex_encode_def pair_bytes_hex)

theorem property_on_wire_witness:
  "\<exists>xml g. write_prop hex_encode initial_tables [] ''http://schemas.microsoft.com/mapi/id/{0}/0x1'' PT_INT (VStr ''7'') True
      = Inr (xml, g) \<and>
    prop_parse \<lparr>base64_decode = pair_bytes, parse_xml = (\<lambda>_. None)\<rparr> initial_tables
      (prop_node hex_encode ''http://schemas.microsoft.com/mapi/id/{0}/'' ''x1'' PT_INT (VStr ''7''))
      \<lparr>href = None, res_status = 200, res_props = None\<rparr> =
    ok_bind (set_prop initial_tables e2k_properties_new ''http://schemas.microsoft.com/mapi/id/{0}/0x1'' PT_INT (VStr ''7''))
      (\<lambda>(props, g). Inr (\<lparr>href = None, res_status = 200, res_props = Some props\<rparr>, g))"
proof -
  let ?p = "''http://schemas.microsoft.com/mapi/id/{0}/0x1''" and ?ns = "''http://schemas.microsoft.com/mapi/id/{0}/''"
  have "case e2k_prop_namespace_name initial_tables ?p of Inr (n, _) \<Rightarrow> n = ?ns | Inl _ \<Rightarrow> False" by code_simp
  then obtain g1 where ns: "e2k_prop_namespace_name initial_tables ?p = Inr (?ns, g1)"
    by (auto split: sum.splits)
  have "get_div ?p \<noteq> None" by code_simp
  then obtain ab g2 where ab: "e2k_prop_namespace_abbrev g1 ?p = Inr (ab, g2)"
    using namespace_entry_total [of ?p g1] by (auto simp: e2k_prop_namespace_abbrev_def)
  have name: "e2k_prop_property_name ?p = Inr (CHR ''0'' # ''x1'')" by code_simp
  have mapi: "take (length E2K_NS_MAPI_ID) ?ns = E2K_NS_MAPI_ID" by code_simp
  let ?ps = "\<lparr>base64_decode = pair_bytes, parse_xml = (\<lambda>_. None)\<rparr>"
  have dec: "\<forall>b. base64_decode ?ps (hex_encode b) = b" "base64_decode ?ps [] = []" by (simp_all add: pair_hex)
  show ?thesis
    using property_on_wire [OF ns ab name _ mapi _ _ _ dec hex_plain, where type = PT_INT and val = "VStr ''7''"
        and xml = "[]" and g' = initial_tables and r = "\<lparr>href = None, res_status = 200, res_props = None\<rparr>"]
    by simp
qed

section \<open>The name of a new object\<close>

lemma unique_uri_skip:
  assumes "\<forall>k. i \<le> k \<and> k < j \<longrightarrow> (\<exists>t. test = Some t \<and> \<not> t (candidate_uri f n k))"
    and "i \<le> j" "nat (j - i) < fuel" "\<forall>t. test = Some t \<longrightarrow> t (candidate_uri f n j)"
  shows "unique_uri fuel test f n i = Inr (candidate_uri f n j, j + 1)"
  using assms
proof (induction fuel arbitrary: i)
  case (Suc fuel)
  show ?case
  proof (cases "i = j")
    case True
    then show ?thesis using Suc.prems(4) by (auto simp: Let_def split: option.splits)
  next
    case False
    then obtain t where t: "test = Some t" "\<not> t (candidate_uri f n i)" using Suc.prems(1,2) by force
    have "unique_uri fuel test f n (i + 1) = Inr (candidate_uri f n j, j + 1)"
      by (rule Suc.IH) (use Suc.prems False in auto)
    then show ?thesis using t by (simp add: Let_def)
  qed
qed simp

text \<open>A name is taken when the callback refuses it or the server answers that it exists.\<close>

definition taken :: "'w session \<Rightarrow> soup_message \<Rightarrow> (string \<Rightarrow> bool) option \<Rightarrow> string \<Rightarrow> bool" where
  "taken ss msg test uri \<longleftrightarrow> (case test of Some t \<Rightarrow> \<not> t uri | None \<Rightarrow> False) \<or>
     (\<forall>w. status_code (fst (e2k_context_send_message ss (msg\<lparr>msg_uri := uri\<rparr>) w)) = E2K_HTTP_PRECONDITION_FAILED)"

definition free_name :: "'w session \<Rightarrow> soup_message \<Rightarrow> (string \<Rightarrow> bool) option \<Rightarrow> string \<Rightarrow> bool" where
  "free_name ss msg test uri \<longleftrightarrow> (case test of Some t \<Rightarrow> t uri | None \<Rightarrow> True) \<and>
     (\<forall>w. status_code (fst (e2k_context_send_message ss (msg\<lparr>msg_uri := uri\<rparr>) w)) \<noteq> E2K_HTTP_PRECONDITION_FAILED)"

lemma first_accepted:
  fixes i j :: int
  assumes "i \<le> j" "P j"
  obtains l where "i \<le> l" "l \<le> j" "P l" "\<forall>k. i \<le> k \<and> k < l \<longrightarrow> \<not> P k"
proof -
  define d where "d = (LEAST d. P (i + int d))"
  have e: "P (i + int (nat (j - i)))" using assms by simp
  have "P (i + int d)" unfolding d_def by (rule LeastI [of "\<lambda>d. P (i + int d)", OF e])
  moreover have "d \<le> nat (j - i)" unfolding d_def by (rule Least_le [of "\<lambda>d. P (i + int d)", OF e])
  moreover have "\<not> P k" if "i \<le> k" "k < i + int d" for k
  proof
    assume "P k"
    then have "P (i + int (nat (k - i)))" using that by simp
    then have "d \<le> nat (k - i)" unfolding d_def by (rule Least_le [of "\<lambda>d. P (i + int d)"])
    then show False using that by simp
  qed
  ultimately show ?thesis using that [of "i + int d"] assms(1) by auto
qed

lemma send_new_first:
  assumes valid: "\<forall>uri. uri_valid ss uri" and free: "free_name ss msg test (candidate_uri f n j)"
    and "i \<le> j" "nat (j - i) < fuel" "\<forall>k. i \<le> k \<and> k < j \<longrightarrow> taken ss msg test (candidate_uri f n k)"
  shows "\<exists>w1 resp w2. e2k_context_send_message ss (msg\<lparr>msg_uri := candidate_uri f n j\<rparr>) w1 = (resp, w2) \<and>
    send_new fuel ss msg f n i test w = Inr (resp, msg\<lparr>msg_uri := candidate_uri f n j\<rparr>, w2)"
  using free assms(3-5)
proof (induction fuel arbitrary: i w msg)
  case (Suc fuel)
  let ?P = "\<lambda>k. \<forall>t. test = Some t \<longrightarrow> t (candidate_uri f n k)"
  have "?P j" using Suc.prems(1) by (auto simp: free_name_def)
  then obtain l where l: "i \<le> l" "l \<le> j" "?P l" "\<forall>k. i \<le> k \<and> k < l \<longrightarrow> \<not> ?P k"
    using first_accepted [of i j ?P] Suc.prems(2) by metis
  let ?m = "msg\<lparr>msg_uri := candidate_uri f n l\<rparr>"
  have "unique_uri (Suc fuel) test f n i = Inr (candidate_uri f n l, l + 1)"
    by (rule unique_uri_skip) (use l Suc.prems(3) in auto)
  then have u: "update_unique_uri (Suc fuel) ss msg f n i test = Inr (?m, l + 1)"
    using valid by (simp add: update_unique_uri_def del: unique_uri.simps)
  obtain resp w2 where r: "e2k_context_send_message ss ?m w = (resp, w2)" by (cases "e2k_context_send_message ss ?m w")
  show ?case
  proof (cases "l = j")
    case True
    then have "status_code resp \<noteq> E2K_HTTP_PRECONDITION_FAILED"
      using Suc.prems(1) r unfolding free_name_def by (metis fst_conv)
    then show ?thesis using True u r by (auto simp del: unique_uri.simps)
  next
    case False
    then have "taken ss msg test (candidate_uri f n l)" using l Suc.prems(4) by simp
    then have s: "status_code resp = E2K_HTTP_PRECONDITION_FAILED"
      using l(3) r by (auto simp: taken_def split: option.splits dest: spec [of _ w])
    have "\<exists>w1 resp w3. e2k_context_send_message ss (?m\<lparr>msg_uri := candidate_uri f n j\<rparr>) w1 = (resp, w3) \<and>
        send_new fuel ss ?m f n (l + 1) test w2 = Inr (resp, ?m\<lparr>msg_uri := candidate_uri f n j\<rparr>, w3)"
      by (rule Suc.IH) (use Suc.prems l False in \<open>auto simp: free_name_def taken_def\<close>)
    then show ?thesis using u r s by (simp del: unique_uri.simps)
  qed
qed simp

text \<open>
  C19. A PUT of a new object stores it under the first name of the sequence \<open>name.EML\<close>,
  \<open>name-2.EML\<close>, \<open>name-3.EML\<close> and so on that neither the caller's test nor the server refuses: when
  there is one, the loops end, the response is the server's response at that name, and the request
  says \<open>If-None-Match: *\<close>, so that nothing that exists is overwritten.
\<close>

theorem put_new_first_free:
  assumes slash: "e2k_strdup_with_trailing_slash (Some folder_uri) = Some f" and valid: "\<forall>uri. uri_valid ss uri"
    and put: "put_msg ss folder_uri content_type body = Inr msg0"
    and msg: "msg = add_header ''If-None-Match'' ''*'' msg0"
    and j: "1 \<le> j" "nat j \<le> fuel" "free_name ss msg test (candidate_uri f (e2k_uri_encode object_name True None) j)"
    and before: "\<forall>k. 1 \<le> k \<and> k < j \<longrightarrow> taken ss msg test (candidate_uri f (e2k_uri_encode object_name True None) k)"
  shows "\<exists>w1 resp w2.
    e2k_context_send_message ss (msg\<lparr>msg_uri := candidate_uri f (e2k_uri_encode object_name True None) j\<rparr>) w1 = (resp, w2) \<and>
    e2k_context_put_new fuel ss folder_uri object_name test content_type body w =
      Inr (status_code resp, extract_put_results resp, w2) \<and>
    status_code resp \<noteq> E2K_HTTP_PRECONDITION_FAILED \<and> (''If-None-Match'', ''*'') \<in> set (request_headers msg)"
proof -
  let ?n = "e2k_uri_encode object_name True None"
  obtain w1 resp w2 where r: "e2k_context_send_message ss (msg\<lparr>msg_uri := candidate_uri f ?n j\<rparr>) w1 = (resp, w2)"
      "send_new fuel ss msg f ?n 1 test w = Inr (resp, msg\<lparr>msg_uri := candidate_uri f ?n j\<rparr>, w2)"
    using send_new_first [OF valid j(3), of 1 fuel w] j(1,2) before by force
  have "e2k_context_put_new fuel ss folder_uri object_name test content_type body w =
      Inr (status_code resp, extract_put_results resp, w2)"
    using slash put r(2) msg by (simp add: e2k_context_put_new_def Let_def)
  moreover have "status_code resp \<noteq> E2K_HTTP_PRECONDITION_FAILED"
    using j(3) r(1) unfolding free_name_def by (metis fst_conv)
  ultimately show ?thesis using r(1) msg by (auto simp: add_header_def)
qed

definition sample_store :: "string list session" where
  "sample_store = \<lparr>uri_valid = (\<lambda>_. True), op_cancelled = (\<lambda>_. False), transport = (\<lambda>msg w.
     if msg_uri msg = ''http://h/a.EML''
     then (\<lparr>status_code = E2K_HTTP_PRECONDITION_FAILED, response_header = Map.empty, response_body = []\<rparr>, w)
     else (\<lparr>status_code = 201, response_header = Map.empty, response_body = []\<rparr>, msg_uri msg # w))\<rparr>"

theorem put_new_first_free_witness:
  "\<exists>w2. e2k_context_put_new 3 sample_store ''http://h'' ''a'' None ''text/plain'' [] [] = Inr (201, Some (None, None), w2)"
proof -
  define enc where "enc = e2k_uri_encode ''a'' True None"
  let ?c = "candidate_uri ''http://h/'' enc"
  have c: "?c 1 = ''http://h/a.EML''" "?c 2 = ''http://h/a-2.EML''" unfolding enc_def by code_simp+
  note first_free = put_new_first_free [where object_name = "''a''", folded enc_def]
  have slash: "e2k_strdup_with_trailing_slash (Some ''http://h'') = Some ''http://h/''" by code_simp
  obtain msg0 where put: "put_msg sample_store ''http://h'' ''text/plain'' [] = Inr msg0"
    by (simp add: put_msg_def e2k_soup_message_new_full_def e2k_soup_message_new_def new_message_def sample_store_def)
  let ?msg = "add_header ''If-None-Match'' ''*'' msg0"
  have v: "\<forall>uri. uri_valid sample_store uri" by (simp add: sample_store_def)
  have free: "free_name sample_store ?msg None (?c 2)"
    by (simp add: free_name_def c e2k_context_send_message_def sample_store_def E2K_HTTP_PRECONDITION_FAILED_def)
  have "taken sample_store ?msg None (?c 1)"
    by (simp add: taken_def c e2k_context_send_message_def sample_store_def)
  moreover have "k = 1" if "1 \<le> k" "k < 2" for k :: int using that by simp
  ultimately have before: "\<forall>k. 1 \<le> k \<and> k < 2 \<longrightarrow> taken sample_store ?msg None (?c k)" by metis
  obtain w1 resp w2 where r: "e2k_context_send_message sample_store (?msg\<lparr>msg_uri := ?c 2\<rparr>) w1 = (resp, w2)"
      "e2k_context_put_new 3 sample_store ''http://h'' ''a'' None ''text/plain'' [] [] =
        Inr (status_code resp, extract_put_results resp, w2)"
    using first_free [OF slash v put refl _ _ free before, where fuel = 3 and w = "[]"] by auto
  have "status_code resp = 201" "extract_put_results resp = Some (None, None)"
    using r(1) by (auto simp: c e2k_context_send_message_def sample_store_def extract_put_results_def
        E2K_HTTP_STATUS_IS_SUCCESSFUL_def)
  then show ?thesis using r(2) by auto
qed

section \<open>Properties that change their type\<close>

definition two_types :: parsers where
  "two_types = \<lparr>base64_decode = (\<lambda>_. [1]), parse_xml = (\<lambda>_. Some [Elem ''multistatus'' (Some ''DAV:'') []
     [Elem ''response'' (Some ''DAV:'') []
       [Elem ''href'' (Some ''DAV:'') [] [Text ''a''],
        Elem ''comment'' (Some ''DAV:'') [] [Text ''x'']],
      Elem ''response'' (Some ''DAV:'') []
       [Elem ''href'' (Some ''DAV:'') [] [Text ''b''],
        Elem ''comment'' (Some ''DAV:'') [(Some E2K_NS_TYPE, ''dt'', ''bin.base64'')] [Text ''AQ=='']]]])\<rparr>"

text \<open>
  A response that gives a property once as text and once as binary data is accepted: the table of
  known properties keeps the first type, so the byte array of the second result is stored as a string
  and freed as one.
\<close>

theorem retyped_property_undefined:
  "\<exists>rs g. e2k_results_from_multistatus two_types initial_tables E2K_HTTP_MULTI_STATUS [] = Inr (rs, g) \<and>
    length rs = 2 \<and> e2k_results_free g rs = Inl Undefined"
proof -
  have "case e2k_results_from_multistatus two_types initial_tables E2K_HTTP_MULTI_STATUS [] of
      Inr (rs, g) \<Rightarrow> length rs = 2 \<and> e2k_results_free g rs = Inl Undefined | Inl _ \<Rightarrow> False"
    by code_simp
  then show ?thesis by (auto split: sum.splits)
qed

text \<open>The hrefs of a BPROPFIND or BPROPPATCH are not escaped, those of a BDELETE and a transfer are.\<close>

lemma href_unescaped:
  "\<exists>pre post. target_section (Some [''a&b'']) = pre @ ''<D:href>a&b</D:href>'' @ post \<and> read_text ''a&b</D:href>'' = None"
proof -
  have "target_section (Some [''a&b'']) =
      (''<D:target>'' @ crlf) @ ''<D:href>a&b</D:href>'' @ (crlf @ ''</D:target>'' @ crlf)"
    by (simp add: target_section_def)
  moreover have "read_text ''a&b</D:href>'' = None" by code_simp
  ultimately show ?thesis by blast
qed

end
