(* ===== verification/Subscription.thy ===== *)
theory Subscription
  imports Webdav
begin

text \<open>
  Change notifications (server/lib/e2k-context.c): subscriptions, the timers and messages that keep
  them alive and poll for changes, and the datagrams the server sends. A subscription is a cell of a
  heap, and timers, queued messages and both tables hold its address; following an address that was
  freed is \<open>Undefined\<close>. A timer is due when the main loop says so, a request reaches the asynchronous
  session when the thread of that session gets to it, and is answered when the server does: all three
  are events, in any order, and each handler is one step. (The code takes no lock, so handlers of the
  two threads can also overlap.) A callback of the client is an entry of a log.
\<close>

section \<open>State\<close>

datatype E2kContextChangeType =
    E2K_CONTEXT_OBJECT_CHANGED | E2K_CONTEXT_OBJECT_ADDED | E2K_CONTEXT_OBJECT_REMOVED | E2K_CONTEXT_OBJECT_MOVED

text \<open>A timer id of 0 is no timer. The callback stands for the function and its data.\<close>

record E2kSubscription =
  sub_uri :: string
  sub_id :: "string option"
  sub_type :: E2kContextChangeType
  lifetime :: int
  min_interval :: int
  last_notification :: int
  sub_callback :: nat
  renew_timeout :: nat
  renew_msg :: "nat option"
  poll_timeout :: nat
  poll_msg :: "nat option"
  notification_timeout :: nat

datatype timer_func = Renew_subscription | Timeout_notification | Belated_notification

record timer =
  timer_id :: nat
  timer_ms :: int
  timer_func :: timer_func
  timer_sub :: nat

datatype msg_callback = Renew_cb | Polled | Unsubscribed

record queued =
  queued_id :: nat
  queued_msg :: soup_message
  queued_callback :: msg_callback
  queued_sub :: nat
  queued_sent :: bool

record notifier =
  subscriptions :: "nat \<Rightarrow> E2kSubscription option"
  next_sub :: nat
  subscriptions_by_id :: "(string, nat) ghash"
  subscriptions_by_uri :: "(string, nat list) ghash"
  notification_uri :: "string option"
  timers :: "timer list"
  next_timer :: nat
  async_queue :: "queued list"
  next_msg :: nat
  clock :: int
  calls :: "(int \<times> string \<times> E2kContextChangeType \<times> nat) list"
  known_props :: prop_tables

text \<open>
  The libraries: which URIs a message can be made for, the parsers of responses, and whether
  cancelling a message on the synchronous session, which is what the code does, ends a message that
  was queued on the asynchronous one.
\<close>

record 'w libs =
  http :: "'w session"
  xml :: parsers
  cancel_reaches :: bool

definition e2k_context_init :: "prop_tables \<Rightarrow> int \<Rightarrow> notifier" where
  "e2k_context_init g now =
     \<lparr>subscriptions = Map.empty, next_sub = 0, subscriptions_by_id = [], subscriptions_by_uri = [],
      notification_uri = None, timers = [], next_timer = 1, async_queue = [], next_msg = 0, clock = now,
      calls = [], known_props = g\<rparr>"

definition sub_at :: "notifier \<Rightarrow> nat \<Rightarrow> E2kSubscription result" where
  "sub_at c a = (case subscriptions c a of None \<Rightarrow> Inl Undefined | Some sub \<Rightarrow> Inr sub)"

definition set_sub :: "nat \<Rightarrow> (E2kSubscription \<Rightarrow> E2kSubscription) \<Rightarrow> notifier \<Rightarrow> notifier" where
  "set_sub a f c = c\<lparr>subscriptions := (subscriptions c)(a := map_option f (subscriptions c a))\<rparr>"

section \<open>Timers and messages\<close>

definition g_timeout_add :: "int \<Rightarrow> timer_func \<Rightarrow> nat \<Rightarrow> notifier \<Rightarrow> nat \<times> notifier" where
  "g_timeout_add ms func a c =
     (next_timer c,
      c\<lparr>timers := timers c @ [\<lparr>timer_id = next_timer c, timer_ms = ms, timer_func = func, timer_sub = a\<rparr>],
        next_timer := Suc (next_timer c)\<rparr>)"

definition g_source_remove :: "nat \<Rightarrow> notifier \<Rightarrow> notifier" where
  "g_source_remove key c = c\<lparr>timers := filter (\<lambda>t. timer_id t \<noteq> key) (timers c)\<rparr>"

definition remove_timeout :: "nat \<Rightarrow> notifier \<Rightarrow> notifier" where
  "remove_timeout key c = (if key \<noteq> 0 then g_source_remove key c else c)"

text \<open>The request waits for its idle source; it is not on a session before that.\<close>

definition e2k_context_queue_message :: "soup_message \<Rightarrow> msg_callback \<Rightarrow> nat \<Rightarrow> notifier \<Rightarrow> nat \<times> notifier" where
  "e2k_context_queue_message msg cb a c =
     (next_msg c,
      c\<lparr>async_queue := async_queue c @
          [\<lparr>queued_id = next_msg c, queued_msg = msg, queued_callback = cb, queued_sub = a, queued_sent = False\<rparr>],
        next_msg := Suc (next_msg c)\<rparr>)"

text \<open>The idle source of a request, which runs on the thread of the asynchronous session.\<close>

definition e2k_queue_request :: "nat \<Rightarrow> notifier \<Rightarrow> notifier" where
  "e2k_queue_request key c =
     c\<lparr>async_queue := map (\<lambda>q. if queued_id q = key then q\<lparr>queued_sent := True\<rparr> else q) (async_queue c)\<rparr>"

section \<open>Notifying the client\<close>

definition call :: "E2kSubscription \<Rightarrow> notifier \<Rightarrow> notifier" where
  "call sub c = c\<lparr>calls := calls c @ [(clock c, sub_uri sub, sub_type sub, sub_callback sub)]\<rparr>"

definition belated_notification :: "nat \<Rightarrow> notifier \<Rightarrow> notifier result" where
  "belated_notification a c = ok_bind (sub_at c a) (\<lambda>sub.
     Inr (call sub (set_sub a (\<lambda>s. s\<lparr>notification_timeout := 0\<rparr>) c)))"

text \<open>The delay is computed as a \<open>time_t\<close>, stored in an \<open>int\<close> and multiplied as one.\<close>

definition notification_delay :: "int \<Rightarrow> E2kSubscription \<Rightarrow> int" where
  "notification_delay now sub = int_of_long (last_notification sub + min_interval sub - now)"

definition maybe_notification :: "nat \<Rightarrow> notifier \<Rightarrow> notifier result" where
  "maybe_notification a c = ok_bind (sub_at c a) (\<lambda>sub.
     let delay = notification_delay (clock c) sub
     in if delay > 0 then
          let c = remove_timeout (notification_timeout sub) c
          in if delay * 1000 > 2 ^ 31 - 1 then Inl Undefined
             else let (key, c) = g_timeout_add (delay * 1000) Belated_notification a c
                  in Inr (set_sub a (\<lambda>s. s\<lparr>notification_timeout := key\<rparr>) c)
        else Inr (call sub (set_sub a (\<lambda>s. s\<lparr>last_notification := clock c\<rparr>) c)))"

section \<open>Polling\<close>

definition E2K_PR_SUBSCRIPTION_ID :: string where
  "E2K_PR_SUBSCRIPTION_ID = ''http://schemas.microsoft.com/Exchange/subscriptionID''"

text \<open>The ids in the \<open>li\<close> children of a value, which is used as an XML node whatever it is.\<close>

fun li_ids :: "xmlNode list \<Rightarrow> string list" where
  "li_ids [] = []"
| "li_ids (n # ns) =
     (if node_name n \<noteq> ''li'' then li_ids ns
      else case first_content n of None \<Rightarrow> li_ids ns | Some key \<Rightarrow> key # li_ids ns)"

fun value_ids :: "xmlNode prop_value \<Rightarrow> string list result" where
  "value_ids VNull = Inr []"
| "value_ids (VXml node) = Inr (li_ids (node_kids node))"
| "value_ids _ = Inl Undefined"

text \<open>A result that is OK always has properties when it comes from the parser.\<close>

fun polled_ids :: "E2kResult list \<Rightarrow> string list result" where
  "polled_ids [] = Inr []"
| "polled_ids (r # rs) =
     (if res_status r \<noteq> E2K_HTTP_OK then polled_ids rs
      else case res_props r of
        None \<Rightarrow> Inl Undefined
      | Some props \<Rightarrow>
          ok_bind (value_ids (e2k_properties_get_prop props E2K_PR_SUBSCRIPTION_ID)) (\<lambda>ids.
          ok_bind (polled_ids rs) (\<lambda>ids'. Inr (ids @ ids'))))"

fun notify_ids :: "string list \<Rightarrow> notifier \<Rightarrow> notifier result" where
  "notify_ids [] c = Inr c"
| "notify_ids (key # ids) c =
     (case str_lookup key (subscriptions_by_id c) of
        None \<Rightarrow> notify_ids ids c
      | Some a \<Rightarrow> ok_bind (maybe_notification a c) (\<lambda>c. notify_ids ids c))"

text \<open>What a response to a POLL names.\<close>

definition response_ids :: "'w libs \<Rightarrow> prop_tables \<Rightarrow> soup_response \<Rightarrow> (string list \<times> prop_tables) result" where
  "response_ids l g resp =
     ok_bind (e2k_results_from_multistatus (xml l) g (status_code resp) (response_body resp)) (\<lambda>(rs, g).
     ok_bind (polled_ids rs) (\<lambda>ids.
     ok_bind (e2k_results_free g rs) (\<lambda>_. Inr (ids, g))))"

definition polled :: "'w libs \<Rightarrow> soup_response \<Rightarrow> nat \<Rightarrow> notifier \<Rightarrow> notifier result" where
  "polled l resp a c = ok_bind (sub_at c a) (\<lambda>_.
     let c = set_sub a (\<lambda>s. s\<lparr>poll_msg := None\<rparr>) c
     in if status_code resp \<noteq> E2K_HTTP_MULTI_STATUS then Inr c
        else ok_bind (response_ids l (known_props c) resp) (\<lambda>(ids, g).
             notify_ids ids (c\<lparr>known_props := g\<rparr>)))"

text \<open>
  All the subscriptions to the URI that wait for a POLL join it. An id that is \<open>NULL\<close> makes an empty
  string, but is undefined as the argument of \<open>%s\<close>.
\<close>

fun join_poll :: "nat \<Rightarrow> nat list \<Rightarrow> string \<Rightarrow> notifier \<Rightarrow> (string \<times> notifier) result" where
  "join_poll a [] ids c = Inr (ids, c)"
| "join_poll a (b # bs) ids c =
     (if b = a then join_poll a bs ids c
      else ok_bind (sub_at c b) (\<lambda>sub2.
        if poll_timeout sub2 = 0 then join_poll a bs ids c
        else let c = set_sub b (\<lambda>s. s\<lparr>poll_timeout := 0\<rparr>) (g_source_remove (poll_timeout sub2) c)
             in case sub_id sub2 of
                  None \<Rightarrow> Inl Undefined
                | Some key \<Rightarrow> join_poll a bs (ids @ '','' @ key) c))"

definition subs_of_uri :: "string \<Rightarrow> notifier \<Rightarrow> nat list" where
  "subs_of_uri uri c = (case str_lookup uri (subscriptions_by_uri c) of None \<Rightarrow> [] | Some bs \<Rightarrow> bs)"

definition timeout_notification :: "'w libs \<Rightarrow> nat \<Rightarrow> notifier \<Rightarrow> notifier result" where
  "timeout_notification l a c = ok_bind (sub_at c a) (\<lambda>sub.
     let c = set_sub a (\<lambda>s. s\<lparr>poll_timeout := 0\<rparr>) c;
         ids = (case sub_id sub of None \<Rightarrow> [] | Some key \<Rightarrow> key)
     in ok_bind (join_poll a (subs_of_uri (sub_uri sub) c) ids c) (\<lambda>(ids, c).
        ok_bind (e2k_soup_message_new (http l) (sub_uri sub) ''POLL'') (\<lambda>msg.
        let (key, c) = e2k_context_queue_message (add_header ''Subscription-id'' ids msg) Polled a c
        in Inr (set_sub a (\<lambda>s. s\<lparr>poll_msg := Some key\<rparr>) c))))"

section \<open>Datagrams\<close>

text \<open>The text behind the first line that starts with the header, the first line of the datagram apart.\<close>

function find_id_line :: "string \<Rightarrow> string option" where
  "find_id_line s = (case strchr s (CHR 10) of
     None \<Rightarrow> None
   | Some i \<Rightarrow> (let key = drop (Suc i) s
               in if map tolower (take 17 key) = ''subscription-id: '' then Some (drop 17 key)
                  else find_id_line key))"
  by pat_completeness auto
termination
  by (relation "measure length") (auto dest!: strchr_SomeD)

declare find_id_line.simps [simp del]

fun bump_polls :: "string list \<Rightarrow> notifier \<Rightarrow> notifier result" where
  "bump_polls [] c = Inr c"
| "bump_polls (key # ids) c = (case str_lookup key (subscriptions_by_id c) of
     None \<Rightarrow> bump_polls ids c
   | Some a \<Rightarrow> ok_bind (sub_at c a) (\<lambda>sub.
       let c = remove_timeout (poll_timeout sub) c;
           (key, c) = g_timeout_add 1000 Timeout_notification a c
       in bump_polls ids (set_sub a (\<lambda>s. s\<lparr>poll_timeout := key\<rparr>) c)))"

text \<open>
  What was read is a string of less than 1024 bytes, empty when there was nothing to read; the result
  says whether the listener stays.
\<close>

definition do_notification :: "string option \<Rightarrow> notifier \<Rightarrow> (bool \<times> notifier) result" where
  "do_notification read c = (case read of
     None \<Rightarrow> Inr (False, c)
   | Some buffer \<Rightarrow>
       (let buffer = c_string buffer
        in if map tolower (take 7 buffer) \<noteq> ''notify '' then Inr (True, c)
           else case find_id_line buffer of
             None \<Rightarrow> Inr (True, c)
           | Some s \<Rightarrow> ok_bind (bump_polls (strtok [CHR '','', CHR 13] s) c) (\<lambda>c. Inr (True, c))))"

section \<open>Renewing\<close>

definition renew_cb :: "soup_response \<Rightarrow> nat \<Rightarrow> notifier \<Rightarrow> notifier result" where
  "renew_cb resp a c = ok_bind (sub_at c a) (\<lambda>sub.
     let c = set_sub a (\<lambda>s. s\<lparr>renew_msg := None\<rparr>) c
     in if \<not> E2K_HTTP_STATUS_IS_SUCCESSFUL (status_code resp) then Inr c
        else let c = (case sub_id sub of
                        None \<Rightarrow> c
                      | Some key \<Rightarrow> c\<lparr>subscriptions_by_id := str_remove key (subscriptions_by_id c)\<rparr>);
                 key = response_header resp ''Subscription-id'';
                 c = set_sub a (\<lambda>s. s\<lparr>sub_id := key\<rparr>) c
             in Inr (case key of
                       None \<Rightarrow> c
                     | Some key \<Rightarrow> c\<lparr>subscriptions_by_id := str_insert key a (subscriptions_by_id c)\<rparr>))"

definition E2K_SUBSCRIPTION_INITIAL_LIFETIME :: int where "E2K_SUBSCRIPTION_INITIAL_LIFETIME = 3600"
definition E2K_SUBSCRIPTION_MAX_LIFETIME :: int where "E2K_SUBSCRIPTION_MAX_LIFETIME = 57600"

fun subscription_type :: "E2kContextChangeType \<Rightarrow> string" where
  "subscription_type E2K_CONTEXT_OBJECT_CHANGED = ''update''"
| "subscription_type E2K_CONTEXT_OBJECT_ADDED = ''update/newmember''"
| "subscription_type E2K_CONTEXT_OBJECT_REMOVED = ''delete''"
| "subscription_type E2K_CONTEXT_OBJECT_MOVED = ''move''"

definition renewed_lifetime :: "int \<Rightarrow> int" where
  "renewed_lifetime n = (if n < E2K_SUBSCRIPTION_MAX_LIFETIME then n * 2 else n)"

definition subscribe_msg :: "'w libs \<Rightarrow> string \<Rightarrow> int \<Rightarrow> E2kSubscription \<Rightarrow> soup_message result" where
  "subscribe_msg l call_back life sub =
     ok_bind (e2k_soup_message_new (http l) (sub_uri sub) ''SUBSCRIBE'') (\<lambda>msg.
     let msg = add_header ''Subscription-lifetime'' (fmt_d 0 life) msg;
         msg = add_header ''Notification-type'' (subscription_type (sub_type sub)) msg;
         msg = (if min_interval sub > 1 then add_header ''Notification-delay'' (fmt_d 0 (min_interval sub)) msg else msg)
     in Inr (add_header ''Call-back'' call_back msg))"

definition renew_subscription :: "'w libs \<Rightarrow> nat \<Rightarrow> notifier \<Rightarrow> notifier result" where
  "renew_subscription l a c = ok_bind (sub_at c a) (\<lambda>sub.
     case notification_uri c of
       None \<Rightarrow> Inr c
     | Some call_back \<Rightarrow>
         (let life = renewed_lifetime (lifetime sub)
          in ok_bind (subscribe_msg l call_back life sub) (\<lambda>msg.
             let (mid, c) = e2k_context_queue_message msg Renew_cb a c;
                 (tid, c) = g_timeout_add ((life - 60) * 1000) Renew_subscription a c
             in Inr (set_sub a (\<lambda>s. s\<lparr>lifetime := life, renew_msg := Some mid, renew_timeout := tid\<rparr>) c))))"

fun renew_sub_list :: "'w libs \<Rightarrow> nat list \<Rightarrow> notifier \<Rightarrow> notifier result" where
  "renew_sub_list l [] c = Inr c"
| "renew_sub_list l (a # as) c = ok_bind (renew_subscription l a c) (renew_sub_list l as)"

text \<open>The listener is there: its address and its port, or nothing when it could not be set up.\<close>

definition got_connection :: "'w libs \<Rightarrow> (string \<times> nat) option \<Rightarrow> notifier \<Rightarrow> notifier result" where
  "got_connection l listener c = (case listener of
     None \<Rightarrow> Inr c
   | Some (local_ipaddr, portno) \<Rightarrow>
       renew_sub_list l (concat (map snd (subscriptions_by_uri c)))
         (c\<lparr>notification_uri := Some (''httpu://'' @ local_ipaddr @ '':'' @ fmt_u portno @ ''/'')\<rparr>))"

section \<open>Subscribing and unsubscribing\<close>

definition new_subscription :: "string \<Rightarrow> E2kContextChangeType \<Rightarrow> int \<Rightarrow> nat \<Rightarrow> E2kSubscription" where
  "new_subscription uri type interval cb =
     \<lparr>sub_uri = uri, sub_id = None, sub_type = type, lifetime = E2K_SUBSCRIPTION_INITIAL_LIFETIME div 2,
      min_interval = interval, last_notification = 0, sub_callback = cb, renew_timeout = 0, renew_msg = None,
      poll_timeout = 0, poll_msg = None, notification_timeout = 0\<rparr>"

definition e2k_context_subscribe ::
  "'w libs \<Rightarrow> string \<Rightarrow> E2kContextChangeType \<Rightarrow> int \<Rightarrow> nat \<Rightarrow> notifier \<Rightarrow> notifier result" where
  "e2k_context_subscribe l uri type interval cb c =
     (let a = next_sub c;
          c = c\<lparr>subscriptions := (subscriptions c)(a := Some (new_subscription uri type interval cb)),
                next_sub := Suc a,
                subscriptions_by_uri := str_insert uri (a # subs_of_uri uri c) (subscriptions_by_uri c)\<rparr>
      in renew_subscription l a c)"

definition run_callback ::
  "'w libs \<Rightarrow> msg_callback \<Rightarrow> soup_response \<Rightarrow> nat \<Rightarrow> notifier \<Rightarrow> notifier result" where
  "run_callback l cb resp a c = (case cb of
     Renew_cb \<Rightarrow> renew_cb resp a c | Polled \<Rightarrow> polled l resp a c | Unsubscribed \<Rightarrow> Inr c)"

text \<open>The session ends a message that was handed to it: with an answer, or because it is cancelled.\<close>

definition finish_message :: "'w libs \<Rightarrow> nat \<Rightarrow> soup_response \<Rightarrow> notifier \<Rightarrow> notifier result" where
  "finish_message l key resp c = (case find (\<lambda>q. queued_id q = key) (async_queue c) of
     None \<Rightarrow> Inr c
   | Some q \<Rightarrow>
       if \<not> queued_sent q then Inr c
       else run_callback l (queued_callback q) resp (queued_sub q)
              (c\<lparr>async_queue := filter (\<lambda>q. queued_id q \<noteq> key) (async_queue c)\<rparr>))"

text \<open>
  \<open>soup_session_cancel_message\<close> is called on the synchronous session. Nothing says what that does to a
  message of the asynchronous one, so it is an argument: either it finishes the message at once, with
  its callback, or nothing happens.
\<close>

definition cancel_message :: "'w libs \<Rightarrow> nat option \<Rightarrow> notifier \<Rightarrow> notifier result" where
  "cancel_message l msg c = (case msg of
     None \<Rightarrow> Inr c
   | Some key \<Rightarrow> if cancel_reaches l then finish_message l key cancelled_response c else Inr c)"

definition free_subscription :: "'w libs \<Rightarrow> nat \<Rightarrow> notifier \<Rightarrow> notifier result" where
  "free_subscription l a c =
     ok_bind (sub_at c a) (\<lambda>sub.
     ok_bind (cancel_message l (renew_msg sub) (remove_timeout (renew_timeout sub) c)) (\<lambda>c.
     ok_bind (sub_at c a) (\<lambda>sub.
     ok_bind (cancel_message l (poll_msg sub)
               (remove_timeout (notification_timeout sub) (remove_timeout (poll_timeout sub) c))) (\<lambda>c.
     ok_bind (sub_at c a) (\<lambda>_.
     Inr (c\<lparr>subscriptions := (subscriptions c)(a := None)\<rparr>))))))"

text \<open>The ids to send, when there are any.\<close>

definition add_id :: "bool \<Rightarrow> string option \<Rightarrow> string \<Rightarrow> string option" where
  "add_id destroying ids key =
     (if destroying then ids else case ids of None \<Rightarrow> Some key | Some s \<Rightarrow> Some (s @ '','' @ key))"

fun unsubscribe_loop ::
  "'w libs \<Rightarrow> bool \<Rightarrow> nat list \<Rightarrow> string option \<Rightarrow> notifier \<Rightarrow> (string option \<times> notifier) result" where
  "unsubscribe_loop l destroying [] ids c = Inr (ids, c)"
| "unsubscribe_loop l destroying (a # as) ids c = ok_bind (sub_at c a) (\<lambda>sub.
     let (ids, c) = (case sub_id sub of
           None \<Rightarrow> (ids, c)
         | Some key \<Rightarrow> (add_id destroying ids key,
             c\<lparr>subscriptions_by_id := str_remove key (subscriptions_by_id c)\<rparr>))
     in ok_bind (free_subscription l a c) (\<lambda>c. unsubscribe_loop l destroying as ids c))"

definition unsubscribe_internal ::
  "'w libs \<Rightarrow> string \<Rightarrow> nat list \<Rightarrow> bool \<Rightarrow> notifier \<Rightarrow> notifier result" where
  "unsubscribe_internal l uri sub_list destroying c =
     ok_bind (unsubscribe_loop l destroying sub_list None c) (\<lambda>(ids, c).
     case ids of
       None \<Rightarrow> Inr c
     | Some s \<Rightarrow> (case e2k_soup_message_new (http l) uri ''UNSUBSCRIBE'' of
         Inl _ \<Rightarrow> Inr c
       | Inr msg \<Rightarrow> Inr (snd (e2k_context_queue_message (add_header ''Subscription-id'' s msg) Unsubscribed 0 c))))"

definition e2k_context_unsubscribe :: "'w libs \<Rightarrow> string \<Rightarrow> notifier \<Rightarrow> notifier result" where
  "e2k_context_unsubscribe l uri c =
     unsubscribe_internal l uri (subs_of_uri uri c) False
       (c\<lparr>subscriptions_by_uri := str_remove uri (subscriptions_by_uri c)\<rparr>)"

text \<open>What \<open>dispose\<close> does with the subscriptions.\<close>

fun destroy_sub_lists :: "'w libs \<Rightarrow> (string \<times> nat list) list \<Rightarrow> notifier \<Rightarrow> notifier result" where
  "destroy_sub_lists l [] c = Inr (c\<lparr>subscriptions_by_uri := [], subscriptions_by_id := []\<rparr>)"
| "destroy_sub_lists l ((uri, as) # es) c =
     ok_bind (unsubscribe_internal l uri as True c) (destroy_sub_lists l es)"

section \<open>Events\<close>

datatype sub_event =
    Subscribe string E2kContextChangeType int nat
  | Unsubscribe string
  | Connected string nat
  | Datagram string
  | Fire nat
  | Queue_request nat
  | Answer nat soup_response
  | Tick nat

definition run_timer :: "'w libs \<Rightarrow> timer \<Rightarrow> notifier \<Rightarrow> notifier result" where
  "run_timer l t c = (case timer_func t of
     Renew_subscription \<Rightarrow> renew_subscription l (timer_sub t) c
   | Timeout_notification \<Rightarrow> timeout_notification l (timer_sub t) c
   | Belated_notification \<Rightarrow> belated_notification (timer_sub t) c)"

text \<open>A timer runs once: its function returns \<open>FALSE\<close>.\<close>

fun handle :: "'w libs \<Rightarrow> sub_event \<Rightarrow> notifier \<Rightarrow> notifier result" where
  "handle l (Subscribe uri type interval cb) c = e2k_context_subscribe l uri type interval cb c"
| "handle l (Unsubscribe uri) c = e2k_context_unsubscribe l uri c"
| "handle l (Connected ip portno) c = got_connection l (Some (ip, portno)) c"
| "handle l (Datagram buffer) c = ok_bind (do_notification (Some buffer) c) (\<lambda>(_, c). Inr c)"
| "handle l (Fire key) c = (case find (\<lambda>t. timer_id t = key) (timers c) of
     None \<Rightarrow> Inr c
   | Some t \<Rightarrow> run_timer l t (g_source_remove key c))"
| "handle l (Queue_request key) c = Inr (e2k_queue_request key c)"
| "handle l (Answer key resp) c = finish_message l key resp c"
| "handle l (Tick n) c = Inr (c\<lparr>clock := clock c + int n\<rparr>)"

fun handle_all :: "'w libs \<Rightarrow> sub_event list \<Rightarrow> notifier \<Rightarrow> notifier result" where
  "handle_all l [] c = Inr c"
| "handle_all l (e # es) c = ok_bind (handle l e c) (handle_all l es)"

end
