(* ===== verification/Handles.thy ===== *)
theory Handles
  imports Main
begin

text \<open>
  Handles that a library gives out (timers, queued messages) and the cells of a heap that remember
  them: the invariant that no handle outlives its cell, and how each kind of update keeps it.
\<close>

section \<open>Handles owned by cells\<close>

text \<open>
  A handle is a number, the address of a cell and a kind; the cell has a field for each kind. Every
  handle is in the field of its cell, and in no other field.
\<close>

definition owned :: "(nat \<times> nat \<times> 'k) set \<Rightarrow> ('k \<Rightarrow> 'c \<Rightarrow> nat option) \<Rightarrow> (nat \<Rightarrow> 'c option) \<Rightarrow> nat \<Rightarrow> bool" where
  "owned H field heap n \<longleftrightarrow>
     (\<forall>(i, a, k) \<in> H. \<exists>s. heap a = Some s \<and> field k s = Some i) \<and>
     (\<forall>a s k i. heap a = Some s \<and> field k s = Some i \<longrightarrow> i < n) \<and>
     (\<forall>(i, a, k) \<in> H. \<forall>b s l. heap b = Some s \<and> field l s = Some i \<longrightarrow> b = a \<and> l = k)"

definition idle :: "(nat \<times> nat \<times> 'k) set \<Rightarrow> nat \<Rightarrow> 'k \<Rightarrow> bool" where
  "idle H a k \<longleftrightarrow> (\<forall>i. (i, a, k) \<notin> H)"

lemma owned_field: "owned H field heap n \<Longrightarrow> (i, a, k) \<in> H \<Longrightarrow> \<exists>s. heap a = Some s \<and> field k s = Some i"
  unfolding owned_def by fast

lemma owned_below: "owned H field heap n \<Longrightarrow> heap a = Some s \<Longrightarrow> field k s = Some i \<Longrightarrow> i < n"
  unfolding owned_def by fast

lemma owned_unique:
  "owned H field heap n \<Longrightarrow> (i, a, k) \<in> H \<Longrightarrow> heap b = Some s \<Longrightarrow> field l s = Some i \<Longrightarrow> b = a \<and> l = k"
  unfolding owned_def by fast

lemma ownedI:
  assumes "\<And>i a k. (i, a, k) \<in> H \<Longrightarrow> \<exists>s. heap a = Some s \<and> field k s = Some i"
    and "\<And>a s k i. heap a = Some s \<Longrightarrow> field k s = Some i \<Longrightarrow> i < n"
    and "\<And>i a k b s l. (i, a, k) \<in> H \<Longrightarrow> heap b = Some s \<Longrightarrow> field l s = Some i \<Longrightarrow> b = a \<and> l = k"
  shows "owned H field heap n"
  unfolding owned_def using assms by (auto; blast)

lemma owned_subset: "owned H field heap n \<Longrightarrow> H' \<subseteq> H \<Longrightarrow> owned H' field heap n"
  unfolding owned_def by (meson subsetD)

lemma idle_subset: "idle H a k \<Longrightarrow> H' \<subseteq> H \<Longrightarrow> idle H' a k"
  unfolding idle_def by blast

text \<open>Ending the handle in a field leaves none of that kind.\<close>

lemma owned_idle:
  assumes o: "owned H field heap n" and a: "heap a = Some s"
  shows "idle {h \<in> H. Some (fst h) \<noteq> field k s} a k"
  using owned_field [OF o] a by (fastforce simp: idle_def)

text \<open>A cell changes in one field whose kind is idle, or in none.\<close>

lemma owned_update:
  assumes o: "owned H field heap n" and a: "heap a = Some s" and k: "idle H a k"
    and s': "\<And>l. l \<noteq> k \<Longrightarrow> field l s' = field l s" "field k s' = None"
  shows "owned H field (heap(a \<mapsto> s')) n"
proof (rule ownedI)
  fix i b l assume h: "(i, b, l) \<in> H"
  then show "\<exists>s. (heap(a \<mapsto> s')) b = Some s \<and> field l s = Some i"
    using owned_field [OF o h] a k s' by (cases "b = a"; cases "l = k") (auto simp: idle_def)
next
  fix b t l i assume "(heap(a \<mapsto> s')) b = Some t" "field l t = Some i"
  then show "i < n" using owned_below [OF o] a s' by (cases "b = a"; cases "l = k") auto
next
  fix i b l c t m assume h: "(i, b, l) \<in> H" and t: "(heap(a \<mapsto> s')) c = Some t" "field m t = Some i"
  then show "c = b \<and> m = l" using owned_unique [OF o h] a s' by (cases "c = a"; cases "m = k") auto
qed

lemma owned_keep:
  assumes o: "owned H field heap n" and a: "heap a = Some s" and s': "\<And>l. field l s' = field l s"
  shows "owned H field (heap(a \<mapsto> s')) n"
proof (rule ownedI)
  fix i b l assume h: "(i, b, l) \<in> H"
  then show "\<exists>s. (heap(a \<mapsto> s')) b = Some s \<and> field l s = Some i"
    using owned_field [OF o h] a s' by (cases "b = a") auto
next
  fix b t l i assume "(heap(a \<mapsto> s')) b = Some t" "field l t = Some i"
  then show "i < n" using owned_below [OF o] a s' by (cases "b = a") auto
next
  fix i b l c t m assume h: "(i, b, l) \<in> H" and t: "(heap(a \<mapsto> s')) c = Some t" "field m t = Some i"
  then show "c = b \<and> m = l" using owned_unique [OF o h] a s' by (cases "c = a") auto
qed

text \<open>A new handle goes into a field whose kind is idle.\<close>

lemma owned_insert:
  assumes o: "owned H field heap n" and a: "heap a = Some s" and k: "idle H a k"
    and s': "\<And>l. l \<noteq> k \<Longrightarrow> field l s' = field l s" "field k s' = Some n"
  shows "owned (insert (n, a, k) H) field (heap(a \<mapsto> s')) (Suc n)"
proof (rule ownedI)
  fix i b l assume h: "(i, b, l) \<in> insert (n, a, k) H"
  show "\<exists>s. (heap(a \<mapsto> s')) b = Some s \<and> field l s = Some i"
  proof (cases "(i, b, l) \<in> H")
    case True
    then show ?thesis using owned_field [OF o True] a k s' by (cases "b = a"; cases "l = k") (auto simp: idle_def)
  qed (use h s' in auto)
next
  fix b t l i assume "(heap(a \<mapsto> s')) b = Some t" "field l t = Some i"
  then show "i < Suc n" using owned_below [OF o] a s' by (cases "b = a"; cases "l = k") (auto simp: less_Suc_eq)
next
  fix i b l c t m
  assume h: "(i, b, l) \<in> insert (n, a, k) H" and t: "(heap(a \<mapsto> s')) c = Some t" "field m t = Some i"
  have old: "j < n" if "(j, b, l) \<in> H" for j b l
    using owned_field [OF o that] owned_below [OF o] by blast
  show "c = b \<and> m = l"
  proof (cases "(i, b, l) \<in> H")
    case True
    then show ?thesis using owned_unique [OF o True] old [OF True] t a s' by (cases "c = a"; cases "m = k") auto
  next
    case False
    then have i: "i = n" "b = a" "l = k" using h by auto
    show ?thesis
    proof (cases "c = a \<and> m = k")
      case False
      then have "\<exists>t. heap c = Some t \<and> field m t = Some n" using t i a s' by (cases "c = a") auto
      then show ?thesis using owned_below [OF o] by blast
    qed (use i in auto)
  qed
qed

lemma owned_free:
  assumes o: "owned H field heap n" and a: "\<And>k. idle H a k"
  shows "owned H field (heap(a := None)) n"
proof (rule ownedI)
  fix i b l assume h: "(i, b, l) \<in> H"
  then show "\<exists>s. (heap(a := None)) b = Some s \<and> field l s = Some i"
    using owned_field [OF o h] a by (cases "b = a") (auto simp: idle_def)
next
  fix b t l i assume "(heap(a := None)) b = Some t" "field l t = Some i"
  then show "i < n" using owned_below [OF o] by (cases "b = a") auto
next
  fix i b l c t m assume h: "(i, b, l) \<in> H" and t: "(heap(a := None)) c = Some t" "field m t = Some i"
  then show "c = b \<and> m = l" using owned_unique [OF o h] by (cases "c = a") auto
qed

lemma owned_new:
  assumes o: "owned H field heap n" and a: "heap a = None" and s: "\<And>k. field k s = None"
  shows "owned H field (heap(a \<mapsto> s)) n"
proof (rule ownedI)
  fix i b l assume h: "(i, b, l) \<in> H"
  then show "\<exists>t. (heap(a \<mapsto> s)) b = Some t \<and> field l t = Some i"
    using owned_field [OF o h] a by (cases "b = a") auto
next
  fix b t l i assume "(heap(a \<mapsto> s)) b = Some t" "field l t = Some i"
  then show "i < n" using owned_below [OF o] s by (cases "b = a") auto
next
  fix i b l c t m assume h: "(i, b, l) \<in> H" and t: "(heap(a \<mapsto> s)) c = Some t" "field m t = Some i"
  then show "c = b \<and> m = l" using owned_unique [OF o h] s by (cases "c = a") auto
qed

end
