(* ===== verification/Subscription_Safety.thy ===== *)
theory Subscription_Safety
  imports Subscription Handles
begin

text \<open>
  No timer and no message outlives its subscription. The invariant says of every timer, of every
  queued message and of every entry of the two tables that its subscription is there and knows it;
  it is kept by every event of a client, a server and a clock that never let two messages of one kind
  overlap. The last section shows what happens when they do.
\<close>

section \<open>The invariant\<close>

fun timer_field :: "timer_func \<Rightarrow> E2kSubscription \<Rightarrow> nat option" where
  "timer_field Renew_subscription s = (if renew_timeout s = 0 then None else Some (renew_timeout s))"
| "timer_field Timeout_notification s = (if poll_timeout s = 0 then None else Some (poll_timeout s))"
| "timer_field Belated_notification s = (if notification_timeout s = 0 then None else Some (notification_timeout s))"

fun msg_field :: "msg_callback \<Rightarrow> E2kSubscription \<Rightarrow> nat option" where
  "msg_field Renew_cb s = renew_msg s"
| "msg_field Polled s = poll_msg s"
| "msg_field Unsubscribed s = None"

definition timer_handles :: "timer list \<Rightarrow> (nat \<times> nat \<times> timer_func) set" where
  "timer_handles ts = (\<lambda>t. (timer_id t, timer_sub t, timer_func t)) ` set ts"

definition msg_handles :: "queued list \<Rightarrow> (nat \<times> nat \<times> msg_callback) set" where
  "msg_handles qs = (\<lambda>q. (queued_id q, queued_sub q, queued_callback q)) `
     {q \<in> set qs. queued_callback q \<noteq> Unsubscribed}"

text \<open>The set holds the subscriptions that \<open>unsubscribe_internal\<close> has still to free.\<close>

definition tables_ok :: "nat set \<Rightarrow> notifier \<Rightarrow> bool" where
  "tables_ok R c \<longleftrightarrow>
     (\<forall>i a. map_of (subscriptions_by_id c) i = Some a \<longrightarrow>
        (\<exists>sub. subscriptions c a = Some sub \<and> sub_id sub = Some i)) \<and>
     (\<forall>u as. map_of (subscriptions_by_uri c) u = Some as \<longrightarrow>
        distinct as \<and> (\<forall>a \<in> set as. \<exists>sub. subscriptions c a = Some sub \<and> sub_uri sub = u)) \<and>
     (\<forall>a sub. subscriptions c a = Some sub \<longrightarrow> a < next_sub c \<and> (a \<in> set (subs_of_uri (sub_uri sub) c) \<longleftrightarrow> a \<notin> R)) \<and>
     distinct (map fst (subscriptions_by_uri c))"

definition queue_ok :: "notifier \<Rightarrow> bool" where
  "queue_ok c \<longleftrightarrow> distinct (map queued_id (async_queue c)) \<and>
     (\<forall>q \<in> set (async_queue c). queued_id q < next_msg c) \<and> 0 < next_timer c"

definition sub_ok :: "'w libs \<Rightarrow> string option \<Rightarrow> int \<Rightarrow> E2kSubscription \<Rightarrow> bool" where
  "sub_ok l listener now s \<longleftrightarrow>
     uri_valid (http l) (sub_uri s) \<and>
     0 \<le> last_notification s \<and> last_notification s \<le> now \<and>
     0 \<le> min_interval s \<and> min_interval s \<le> 2000000 \<and>
     lifetime s \<in> {1800, 3600, 7200, 14400, 28800, 57600} \<and>
     (poll_timeout s \<noteq> 0 \<longrightarrow> sub_id s \<noteq> None) \<and>
     (listener = None \<longrightarrow> renew_timeout s = 0 \<and> renew_msg s = None)"

definition subs_ok :: "'w libs \<Rightarrow> notifier \<Rightarrow> bool" where
  "subs_ok l c \<longleftrightarrow> 0 \<le> clock c \<and> clock c < 2 ^ 31 \<and>
     (\<forall>a s. subscriptions c a = Some s \<longrightarrow> sub_ok l (notification_uri c) (clock c) s)"

definition notifier_ok :: "'w libs \<Rightarrow> nat set \<Rightarrow> notifier \<Rightarrow> bool" where
  "notifier_ok l R c \<longleftrightarrow> tables_ok R c \<and> queue_ok c \<and> subs_ok l c \<and>
     owned (timer_handles (timers c)) timer_field (subscriptions c) (next_timer c) \<and>
     owned (msg_handles (async_queue c)) msg_field (subscriptions c) (next_msg c)"

abbreviation no_timer :: "notifier \<Rightarrow> nat \<Rightarrow> timer_func \<Rightarrow> bool" where
  "no_timer c a k \<equiv> idle (timer_handles (timers c)) a k"

abbreviation no_msg :: "notifier \<Rightarrow> nat \<Rightarrow> msg_callback \<Rightarrow> bool" where
  "no_msg c a k \<equiv> idle (msg_handles (async_queue c)) a k"

section \<open>Steps of the proof\<close>

lemma sub_at_Some [simp]: "subscriptions c a = Some s \<Longrightarrow> sub_at c a = Inr s"
  by (simp add: sub_at_def)

lemma set_sub_eq: "subscriptions c a = Some s \<Longrightarrow> set_sub a f c = c\<lparr>subscriptions := (subscriptions c)(a \<mapsto> f s)\<rparr>"
  by (simp add: set_sub_def)

lemma timer_field_upd [simp]:
  "k \<noteq> Renew_subscription \<Longrightarrow> timer_field k (s\<lparr>renew_timeout := n\<rparr>) = timer_field k s"
  "k \<noteq> Timeout_notification \<Longrightarrow> timer_field k (s\<lparr>poll_timeout := n\<rparr>) = timer_field k s"
  "k \<noteq> Belated_notification \<Longrightarrow> timer_field k (s\<lparr>notification_timeout := n\<rparr>) = timer_field k s"
  "timer_field k (s\<lparr>renew_msg := m\<rparr>) = timer_field k s"
  "timer_field k (s\<lparr>poll_msg := m\<rparr>) = timer_field k s"
  "timer_field k (s\<lparr>last_notification := i\<rparr>) = timer_field k s"
  "timer_field k (s\<lparr>lifetime := i\<rparr>) = timer_field k s"
  "timer_field k (s\<lparr>sub_id := j\<rparr>) = timer_field k s"
  by (cases k; simp)+

lemma msg_field_upd [simp]:
  "k \<noteq> Renew_cb \<Longrightarrow> msg_field k (s\<lparr>renew_msg := m\<rparr>) = msg_field k s"
  "k \<noteq> Polled \<Longrightarrow> msg_field k (s\<lparr>poll_msg := m\<rparr>) = msg_field k s"
  "msg_field k (s\<lparr>renew_timeout := n\<rparr>) = msg_field k s"
  "msg_field k (s\<lparr>poll_timeout := n\<rparr>) = msg_field k s"
  "msg_field k (s\<lparr>notification_timeout := n\<rparr>) = msg_field k s"
  "msg_field k (s\<lparr>last_notification := i\<rparr>) = msg_field k s"
  "msg_field k (s\<lparr>lifetime := i\<rparr>) = msg_field k s"
  "msg_field k (s\<lparr>sub_id := j\<rparr>) = msg_field k s"
  by (cases k; simp)+

lemma timer_handles_simps [simp]:
  "timer_handles [] = {}"
  "timer_handles (ts @ [t]) = insert (timer_id t, timer_sub t, timer_func t) (timer_handles ts)"
  "timer_handles (filter (\<lambda>t. timer_id t \<noteq> n) ts) = {h \<in> timer_handles ts. fst h \<noteq> n}"
  by (simp_all add: timer_handles_def Compr_image_eq)

lemma msg_handles_simps [simp]:
  "msg_handles [] = {}"
  "msg_handles (qs @ [q]) =
     (if queued_callback q = Unsubscribed then msg_handles qs
      else insert (queued_id q, queued_sub q, queued_callback q) (msg_handles qs))"
  "msg_handles (filter (\<lambda>q. queued_id q \<noteq> n) qs) = {h \<in> msg_handles qs. fst h \<noteq> n}"
proof -
  have "{x. (x = q \<or> x \<in> set qs) \<and> queued_callback x \<noteq> Unsubscribed} =
      (if queued_callback q = Unsubscribed then {x \<in> set qs. queued_callback x \<noteq> Unsubscribed}
       else insert q {x \<in> set qs. queued_callback x \<noteq> Unsubscribed})"
    by (simp add: set_eq_iff) blast
  then show "msg_handles (qs @ [q]) =
     (if queued_callback q = Unsubscribed then msg_handles qs
      else insert (queued_id q, queued_sub q, queued_callback q) (msg_handles qs))"
    by (simp add: msg_handles_def)
  show "msg_handles (filter (\<lambda>q. queued_id q \<noteq> n) qs) = {h \<in> msg_handles qs. fst h \<noteq> n}"
    unfolding msg_handles_def Compr_image_eq by (simp add: conj_ac)
qed (simp add: msg_handles_def)

lemma tables_update:
  assumes "tables_ok R c" "subscriptions c a = Some s" "sub_uri s' = sub_uri s" "sub_id s' = sub_id s"
    "subscriptions c' = (subscriptions c)(a \<mapsto> s')" "subscriptions_by_id c' = subscriptions_by_id c"
    "subscriptions_by_uri c' = subscriptions_by_uri c" "next_sub c' = next_sub c"
  shows "tables_ok R c'"
  using assms unfolding tables_ok_def subs_of_uri_def by (auto split: if_splits; fastforce)

lemma tables_cong:
  assumes "tables_ok R c" "subscriptions c' = subscriptions c" "subscriptions_by_id c' = subscriptions_by_id c"
    "subscriptions_by_uri c' = subscriptions_by_uri c" "next_sub c' = next_sub c"
  shows "tables_ok R c'"
  using assms unfolding tables_ok_def subs_of_uri_def by simp

text \<open>An update of one cell, with the tables, timers and messages as they are.\<close>

lemma ok_update:
  assumes c: "notifier_ok l R c" and a: "subscriptions c a = Some s"
    and s': "sub_uri s' = sub_uri s" "sub_id s' = sub_id s" "sub_ok l (notification_uri c) (clock c) s'"
    and t: "\<And>j. j \<noteq> k \<Longrightarrow> timer_field j s' = timer_field j s"
      "no_timer c a k \<and> timer_field k s' = None \<or> timer_field k s' = timer_field k s"
    and m: "\<And>j. j \<noteq> h \<Longrightarrow> msg_field j s' = msg_field j s"
      "no_msg c a h \<and> msg_field h s' = None \<or> msg_field h s' = msg_field h s"
  shows "notifier_ok l R (c\<lparr>subscriptions := (subscriptions c)(a \<mapsto> s')\<rparr>)"
proof -
  have "owned (timer_handles (timers c)) timer_field ((subscriptions c)(a \<mapsto> s')) (next_timer c)"
  proof (cases "timer_field k s' = timer_field k s")
    case True
    then have "timer_field j s' = timer_field j s" for j using t(1) by (cases "j = k") auto
    then show ?thesis using c a by (intro owned_keep) (auto simp: notifier_ok_def)
  next
    case False
    then show ?thesis using c a t by (intro owned_update [where k = k]) (auto simp: notifier_ok_def)
  qed
  moreover have "owned (msg_handles (async_queue c)) msg_field ((subscriptions c)(a \<mapsto> s')) (next_msg c)"
  proof (cases "msg_field h s' = msg_field h s")
    case True
    then have "msg_field j s' = msg_field j s" for j using m(1) by (cases "j = h") auto
    then show ?thesis using c a by (intro owned_keep) (auto simp: notifier_ok_def)
  next
    case False
    then show ?thesis using c a m by (intro owned_update [where k = h]) (auto simp: notifier_ok_def)
  qed
  moreover have "tables_ok R (c\<lparr>subscriptions := (subscriptions c)(a \<mapsto> s')\<rparr>)"
    by (rule tables_update [where c = c]) (use c a s' in \<open>simp_all add: notifier_ok_def\<close>)
  ultimately show ?thesis using c s'(3) by (simp add: notifier_ok_def queue_ok_def subs_ok_def)
qed

text \<open>A timer is removed, one is added; a message is queued, one is taken.\<close>

lemma ok_remove_timeout:
  assumes c: "notifier_ok l R c" and a: "subscriptions c a = Some s"
    and k: "timer_field k s = (if n = 0 then None else Some n)"
  shows "notifier_ok l R (remove_timeout n c)" "no_timer (remove_timeout n c) a k"
    "\<And>b j. no_timer c b j \<Longrightarrow> no_timer (remove_timeout n c) b j"
    "\<And>b j. no_msg c b j \<Longrightarrow> no_msg (remove_timeout n c) b j"
    "subscriptions (remove_timeout n c) = subscriptions c"
proof -
  have o: "owned (timer_handles (timers c)) timer_field (subscriptions c) (next_timer c)"
    using c by (simp add: notifier_ok_def)
  have pos: "i \<noteq> 0" if "(i, b, j) \<in> timer_handles (timers c)" for i b j
    using owned_field [OF o that] by (cases j) (auto split: if_splits)
  have H: "timer_handles (timers (remove_timeout n c)) = {h \<in> timer_handles (timers c). Some (fst h) \<noteq> timer_field k s}"
    using k pos by (auto simp: remove_timeout_def g_source_remove_def)
  show "no_timer (remove_timeout n c) a k" unfolding H using o a by (rule owned_idle)
  have "tables_ok R (remove_timeout n c)"
    by (rule tables_cong [where c = c]) (use c in \<open>simp_all add: notifier_ok_def remove_timeout_def g_source_remove_def\<close>)
  moreover have "owned (timer_handles (timers (remove_timeout n c))) timer_field (subscriptions c) (next_timer c)"
    unfolding H using o by (rule owned_subset) auto
  ultimately show "notifier_ok l R (remove_timeout n c)"
    using c by (auto simp: notifier_ok_def queue_ok_def subs_ok_def remove_timeout_def g_source_remove_def)
  show "no_timer (remove_timeout n c) b j" if "no_timer c b j" for b j
    unfolding H using that by (rule idle_subset) auto
qed (auto simp: remove_timeout_def g_source_remove_def)

lemma ok_add_timeout:
  assumes c: "notifier_ok l R c" and a: "subscriptions c a = Some s" and k: "no_timer c a k"
    and s': "sub_uri s' = sub_uri s" "sub_id s' = sub_id s" "sub_ok l (notification_uri c) (clock c) s'"
    and t: "\<And>j. j \<noteq> k \<Longrightarrow> timer_field j s' = timer_field j s" "timer_field k s' = Some (next_timer c)"
    and m: "\<And>j. msg_field j s' = msg_field j s"
  shows "notifier_ok l R ((snd (g_timeout_add ms k a c))\<lparr>subscriptions := (subscriptions c)(a \<mapsto> s')\<rparr>)"
proof -
  have o: "owned (timer_handles (timers c)) timer_field (subscriptions c) (next_timer c)"
    "owned (msg_handles (async_queue c)) msg_field (subscriptions c) (next_msg c)"
    using c by (simp_all add: notifier_ok_def)
  have "owned (insert (next_timer c, a, k) (timer_handles (timers c))) timer_field ((subscriptions c)(a \<mapsto> s')) (Suc (next_timer c))"
    using o(1) a k t by (rule owned_insert)
  moreover have "owned (msg_handles (async_queue c)) msg_field ((subscriptions c)(a \<mapsto> s')) (next_msg c)"
    using o(2) a m by (rule owned_keep)
  moreover have "tables_ok R ((snd (g_timeout_add ms k a c))\<lparr>subscriptions := (subscriptions c)(a \<mapsto> s')\<rparr>)"
    by (rule tables_update [where c = c]) (use c a s' in \<open>simp_all add: notifier_ok_def g_timeout_add_def\<close>)
  ultimately show ?thesis using c s'(3) by (simp add: notifier_ok_def queue_ok_def subs_ok_def g_timeout_add_def)
qed

lemma ok_queue_message:
  assumes c: "notifier_ok l R c" and a: "subscriptions c a = Some s" and k: "no_msg c a k" "k \<noteq> Unsubscribed"
    and s': "sub_uri s' = sub_uri s" "sub_id s' = sub_id s" "sub_ok l (notification_uri c) (clock c) s'"
    and t: "\<And>j. timer_field j s' = timer_field j s"
    and m: "\<And>j. j \<noteq> k \<Longrightarrow> msg_field j s' = msg_field j s" "msg_field k s' = Some (next_msg c)"
  shows "notifier_ok l R ((snd (e2k_context_queue_message msg k a c))\<lparr>subscriptions := (subscriptions c)(a \<mapsto> s')\<rparr>)"
proof -
  have o: "owned (timer_handles (timers c)) timer_field (subscriptions c) (next_timer c)"
    "owned (msg_handles (async_queue c)) msg_field (subscriptions c) (next_msg c)"
    using c by (simp_all add: notifier_ok_def)
  have "owned (insert (next_msg c, a, k) (msg_handles (async_queue c))) msg_field ((subscriptions c)(a \<mapsto> s')) (Suc (next_msg c))"
    using o(2) a k(1) m by (rule owned_insert)
  moreover have "owned (timer_handles (timers c)) timer_field ((subscriptions c)(a \<mapsto> s')) (next_timer c)"
    using o(1) a t by (rule owned_keep)
  moreover have "tables_ok R ((snd (e2k_context_queue_message msg k a c))\<lparr>subscriptions := (subscriptions c)(a \<mapsto> s')\<rparr>)"
    by (rule tables_update [where c = c]) (use c a s' in \<open>simp_all add: notifier_ok_def e2k_context_queue_message_def\<close>)
  moreover have "queue_ok ((snd (e2k_context_queue_message msg k a c))\<lparr>subscriptions := (subscriptions c)(a \<mapsto> s')\<rparr>)"
    using c by (auto simp: notifier_ok_def queue_ok_def e2k_context_queue_message_def less_SucI)
  ultimately show ?thesis using c s'(3) k(2) by (simp add: notifier_ok_def subs_ok_def e2k_context_queue_message_def)
qed

end
