(* ===== verification/Subscription_Events.thy ===== *)
theory Subscription_Events
  imports Subscription_Safety
begin

text \<open>
  Every handler of a timer, a message, a datagram or a call of the client keeps the invariant of
  Subscription_Safety and is defined where it holds.
\<close>

section \<open>Notifying\<close>

lemma ok_parts:
  assumes "notifier_ok l R c"
  shows "tables_ok R c" "queue_ok c" "subs_ok l c"
    "owned (timer_handles (timers c)) timer_field (subscriptions c) (next_timer c)"
    "owned (msg_handles (async_queue c)) msg_field (subscriptions c) (next_msg c)"
  using assms by (simp_all add: notifier_ok_def)

lemma ok_sub: "notifier_ok l R c \<Longrightarrow> subscriptions c a = Some s \<Longrightarrow> sub_ok l (notification_uri c) (clock c) s"
  by (simp add: notifier_ok_def subs_ok_def)

lemma ok_clock: "notifier_ok l R c \<Longrightarrow> 0 \<le> clock c \<and> clock c < 2 ^ 31"
  by (simp add: notifier_ok_def subs_ok_def)

lemma ok_next_timer: "notifier_ok l R c \<Longrightarrow> next_timer c \<noteq> 0"
  by (simp add: notifier_ok_def queue_ok_def)

lemma ok_by_id:
  "notifier_ok l R c \<Longrightarrow> str_lookup i (subscriptions_by_id c) = Some a \<Longrightarrow>
     \<exists>s. subscriptions c a = Some s \<and> sub_id s = Some i"
  by (simp add: notifier_ok_def tables_ok_def table_lookup)

lemma ok_calls: "notifier_ok l R (c\<lparr>calls := x\<rparr>) = notifier_ok l R c"
  by (simp add: notifier_ok_def tables_ok_def queue_ok_def subs_ok_def subs_of_uri_def)

lemma ok_known_props: "notifier_ok l R (c\<lparr>known_props := g\<rparr>) = notifier_ok l R c"
  by (simp add: notifier_ok_def tables_ok_def queue_ok_def subs_ok_def subs_of_uri_def)

lemma ok_call: "notifier_ok l R (call sub c) = notifier_ok l R c"
  by (simp add: call_def ok_calls)

lemma delay_exact:
  assumes "sub_ok l u now s" "now < 2 ^ 31"
  shows "notification_delay now s = last_notification s + min_interval s - now"
  using assms unfolding notification_delay_def sub_ok_def by (intro int_of_long_id) auto

lemma maybe_notification_ok:
  assumes c: "notifier_ok l R c" and a: "subscriptions c a = Some s"
  shows "\<exists>c'. maybe_notification a c = Inr c' \<and> notifier_ok l R c' \<and> subscriptions_by_id c' = subscriptions_by_id c"
proof -
  note s = ok_sub [OF c a] and clock = ok_clock [OF c]
  define delay where "delay = notification_delay (clock c) s"
  have d: "delay \<le> 2000000" "delay = last_notification s + min_interval s - clock c"
    using s clock delay_exact [OF s] by (auto simp: delay_def sub_ok_def)
  show ?thesis
  proof (cases "delay > 0")
    case True
    define c1 where "c1 = remove_timeout (notification_timeout s) c"
    have f: "timer_field Belated_notification s = (if notification_timeout s = 0 then None else Some (notification_timeout s))"
      by simp
    note r = ok_remove_timeout [OF c a f, folded c1_def]
    have a1: "subscriptions c1 a = Some s" using r(5) a by simp
    have "notifier_ok l R ((snd (g_timeout_add (delay * 1000) Belated_notification a c1))
        \<lparr>subscriptions := (subscriptions c1)(a \<mapsto> s\<lparr>notification_timeout := next_timer c1\<rparr>)\<rparr>)"
      using ok_next_timer [OF r(1)] ok_sub [OF r(1) a1]
      by (intro ok_add_timeout [OF r(1) a1 r(2)]) (simp_all add: sub_ok_def)
    moreover have "maybe_notification a c = Inr ((snd (g_timeout_add (delay * 1000) Belated_notification a c1))
        \<lparr>subscriptions := (subscriptions c1)(a \<mapsto> s\<lparr>notification_timeout := next_timer c1\<rparr>)\<rparr>)"
      using True a a1 d(1)
      by (simp add: maybe_notification_def Let_def delay_def [symmetric] c1_def [symmetric] g_timeout_add_def set_sub_def)
    ultimately show ?thesis
      by (simp add: c1_def g_timeout_add_def remove_timeout_def g_source_remove_def)
  next
    case False
    have "notifier_ok l R (c\<lparr>subscriptions := (subscriptions c)(a \<mapsto> s\<lparr>last_notification := clock c\<rparr>)\<rparr>)"
      using s clock by (intro ok_update [OF c a]) (simp_all add: sub_ok_def)
    then show ?thesis using False a
      by (simp add: maybe_notification_def Let_def delay_def [symmetric] set_sub_eq ok_call) (simp add: call_def)
  qed
qed

lemma notify_ids_ok: "notifier_ok l R c \<Longrightarrow> \<exists>c'. notify_ids ids c = Inr c' \<and> notifier_ok l R c'"
proof (induction ids arbitrary: c)
  case (Cons i ids)
  show ?case
  proof (cases "str_lookup i (subscriptions_by_id c)")
    case (Some a)
    then obtain s where "subscriptions c a = Some s" using ok_by_id [OF Cons.prems] by blast
    then obtain c' where "maybe_notification a c = Inr c'" "notifier_ok l R c'"
      using maybe_notification_ok [OF Cons.prems] by blast
    then show ?thesis using Some Cons.IH by simp
  qed (use Cons in simp)
qed simp

lemma belated_notification_ok:
  assumes c: "notifier_ok l R c" and a: "subscriptions c a = Some s" and n: "no_timer c a Belated_notification"
  shows "\<exists>c'. belated_notification a c = Inr c' \<and> notifier_ok l R c'"
proof -
  have "notifier_ok l R (c\<lparr>subscriptions := (subscriptions c)(a \<mapsto> s\<lparr>notification_timeout := 0\<rparr>)\<rparr>)"
    using ok_sub [OF c a] n by (intro ok_update [OF c a, where k = Belated_notification]) (simp_all add: sub_ok_def)
  then show ?thesis using a by (simp add: belated_notification_def set_sub_eq ok_call)
qed

section \<open>Polling\<close>

lemma polled_ok:
  assumes c: "notifier_ok l R c" and a: "subscriptions c a = Some s" and n: "no_msg c a Polled"
    and resp: "status_code resp = E2K_HTTP_MULTI_STATUS \<Longrightarrow> \<exists>r. response_ids l (known_props c) resp = Inr r"
  shows "\<exists>c'. polled l resp a c = Inr c' \<and> notifier_ok l R c'"
    "status_code resp \<noteq> E2K_HTTP_MULTI_STATUS \<Longrightarrow>
       polled l resp a c = Inr (c\<lparr>subscriptions := (subscriptions c)(a \<mapsto> s\<lparr>poll_msg := None\<rparr>)\<rparr>)"
proof -
  let ?c = "c\<lparr>subscriptions := (subscriptions c)(a \<mapsto> s\<lparr>poll_msg := None\<rparr>)\<rparr>"
  have u: "notifier_ok l R ?c"
    using ok_sub [OF c a] n by (intro ok_update [OF c a, where h = Polled]) (simp_all add: sub_ok_def)
  show "\<exists>c'. polled l resp a c = Inr c' \<and> notifier_ok l R c'"
  proof (cases "status_code resp = E2K_HTTP_MULTI_STATUS")
    case True
    then obtain ids g where "response_ids l (known_props c) resp = Inr (ids, g)" using resp by auto
    moreover obtain c' where "notify_ids ids (?c\<lparr>known_props := g\<rparr>) = Inr c'" "notifier_ok l R c'"
      using notify_ids_ok u ok_known_props by blast
    ultimately show ?thesis using True a by (simp add: polled_def set_sub_eq)
  qed (use u a in \<open>simp add: polled_def set_sub_eq\<close>)
  show "polled l resp a c = Inr ?c" if "status_code resp \<noteq> E2K_HTTP_MULTI_STATUS"
    using that a by (simp add: polled_def set_sub_eq)
qed

lemma join_poll_ok:
  "notifier_ok l R c \<Longrightarrow> \<forall>b \<in> set bs. subscriptions c b \<noteq> None \<Longrightarrow>
     \<exists>ids' c'. join_poll a bs ids c = Inr (ids', c') \<and> notifier_ok l R c' \<and>
       subscriptions c' a = subscriptions c a \<and> async_queue c' = async_queue c \<and>
       next_msg c' = next_msg c"
proof (induction bs arbitrary: ids c)
  case (Cons b bs)
  obtain s where b: "subscriptions c b = Some s" using Cons.prems by auto
  show ?case
  proof (cases "b = a \<or> poll_timeout s = 0")
    case True
    then show ?thesis using Cons b by auto
  next
    case False
    define c1 where "c1 = remove_timeout (poll_timeout s) c"
    have f: "timer_field Timeout_notification s = (if poll_timeout s = 0 then None else Some (poll_timeout s))" by simp
    note r = ok_remove_timeout [OF Cons.prems(1) b f, folded c1_def]
    have b1: "subscriptions c1 b = Some s" using r(5) b by simp
    let ?c = "c1\<lparr>subscriptions := (subscriptions c1)(b \<mapsto> s\<lparr>poll_timeout := 0\<rparr>)\<rparr>"
    have u: "notifier_ok l R ?c"
      using ok_sub [OF r(1) b1] r(2)
      by (intro ok_update [OF r(1) b1, where k = Timeout_notification]) (simp_all add: sub_ok_def)
    obtain i where i: "sub_id s = Some i" using ok_sub [OF Cons.prems(1) b] False by (auto simp: sub_ok_def)
    have live: "\<forall>b' \<in> set bs. subscriptions ?c b' \<noteq> None" using Cons.prems(2) r(5) by auto
    have "join_poll a (b # bs) ids c = join_poll a bs (ids @ '','' @ i) ?c"
      using False b b1 i by (simp add: c1_def remove_timeout_def set_sub_def)
    moreover have "subscriptions ?c a = subscriptions c a" "async_queue ?c = async_queue c" "next_msg ?c = next_msg c"
      using False r(5) by (auto simp: c1_def remove_timeout_def g_source_remove_def)
    ultimately show ?thesis using Cons.IH [OF u live, of "ids @ '','' @ i"] by auto
  qed
qed auto

lemma queue_message_simps [simp]:
  "subscriptions (snd (e2k_context_queue_message msg k a c)) = subscriptions c"
  "fst (e2k_context_queue_message msg k a c) = next_msg c"
  "timers (snd (e2k_context_queue_message msg k a c)) = timers c"
  by (simp_all add: e2k_context_queue_message_def)

lemma timeout_add_simps [simp]:
  "subscriptions (snd (g_timeout_add ms k a c)) = subscriptions c"
  "fst (g_timeout_add ms k a c) = next_timer c"
  by (simp_all add: g_timeout_add_def)

lemma ok_list:
  assumes c: "notifier_ok l R c" and b: "b \<in> set (subs_of_uri u c)"
  shows "\<exists>s. subscriptions c b = Some s \<and> sub_uri s = u" "distinct (subs_of_uri u c)"
  using ok_parts(1) [OF c] b unfolding tables_ok_def subs_of_uri_def table_lookup
  by (auto split: option.splits)

lemma timeout_notification_ok:
  assumes c: "notifier_ok l R c" and a: "subscriptions c a = Some s"
    and t: "no_timer c a Timeout_notification" and m: "no_msg c a Polled"
  shows "\<exists>c'. timeout_notification l a c = Inr c' \<and> notifier_ok l R c'"
proof -
  define s1 where "s1 = s\<lparr>poll_timeout := 0\<rparr>"
  define c1 where "c1 = c\<lparr>subscriptions := (subscriptions c)(a \<mapsto> s1)\<rparr>"
  have u: "notifier_ok l R c1" unfolding c1_def s1_def
    using ok_sub [OF c a] t by (intro ok_update [OF c a, where k = Timeout_notification]) (simp_all add: sub_ok_def)
  have live: "\<forall>b \<in> set (subs_of_uri (sub_uri s) c1). subscriptions c1 b \<noteq> None" using ok_list(1) [OF u] by fastforce
  obtain ids c2 where j: "join_poll a (subs_of_uri (sub_uri s) c1)
        (case sub_id s of None \<Rightarrow> [] | Some i \<Rightarrow> i) c1 = Inr (ids, c2)" and c2: "notifier_ok l R c2"
      "subscriptions c2 a = Some s1" "async_queue c2 = async_queue c" "next_msg c2 = next_msg c"
    using join_poll_ok [OF u live, of a "case sub_id s of None \<Rightarrow> [] | Some i \<Rightarrow> i"]
    by (auto simp: c1_def)
  have m2: "no_msg c2 a Polled" using m c2(3) by simp
  have "uri_valid (http l) (sub_uri s)" using ok_sub [OF c a] by (simp add: sub_ok_def)
  then obtain msg where msg: "e2k_soup_message_new (http l) (sub_uri s) ''POLL'' = Inr msg"
    by (simp add: e2k_soup_message_new_def new_message_def)
  let ?q = "snd (e2k_context_queue_message (add_header ''Subscription-id'' ids msg) Polled a c2)"
  have "notifier_ok l R (?q\<lparr>subscriptions := (subscriptions c2)(a \<mapsto> s1\<lparr>poll_msg := Some (next_msg c2)\<rparr>)\<rparr>)"
    using ok_sub [OF c2(1,2)] by (intro ok_queue_message [OF c2(1,2) m2]) (simp_all add: sub_ok_def)
  moreover have "timeout_notification l a c =
      Inr (?q\<lparr>subscriptions := (subscriptions c2)(a \<mapsto> s1\<lparr>poll_msg := Some (next_msg c2)\<rparr>)\<rparr>)"
    using a j c2(2) msg
    by (simp add: timeout_notification_def set_sub_eq c1_def [symmetric] s1_def [symmetric] split_beta)
  ultimately show ?thesis by blast
qed

section \<open>Datagrams\<close>

lemma bump_polls_ok: "notifier_ok l R c \<Longrightarrow> \<exists>c'. bump_polls ids c = Inr c' \<and> notifier_ok l R c'"
proof (induction ids arbitrary: c)
  case (Cons i ids)
  show ?case
  proof (cases "str_lookup i (subscriptions_by_id c)")
    case (Some a)
    then obtain s where a: "subscriptions c a = Some s" and i: "sub_id s = Some i" using ok_by_id [OF Cons.prems] by blast
    define c1 where "c1 = remove_timeout (poll_timeout s) c"
    have f: "timer_field Timeout_notification s = (if poll_timeout s = 0 then None else Some (poll_timeout s))" by simp
    note r = ok_remove_timeout [OF Cons.prems a f, folded c1_def]
    have a1: "subscriptions c1 a = Some s" using r(5) a by simp
    let ?c = "(snd (g_timeout_add 1000 Timeout_notification a c1))
        \<lparr>subscriptions := (subscriptions c1)(a \<mapsto> s\<lparr>poll_timeout := next_timer c1\<rparr>)\<rparr>"
    have u: "notifier_ok l R ?c"
      using ok_next_timer [OF r(1)] ok_sub [OF r(1) a1] i
      by (intro ok_add_timeout [OF r(1) a1 r(2)]) (simp_all add: sub_ok_def)
    have "bump_polls (i # ids) c = bump_polls ids ?c"
      using Some a a1 by (simp add: c1_def [symmetric] split_beta set_sub_eq)
    then show ?thesis using Cons.IH [OF u] by simp
  qed (use Cons in simp)
qed simp

lemma do_notification_ok:
  assumes c: "notifier_ok l R c"
  shows "\<exists>b c'. do_notification read c = Inr (b, c') \<and> notifier_ok l R c'"
  using c bump_polls_ok [OF c]
  by (auto simp: do_notification_def Let_def split: option.splits) (metis ok_bind_Inr)

section \<open>Renewing\<close>

lemma tables_intern:
  assumes c: "tables_ok R c" and a: "subscriptions c a = Some s"
    and d: "subscriptions d = (subscriptions c)(a \<mapsto> s')" "sub_uri s' = sub_uri s"
      "subscriptions_by_uri d = subscriptions_by_uri c" "next_sub d = next_sub c"
    and new: "\<And>j b. map_of (subscriptions_by_id d) j = Some b \<Longrightarrow>
      b = a \<and> sub_id s' = Some j \<or> b \<noteq> a \<and> map_of (subscriptions_by_id c) j = Some b"
  shows "tables_ok R d"
  unfolding tables_ok_def
proof (intro conjI allI impI)
  fix j b assume "map_of (subscriptions_by_id d) j = Some b"
  then show "\<exists>sub. subscriptions d b = Some sub \<and> sub_id sub = Some j"
    using new [of j b] c d(1) unfolding tables_ok_def by fastforce
next
  fix u as assume u: "map_of (subscriptions_by_uri d) u = Some as"
  show "distinct as" using c u d(3) unfolding tables_ok_def by fastforce
  show "\<forall>b \<in> set as. \<exists>sub. subscriptions d b = Some sub \<and> sub_uri sub = u"
  proof
    fix b assume "b \<in> set as"
    then obtain sub where "subscriptions c b = Some sub" "sub_uri sub = u"
      using c u d(3) unfolding tables_ok_def by fastforce
    then show "\<exists>sub. subscriptions d b = Some sub \<and> sub_uri sub = u" using a d(1,2) by (cases "b = a") auto
  qed
next
  fix b sub assume b: "subscriptions d b = Some sub"
  have u: "subs_of_uri u d = subs_of_uri u c" for u by (simp add: subs_of_uri_def d(3))
  obtain sub' where "subscriptions c b = Some sub'" "sub_uri sub = sub_uri sub'"
    using a b d(1,2) by (cases "b = a") auto
  then have "b < next_sub c" "b \<in> set (subs_of_uri (sub_uri sub) c) \<longleftrightarrow> b \<notin> R"
    using c unfolding tables_ok_def by simp_all
  then show "b < next_sub d" "b \<in> set (subs_of_uri (sub_uri sub) d) \<longleftrightarrow> b \<notin> R" by (simp_all add: u d(4))
qed (use c d(3) in \<open>simp add: tables_ok_def\<close>)

lemma renew_cb_ok:
  assumes c: "notifier_ok l R c" and a: "subscriptions c a = Some s" and n: "no_msg c a Renew_cb"
    and resp: "E2K_HTTP_STATUS_IS_SUCCESSFUL (status_code resp) \<Longrightarrow> response_header resp ''Subscription-id'' \<noteq> None"
  shows "\<exists>c'. renew_cb resp a c = Inr c' \<and> notifier_ok l R c'"
    "\<not> E2K_HTTP_STATUS_IS_SUCCESSFUL (status_code resp) \<Longrightarrow>
       renew_cb resp a c = Inr (c\<lparr>subscriptions := (subscriptions c)(a \<mapsto> s\<lparr>renew_msg := None\<rparr>)\<rparr>)"
proof -
  let ?c = "c\<lparr>subscriptions := (subscriptions c)(a \<mapsto> s\<lparr>renew_msg := None\<rparr>)\<rparr>"
  have u: "notifier_ok l R ?c"
    using ok_sub [OF c a] n by (intro ok_update [OF c a, where h = Renew_cb]) (simp_all add: sub_ok_def)
  show "\<exists>c'. renew_cb resp a c = Inr c' \<and> notifier_ok l R c'"
  proof (cases "E2K_HTTP_STATUS_IS_SUCCESSFUL (status_code resp)")
    case True
    then obtain i where i: "response_header resp ''Subscription-id'' = Some i" using resp by auto
    let ?t = "case sub_id s of None \<Rightarrow> subscriptions_by_id c | Some j \<Rightarrow> str_remove j (subscriptions_by_id c)"
    let ?s = "s\<lparr>renew_msg := None, sub_id := Some i\<rparr>"
    let ?d = "c\<lparr>subscriptions := (subscriptions c)(a \<mapsto> ?s), subscriptions_by_id := str_insert i a ?t\<rparr>"
    have "renew_cb resp a c = Inr ?d" using True a i
      by (simp add: renew_cb_def set_sub_eq Let_def split: option.splits)
    moreover have "notifier_ok l R ?d"
    proof -
      note p = ok_parts [OF u]
      have a': "subscriptions ?c a = Some (s\<lparr>renew_msg := None\<rparr>)" by simp
      have "owned (timer_handles (timers ?c)) timer_field ((subscriptions ?c)(a \<mapsto> ?s)) (next_timer ?c)"
        using p(4) a' by (rule owned_keep) simp
      moreover have "owned (msg_handles (async_queue ?c)) msg_field ((subscriptions ?c)(a \<mapsto> ?s)) (next_msg ?c)"
        using p(5) a' by (rule owned_keep) simp
      moreover have "sub_ok l (notification_uri c) (clock c) ?s" using ok_sub [OF c a] by (simp add: sub_ok_def)
      then have "subs_ok l ?d" using ok_parts(3) [OF c] by (simp add: subs_ok_def)
      moreover have "queue_ok ?d" using p(2) by (simp add: queue_ok_def)
      moreover have "tables_ok R ?d"
      proof -
        have old: "b \<noteq> a \<and> map_of (subscriptions_by_id c) j = Some b" if "map_of ?t j = Some b" for j b
        proof -
          have m: "map_of (subscriptions_by_id c) j = Some b" and "sub_id s \<noteq> Some j"
            using that by (auto simp: map_of_table_remove split: option.splits if_splits)
          moreover obtain sub where "subscriptions c b = Some sub" "sub_id sub = Some j"
            using ok_by_id [OF c, of j b] m by (auto simp: table_lookup)
          ultimately show ?thesis using a by auto
        qed
        show ?thesis
          using ok_parts(1) [OF c] a by (rule tables_intern [where s' = ?s]) (auto simp: map_of_table_insert dest: old split: if_splits)
      qed
      ultimately show ?thesis by (simp add: notifier_ok_def)
    qed
    ultimately show ?thesis by blast
  qed (use u a in \<open>simp add: renew_cb_def set_sub_eq\<close>)
  show "renew_cb resp a c = Inr ?c" if "\<not> E2K_HTTP_STATUS_IS_SUCCESSFUL (status_code resp)"
    using that a by (simp add: renew_cb_def set_sub_eq)
qed

lemma renewed_lifetime_ok: "n \<in> {1800, 3600, 7200, 14400, 28800, 57600} \<Longrightarrow>
    renewed_lifetime n \<in> {1800, 3600, 7200, 14400, 28800, 57600}"
  by (auto simp: renewed_lifetime_def E2K_SUBSCRIPTION_MAX_LIFETIME_def)

lemma renew_subscription_ok:
  assumes c: "notifier_ok l R c" and a: "subscriptions c a = Some s"
    and t: "no_timer c a Renew_subscription" and m: "no_msg c a Renew_cb"
  shows "\<exists>c'. renew_subscription l a c = Inr c' \<and> notifier_ok l R c' \<and>
     (\<forall>b. b \<noteq> a \<longrightarrow> subscriptions c' b = subscriptions c b) \<and> notification_uri c' = notification_uri c"
proof (cases "notification_uri c")
  case None
  then show ?thesis using c a by (simp add: renew_subscription_def)
next
  case (Some u)
  note s = ok_sub [OF c a]
  have "uri_valid (http l) (sub_uri s)" using s by (simp add: sub_ok_def)
  then obtain msg where msg: "subscribe_msg l u (renewed_lifetime (lifetime s)) s = Inr msg"
    by (simp add: subscribe_msg_def e2k_soup_message_new_def new_message_def Let_def)
  define s1 where "s1 = s\<lparr>lifetime := renewed_lifetime (lifetime s), renew_msg := Some (next_msg c)\<rparr>"
  define c1 where "c1 = (snd (e2k_context_queue_message msg Renew_cb a c))\<lparr>subscriptions := (subscriptions c)(a \<mapsto> s1)\<rparr>"
  have u1: "notifier_ok l R c1" unfolding c1_def
    using s Some renewed_lifetime_ok [of "lifetime s"]
    by (intro ok_queue_message [OF c a m]) (simp_all add: sub_ok_def s1_def)
  have a1: "subscriptions c1 a = Some s1" by (simp add: c1_def)
  have t1: "no_timer c1 a Renew_subscription" using t by (simp add: c1_def)
  let ?ms = "(renewed_lifetime (lifetime s) - 60) * 1000"
  let ?c = "(snd (g_timeout_add ?ms Renew_subscription a c1))
      \<lparr>subscriptions := (subscriptions c1)(a \<mapsto> s1\<lparr>renew_timeout := next_timer c1\<rparr>)\<rparr>"
  have "notification_uri c1 = Some u" using Some by (simp add: c1_def e2k_context_queue_message_def)
  then have "notifier_ok l R ?c"
    using ok_next_timer [OF u1] ok_sub [OF u1 a1]
    by (intro ok_add_timeout [OF u1 a1 t1]) (simp_all add: sub_ok_def)
  moreover have "renew_subscription l a c = Inr ?c"
    using a Some msg
    by (simp add: renew_subscription_def Let_def split_beta set_sub_def c1_def s1_def g_timeout_add_def
        e2k_context_queue_message_def)
  ultimately show ?thesis by (simp add: c1_def g_timeout_add_def e2k_context_queue_message_def)
qed

lemma no_handles:
  assumes c: "notifier_ok l R c" and a: "subscriptions c a = Some s"
  shows "timer_field k s = None \<Longrightarrow> no_timer c a k" "msg_field h s = None \<Longrightarrow> no_msg c a h"
  using owned_field [OF ok_parts(4) [OF c]] owned_field [OF ok_parts(5) [OF c]] a by (fastforce simp: idle_def)+

lemma renew_sub_list_ok:
  "notifier_ok l R c \<Longrightarrow> distinct as \<Longrightarrow>
     \<forall>a \<in> set as. \<exists>s. subscriptions c a = Some s \<and> renew_timeout s = 0 \<and> renew_msg s = None \<Longrightarrow>
     \<exists>c'. renew_sub_list l as c = Inr c' \<and> notifier_ok l R c'"
proof (induction as arbitrary: c)
  case (Cons a as)
  obtain s where a: "subscriptions c a = Some s" "renew_timeout s = 0" "renew_msg s = None" using Cons.prems by auto
  have "no_timer c a Renew_subscription" "no_msg c a Renew_cb" using no_handles [OF Cons.prems(1) a(1)] a by simp_all
  then obtain c' where c': "renew_subscription l a c = Inr c'" "notifier_ok l R c'"
      "\<forall>b. b \<noteq> a \<longrightarrow> subscriptions c' b = subscriptions c b"
    using renew_subscription_ok [OF Cons.prems(1) a(1)] by blast
  have "\<forall>b \<in> set as. \<exists>s. subscriptions c' b = Some s \<and> renew_timeout s = 0 \<and> renew_msg s = None"
    using Cons.prems(2,3) c'(3) by auto
  then show ?case using Cons.IH [OF c'(2)] Cons.prems(2) c'(1) by simp
qed simp

lemma tables_lists:
  assumes c: "tables_ok R c"
  shows "distinct (concat (map snd (subscriptions_by_uri c)))"
    "a \<in> set (concat (map snd (subscriptions_by_uri c))) \<Longrightarrow> \<exists>s. subscriptions c a = Some s"
proof -
  have d: "distinct (map fst (subscriptions_by_uri c))" using c by (simp add: tables_ok_def)
  have e: "distinct as" "\<forall>a \<in> set as. \<exists>sub. subscriptions c a = Some sub \<and> sub_uri sub = u"
    if "(u, as) \<in> set (subscriptions_by_uri c)" for u as
    using c map_of_is_SomeI [OF d that] unfolding tables_ok_def by blast+
  show "\<exists>s. subscriptions c a = Some s" if "a \<in> set (concat (map snd (subscriptions_by_uri c)))"
    using that e(2) by fastforce
  have "distinct (map fst es) \<Longrightarrow> set es \<subseteq> set (subscriptions_by_uri c) \<Longrightarrow> distinct (concat (map snd es))" for es
  proof (induction es)
    case (Cons x es)
    obtain u as where x: "x = (u, as)" by (cases x)
    have "set as \<inter> set bs = {}" if "(v, bs) \<in> set es" for v bs
    proof -
      have "u \<noteq> v" using Cons.prems(1) x that by force
      then show ?thesis using e(2) [of u as] e(2) [of v bs] Cons.prems(2) x that by fastforce
    qed
    then show ?case using Cons e(1) [of u as] x by fastforce
  qed simp
  then show "distinct (concat (map snd (subscriptions_by_uri c)))" using d by simp
qed

lemma got_connection_ok:
  assumes c: "notifier_ok l R c" and u: "notification_uri c = None"
  shows "\<exists>c'. got_connection l listener c = Inr c' \<and> notifier_ok l R c'"
proof (cases listener)
  case None
  then show ?thesis using c by (simp add: got_connection_def)
next
  case (Some x)
  obtain ip portno where x: "x = (ip, portno)" by (cases x)
  let ?c = "c\<lparr>notification_uri := Some (''httpu://'' @ ip @ '':'' @ fmt_u portno @ ''/'')\<rparr>"
  have quiet: "renew_timeout s = 0 \<and> renew_msg s = None" if "subscriptions c a = Some s" for a s
    using ok_sub [OF c that] u by (simp add: sub_ok_def)
  have "subs_ok l ?c" using ok_parts(3) [OF c] by (simp add: subs_ok_def sub_ok_def)
  moreover have "tables_ok R ?c" by (rule tables_cong [where c = c]) (use ok_parts(1) [OF c] in simp_all)
  ultimately have "notifier_ok l R ?c" using ok_parts [OF c] by (simp add: notifier_ok_def queue_ok_def)
  moreover have "\<forall>a \<in> set (concat (map snd (subscriptions_by_uri c))).
      \<exists>s. subscriptions ?c a = Some s \<and> renew_timeout s = 0 \<and> renew_msg s = None"
    using tables_lists(2) [OF ok_parts(1) [OF c]] quiet by fastforce
  ultimately have "\<exists>c'. renew_sub_list l (concat (map snd (subscriptions_by_uri c))) ?c = Inr c' \<and> notifier_ok l R c'"
    by (rule renew_sub_list_ok [OF _ tables_lists(1) [OF ok_parts(1) [OF c]]])
  then show ?thesis using Some x by (simp add: got_connection_def)
qed

section \<open>Subscribing and unsubscribing\<close>

lemma subscribe_ok:
  assumes c: "notifier_ok l {} c" and valid: "uri_valid (http l) uri" "0 \<le> interval" "interval \<le> 2000000"
  shows "\<exists>c'. e2k_context_subscribe l uri type interval cb c = Inr c' \<and> notifier_ok l {} c'"
proof -
  let ?a = "next_sub c" and ?s = "new_subscription uri type interval cb"
  let ?d = "c\<lparr>subscriptions := (subscriptions c)(?a \<mapsto> ?s), next_sub := Suc ?a,
      subscriptions_by_uri := str_insert uri (?a # subs_of_uri uri c) (subscriptions_by_uri c)\<rparr>"
  note p = ok_parts [OF c]
  have below: "a < ?a \<and> a \<in> set (subs_of_uri (sub_uri s) c)" if "subscriptions c a = Some s" for a s
    using p(1) that by (simp add: tables_ok_def)
  have free: "subscriptions c ?a = None" using below by (cases "subscriptions c ?a") auto
  have heap: "subscriptions ?d = (subscriptions c)(?a \<mapsto> ?s)" by simp
  have "owned (timer_handles (timers c)) timer_field ((subscriptions c)(?a \<mapsto> ?s)) (next_timer c)"
    using p(4) free
  proof (rule owned_new)
    show "timer_field k ?s = None" for k by (cases k) (simp_all add: new_subscription_def)
  qed
  moreover have "owned (msg_handles (async_queue c)) msg_field ((subscriptions c)(?a \<mapsto> ?s)) (next_msg c)"
    using p(5) free
  proof (rule owned_new)
    show "msg_field k ?s = None" for k by (cases k) (simp_all add: new_subscription_def)
  qed
  moreover have "sub_ok l (notification_uri c) (clock c) ?s" using valid ok_clock [OF c]
    by (simp add: sub_ok_def new_subscription_def E2K_SUBSCRIPTION_INITIAL_LIFETIME_def)
  then have "subs_ok l ?d" using p(3) by (simp add: subs_ok_def)
  moreover have "tables_ok {} ?d"
  proof -
    have lists: "subs_of_uri u ?d = (if u = uri then ?a # subs_of_uri uri c else subs_of_uri u c)" for u
      by (simp add: subs_of_uri_def table_lookup map_of_table_insert)
    have old: "distinct (subs_of_uri u c)" "b \<in> set (subs_of_uri u c) \<Longrightarrow> \<exists>s. subscriptions c b = Some s \<and> sub_uri s = u"
      for b u using p(1) unfolding tables_ok_def subs_of_uri_def table_lookup by (auto split: option.splits)
    have fresh: "b \<noteq> ?a" if "b \<in> set (subs_of_uri u c)" for b u using old(2) [OF that] free by auto
    show ?thesis unfolding tables_ok_def
    proof (intro conjI allI impI)
      fix i a assume "map_of (subscriptions_by_id ?d) i = Some a"
      then have "\<exists>s. subscriptions c a = Some s \<and> sub_id s = Some i" using p(1) by (simp add: tables_ok_def)
      then show "\<exists>sub. subscriptions ?d a = Some sub \<and> sub_id sub = Some i" using free by auto
    next
      fix u as assume "map_of (subscriptions_by_uri ?d) u = Some as"
      then have as: "as = subs_of_uri u ?d" by (simp add: subs_of_uri_def table_lookup)
      show "distinct as" unfolding as lists using old(1) fresh by auto
      show "\<forall>a \<in> set as. \<exists>sub. subscriptions ?d a = Some sub \<and> sub_uri sub = u"
      proof
        fix a assume "a \<in> set as"
        then consider "a = ?a" "u = uri" | "a \<in> set (subs_of_uri u c)" unfolding as lists by (auto split: if_splits)
        then show "\<exists>sub. subscriptions ?d a = Some sub \<and> sub_uri sub = u"
          by cases (use old(2) fresh in \<open>auto simp: new_subscription_def\<close>)
      qed
    next
      fix a sub assume "subscriptions ?d a = Some sub"
      then consider "a = ?a" "sub = ?s" | "a \<noteq> ?a" "subscriptions c a = Some sub" by (auto split: if_splits)
      then have "a < Suc ?a \<and> a \<in> set (subs_of_uri (sub_uri sub) ?d)"
        unfolding lists by cases (use below [of a sub] in \<open>auto simp: new_subscription_def less_SucI\<close>)
      then show "a < next_sub ?d" "a \<in> set (subs_of_uri (sub_uri sub) ?d) \<longleftrightarrow> a \<notin> {}" by simp_all
    qed (use p(1) in \<open>simp add: tables_ok_def distinct_table_insert\<close>)
  qed
  ultimately have d: "notifier_ok l {} ?d" using p(2) by (simp add: notifier_ok_def queue_ok_def)
  have "no_timer ?d ?a Renew_subscription" "no_msg ?d ?a Renew_cb"
    using no_handles [OF d, of ?a ?s] by (simp_all add: new_subscription_def)
  then show ?thesis using renew_subscription_ok [OF d, of ?a ?s]
    by (auto simp: e2k_context_subscribe_def Let_def)
qed

lemma find_queued:
  assumes c: "notifier_ok l R c" and f: "find (\<lambda>q. queued_id q = m) (async_queue c) = Some q"
    and k: "queued_callback q \<noteq> Unsubscribed"
  shows "(m, queued_sub q, queued_callback q) \<in> msg_handles (async_queue c)"
proof -
  have "q \<in> set (async_queue c)" "queued_id q = m" using f by (auto simp: find_Some_iff)
  then show ?thesis using k unfolding msg_handles_def by (intro image_eqI [where x = q]) simp_all
qed

lemma ok_take_message:
  fixes m :: nat
  assumes c: "notifier_ok l R c"
  defines "d \<equiv> c\<lparr>async_queue := filter (\<lambda>q. queued_id q \<noteq> m) (async_queue c)\<rparr>"
  shows "notifier_ok l R d"
    "(m, a, k) \<in> msg_handles (async_queue c) \<Longrightarrow>
       \<exists>s. subscriptions d a = Some s \<and> msg_field k s = Some m \<and> no_msg d a k"
proof -
  note p = ok_parts [OF c]
  have "tables_ok R d" unfolding d_def by (rule tables_cong [where c = c]) (use p(1) in simp_all)
  moreover have "owned (msg_handles (async_queue d)) msg_field (subscriptions c) (next_msg c)"
    using p(5) by (rule owned_subset) (auto simp: d_def)
  ultimately show "notifier_ok l R d"
    using p by (auto simp: notifier_ok_def queue_ok_def subs_ok_def d_def distinct_map_filter)
  assume "(m, a, k) \<in> msg_handles (async_queue c)"
  then obtain s where s: "subscriptions c a = Some s" "msg_field k s = Some m" using owned_field [OF p(5)] by blast
  have "no_msg d a k" using owned_idle [OF p(5) s(1), of k] s(2) by (simp add: d_def)
  then show "\<exists>s. subscriptions d a = Some s \<and> msg_field k s = Some m \<and> no_msg d a k" using s by (simp add: d_def)
qed

text \<open>
  Cancelling when no message of the kind is there: at most the answer to an UNSUBSCRIBE is given up.
\<close>

lemma cancel_message_idle:
  assumes c: "notifier_ok l R c" and a: "subscriptions c a = Some s" and n: "no_msg c a k"
  shows "\<exists>qs. cancel_message l (msg_field k s) c = Inr (c\<lparr>async_queue := qs\<rparr>) \<and> notifier_ok l R (c\<lparr>async_queue := qs\<rparr>) \<and>
     (\<forall>b j. no_msg c b j \<longrightarrow> no_msg (c\<lparr>async_queue := qs\<rparr>) b j)"
proof -
  show ?thesis
  proof (cases "cancel_message l (msg_field k s) c = Inr c")
    case True
    then show ?thesis using c by (intro exI [of _ "async_queue c"]) simp
  next
    case False
    then obtain m q where 2: "msg_field k s = Some m" "find (\<lambda>q. queued_id q = m) (async_queue c) = Some q"
        "cancel_reaches l" "queued_sent q"
      by (auto simp: cancel_message_def finish_message_def split: option.splits if_splits)
    have k: "queued_callback q = Unsubscribed"
    proof (rule ccontr)
      assume "queued_callback q \<noteq> Unsubscribed"
      note h = find_queued [OF c 2(2) this]
      then show False using owned_unique [OF ok_parts(5) [OF c] h a 2(1)] n by (simp add: idle_def)
    qed
    let ?qs = "filter (\<lambda>q. queued_id q \<noteq> m) (async_queue c)"
    have "cancel_message l (msg_field k s) c = Inr (c\<lparr>async_queue := ?qs\<rparr>)"
      using 2 k by (simp add: cancel_message_def finish_message_def run_callback_def)
    then show ?thesis using ok_take_message(1) [OF c, of m]
      by (intro exI [of _ ?qs]) (auto simp: idle_def)
  qed
qed

lemma remove_timeout_simps [simp]:
  "subscriptions (remove_timeout n c) = subscriptions c"
  "subscriptions_by_id (remove_timeout n c) = subscriptions_by_id c"
  "subscriptions_by_uri (remove_timeout n c) = subscriptions_by_uri c"
  by (simp_all add: remove_timeout_def g_source_remove_def)

lemma free_subscription_ok:
  assumes c: "notifier_ok l R c" and a: "subscriptions c a = Some s" and R: "a \<in> R"
    and quiet: "no_msg c a Renew_cb" "no_msg c a Polled"
    and noid: "\<And>i. map_of (subscriptions_by_id c) i \<noteq> Some a"
  shows "\<exists>c'. free_subscription l a c = Inr c' \<and> notifier_ok l R c' \<and>
     subscriptions c' = (subscriptions c)(a := None) \<and> subscriptions_by_id c' = subscriptions_by_id c \<and>
     subscriptions_by_uri c' = subscriptions_by_uri c \<and> (\<forall>b j. no_msg c b j \<longrightarrow> no_msg c' b j)"
proof -
  have tf: "timer_field Renew_subscription s = (if renew_timeout s = 0 then None else Some (renew_timeout s))" by simp
  define c1 where "c1 = remove_timeout (renew_timeout s) c"
  note r1 = ok_remove_timeout [OF c a tf, folded c1_def]
  have a1: "subscriptions c1 a = Some s" using r1(5) a by simp
  obtain q2 where x2: "cancel_message l (renew_msg s) c1 = Inr (c1\<lparr>async_queue := q2\<rparr>)"
      "notifier_ok l R (c1\<lparr>async_queue := q2\<rparr>)" "\<And>b j. no_msg c1 b j \<Longrightarrow> no_msg (c1\<lparr>async_queue := q2\<rparr>) b j"
    using cancel_message_idle [OF r1(1) a1 r1(4) [OF quiet(1)]] by auto
  define c2 where "c2 = c1\<lparr>async_queue := q2\<rparr>"
  have a2: "subscriptions c2 a = Some s" using a1 by (simp add: c2_def)
  have tf2: "timer_field Timeout_notification s = (if poll_timeout s = 0 then None else Some (poll_timeout s))" by simp
  define c3 where "c3 = remove_timeout (poll_timeout s) c2"
  note r3 = ok_remove_timeout [OF x2(2) [folded c2_def] a2 tf2, folded c3_def]
  have a3: "subscriptions c3 a = Some s" using r3(5) a2 by simp
  have tf3: "timer_field Belated_notification s =
      (if notification_timeout s = 0 then None else Some (notification_timeout s))" by simp
  define c4 where "c4 = remove_timeout (notification_timeout s) c3"
  note r4 = ok_remove_timeout [OF r3(1) a3 tf3, folded c4_def]
  have a4: "subscriptions c4 a = Some s" using r4(5) a3 by simp
  have keep: "no_msg c4 b j" if "no_msg c b j" for b j
    using r4(4) [OF r3(4) [OF x2(3) [OF r1(4) [OF that], folded c2_def]]] .
  obtain q5 where x5: "cancel_message l (poll_msg s) c4 = Inr (c4\<lparr>async_queue := q5\<rparr>)"
      "notifier_ok l R (c4\<lparr>async_queue := q5\<rparr>)" "\<And>b j. no_msg c4 b j \<Longrightarrow> no_msg (c4\<lparr>async_queue := q5\<rparr>) b j"
    using cancel_message_idle [OF r4(1) a4 keep [OF quiet(2)]] by auto
  define c5 where "c5 = c4\<lparr>async_queue := q5\<rparr>"
  note ok5 = x5(2) [folded c5_def]
  have a5: "subscriptions c5 a = Some s" using a4 by (simp add: c5_def)
  let ?d = "c5\<lparr>subscriptions := (subscriptions c5)(a := None)\<rparr>"
  have x2': "cancel_message l (renew_msg s) (remove_timeout (renew_timeout s) c) = Inr c2"
    and x5': "cancel_message l (poll_msg s) (remove_timeout (notification_timeout s) (remove_timeout (poll_timeout s) c2)) = Inr c5"
    using x2(1) x5(1) by (simp_all only: c1_def c2_def c3_def c4_def c5_def)
  have run: "free_subscription l a c = Inr ?d"
    unfolding free_subscription_def using a a2 a5 by (simp add: x2' x5')
  have tm: "timers c2 = timers c1" "timers c5 = timers c4" by (simp_all add: c2_def c5_def)
  have t: "no_timer c5 a k" for k
  proof (cases k)
    case Renew_subscription
    have "no_timer c2 a Renew_subscription" using r1(2) tm by simp
    then show ?thesis using r3(3) r4(3) tm Renew_subscription by simp
  next
    case Timeout_notification
    then show ?thesis using r3(2) r4(3) tm by simp
  next
    case Belated_notification
    then show ?thesis using r4(2) tm by simp
  qed
  have keep5: "no_msg c5 b j" if "no_msg c b j" for b j using x5(3) [OF keep [OF that]] by (simp add: c5_def)
  have m: "no_msg c5 a k" for k
  proof (cases k)
    case Unsubscribed
    then show ?thesis by (auto simp: idle_def msg_handles_def)
  qed (use keep5 quiet in simp_all)
  have ids: "subscriptions_by_id c5 = subscriptions_by_id c" "subscriptions_by_uri c5 = subscriptions_by_uri c"
    by (simp_all add: c1_def c2_def c3_def c4_def c5_def)
  note p = ok_parts [OF ok5]
  have uri: "subs_of_uri u ?d = subs_of_uri u c5" for u by (simp add: subs_of_uri_def)
  have notin: "a \<notin> set (subs_of_uri u c5)" for u
    using p(1) a5 R ok_list(1) [OF ok5, of a u] by (auto simp: tables_ok_def)
  have "tables_ok R ?d" unfolding tables_ok_def
  proof (intro conjI allI impI)
    fix i b assume "map_of (subscriptions_by_id ?d) i = Some b"
    then show "\<exists>sub. subscriptions ?d b = Some sub \<and> sub_id sub = Some i"
      using p(1) noid [of i] ids by (auto simp: tables_ok_def)
  next
    fix u as assume "map_of (subscriptions_by_uri ?d) u = Some as"
    then have as: "as = subs_of_uri u c5" by (simp add: subs_of_uri_def table_lookup)
    have l: "distinct (subs_of_uri u c5)" "\<forall>b \<in> set (subs_of_uri u c5). \<exists>sub. subscriptions c5 b = Some sub \<and> sub_uri sub = u"
      using p(1) unfolding tables_ok_def subs_of_uri_def table_lookup by (auto split: option.splits)
    show "distinct as" using l as by simp
    show "\<forall>b \<in> set as. \<exists>sub. subscriptions ?d b = Some sub \<and> sub_uri sub = u"
    proof
      fix b assume "b \<in> set as"
      then show "\<exists>sub. subscriptions ?d b = Some sub \<and> sub_uri sub = u"
        using l(2) notin [of u] by (cases "b = a") (auto simp: as)
    qed
  qed (use p(1) in \<open>auto simp: tables_ok_def subs_of_uri_def split: if_splits\<close>)
  moreover have "owned (timer_handles (timers ?d)) timer_field (subscriptions ?d) (next_timer ?d)"
    using owned_free [OF p(4) t] by simp
  moreover have "owned (msg_handles (async_queue ?d)) msg_field (subscriptions ?d) (next_msg ?d)"
    using owned_free [OF p(5) m] by simp
  ultimately have "notifier_ok l R ?d" using p(2,3) by (simp add: notifier_ok_def queue_ok_def subs_ok_def)
  moreover have "(subscriptions c5)(a := None) = (subscriptions c)(a := None)"
    using r1(5) r3(5) r4(5) by (simp add: c2_def c5_def)
  ultimately show ?thesis using run ids keep5 by simp
qed

lemma ok_drop_id:
  assumes c: "notifier_ok l R c" and a: "subscriptions c a = Some s" and i: "sub_id s = Some i"
  defines "d \<equiv> c\<lparr>subscriptions_by_id := str_remove i (subscriptions_by_id c)\<rparr>"
  shows "notifier_ok l R d" "map_of (subscriptions_by_id d) j \<noteq> Some a"
proof -
  have "tables_ok R d"
    using ok_parts(1) [OF c] unfolding tables_ok_def
    by (simp add: d_def map_of_table_remove subs_of_uri_def)
  then show "notifier_ok l R d" using ok_parts [OF c] by (simp add: notifier_ok_def queue_ok_def subs_ok_def d_def)
  show "map_of (subscriptions_by_id d) j \<noteq> Some a"
    using ok_by_id [OF c, of j a] a i by (auto simp: d_def map_of_table_remove table_lookup)
qed

lemma unsubscribe_loop_ok:
  "notifier_ok l R c \<Longrightarrow> \<forall>a \<in> set as. no_msg c a Renew_cb \<and> no_msg c a Polled \<Longrightarrow> distinct as \<Longrightarrow> set as \<subseteq> R \<Longrightarrow>
     \<forall>a \<in> set as. subscriptions c a \<noteq> None \<Longrightarrow>
     \<exists>ids' c'. unsubscribe_loop l destroying as ids c = Inr (ids', c') \<and> notifier_ok l R c' \<and>
       subscriptions c' = (\<lambda>a. if a \<in> set as then None else subscriptions c a) \<and>
       subscriptions_by_uri c' = subscriptions_by_uri c"
proof (induction as arbitrary: ids c)
  case (Cons a as)
  obtain s where a: "subscriptions c a = Some s" using Cons.prems(5) by auto
  define ids1 where "ids1 = (case sub_id s of None \<Rightarrow> ids | Some i \<Rightarrow> add_id destroying ids i)"
  define c1 where "c1 = (case sub_id s of None \<Rightarrow> c
    | Some i \<Rightarrow> c\<lparr>subscriptions_by_id := str_remove i (subscriptions_by_id c)\<rparr>)"
  have c1: "notifier_ok l R c1" "\<And>j. map_of (subscriptions_by_id c1) j \<noteq> Some a"
    using ok_drop_id [OF Cons.prems(1) a] Cons.prems(1) a
    by (auto simp: c1_def split: option.splits dest: ok_by_id [OF Cons.prems(1), unfolded table_lookup])
  have same: "subscriptions c1 = subscriptions c" "subscriptions_by_uri c1 = subscriptions_by_uri c"
      "async_queue c1 = async_queue c"
    by (simp_all add: c1_def split: option.splits)
  obtain c2 where c2: "free_subscription l a c1 = Inr c2" "notifier_ok l R c2"
      "subscriptions c2 = (subscriptions c)(a := None)" "subscriptions_by_uri c2 = subscriptions_by_uri c"
      "\<forall>b j. no_msg c1 b j \<longrightarrow> no_msg c2 b j"
    using free_subscription_ok [OF c1(1) _ _ _ _ c1(2), of s] Cons.prems(2,4) a same by auto
  have step: "unsubscribe_loop l destroying (a # as) ids c = unsubscribe_loop l destroying as ids1 c2"
    using a c2(1) by (simp add: ids1_def c1_def Let_def split: option.splits)
  have live: "\<forall>b \<in> set as. subscriptions c2 b \<noteq> None" using Cons.prems(3,5) c2(3) by auto
  have "set as \<subseteq> R" "distinct as" using Cons.prems(3,4) by auto
  moreover have "\<forall>b \<in> set as. no_msg c2 b Renew_cb \<and> no_msg c2 b Polled" using Cons.prems(2) c2(5) same(3) by simp
  ultimately have "\<exists>ids' c'. unsubscribe_loop l destroying as ids1 c2 = Inr (ids', c') \<and> notifier_ok l R c' \<and>
       subscriptions c' = (\<lambda>a. if a \<in> set as then None else subscriptions c2 a) \<and>
       subscriptions_by_uri c' = subscriptions_by_uri c2"
    using Cons.IH [OF c2(2) _ _ _ live] by blast
  then
  show ?case unfolding step using c2(3,4) by (auto simp: fun_eq_iff)
qed (auto simp: fun_eq_iff)

lemma unsubscribe_ok:
  assumes c: "notifier_ok l {} c"
    and quiet: "\<forall>a \<in> set (subs_of_uri uri c). no_msg c a Renew_cb \<and> no_msg c a Polled"
  shows "\<exists>c'. e2k_context_unsubscribe l uri c = Inr c' \<and> notifier_ok l {} c' \<and>
     subscriptions c' = (\<lambda>a. if a \<in> set (subs_of_uri uri c) then None else subscriptions c a)"
proof -
  let ?as = "subs_of_uri uri c"
  let ?d = "c\<lparr>subscriptions_by_uri := str_remove uri (subscriptions_by_uri c)\<rparr>"
  note p = ok_parts [OF c]
  have list: "distinct (subs_of_uri u c)"
      "\<forall>b \<in> set (subs_of_uri u c). \<exists>sub. subscriptions c b = Some sub \<and> sub_uri sub = u" for u
    using p(1) unfolding tables_ok_def subs_of_uri_def table_lookup by (auto split: option.splits)
  have uri': "subs_of_uri u ?d = (if u = uri then [] else subs_of_uri u c)" for u
    by (simp add: subs_of_uri_def table_lookup map_of_table_remove)
  have "tables_ok (set ?as) ?d" unfolding tables_ok_def
  proof (intro conjI allI impI)
    fix u as assume "map_of (subscriptions_by_uri ?d) u = Some as"
    then have "as = subs_of_uri u c" by (simp add: map_of_table_remove subs_of_uri_def table_lookup split: if_splits)
    then show "distinct as" "\<forall>a \<in> set as. \<exists>sub. subscriptions ?d a = Some sub \<and> sub_uri sub = u"
      using list by simp_all
  next
    fix a sub assume "subscriptions ?d a = Some sub"
    then have "subscriptions c a = Some sub" by simp
    then have "a < next_sub c" "a \<in> set (subs_of_uri (sub_uri sub) c)" "a \<in> set ?as \<longleftrightarrow> sub_uri sub = uri"
      using p(1) list(2) [of uri] by (auto simp: tables_ok_def)
    then show "a < next_sub ?d" "a \<in> set (subs_of_uri (sub_uri sub) ?d) \<longleftrightarrow> a \<notin> set ?as"
      unfolding uri' by (simp_all split: if_splits)
  qed (use p(1) in \<open>simp_all add: tables_ok_def distinct_table_remove\<close>)
  then have d: "notifier_ok l (set ?as) ?d" using p by (simp add: notifier_ok_def queue_ok_def subs_ok_def)
  have live: "\<forall>a \<in> set ?as. subscriptions ?d a \<noteq> None" using list(2) [of uri] by fastforce
  have heap: "subscriptions ?d = subscriptions c" by simp
  obtain ids c1 where c1: "unsubscribe_loop l False ?as None ?d = Inr (ids, c1)" "notifier_ok l (set ?as) c1"
      "subscriptions c1 = (\<lambda>a. if a \<in> set ?as then None else subscriptions c a)"
    using unsubscribe_loop_ok [OF d _ list(1) order_refl live, of False None] quiet unfolding heap by auto
  have "tables_ok {} c1" using ok_parts(1) [OF c1(2)] c1(3)
    unfolding tables_ok_def by (simp split: if_splits)
  then have u: "notifier_ok l {} c1" using ok_parts [OF c1(2)] by (simp add: notifier_ok_def)
  have q: "notifier_ok l {} (snd (e2k_context_queue_message msg Unsubscribed 0 c1))" for msg
  proof -
    have "tables_ok {} (snd (e2k_context_queue_message msg Unsubscribed 0 c1))"
      by (rule tables_cong [where c = c1]) (use ok_parts(1) [OF u] in \<open>simp_all add: e2k_context_queue_message_def\<close>)
    moreover have "owned (msg_handles (async_queue c1)) msg_field (subscriptions c1) (Suc (next_msg c1))"
      using ok_parts(5) [OF u] unfolding owned_def by (meson less_SucI)
    moreover have "queue_ok (snd (e2k_context_queue_message msg Unsubscribed 0 c1))"
      using ok_parts(2) [OF u] by (auto simp: queue_ok_def e2k_context_queue_message_def less_SucI)
    ultimately show ?thesis
      using ok_parts [OF u] by (simp add: notifier_ok_def subs_ok_def e2k_context_queue_message_def)
  qed
  show ?thesis
    using c1(1,3) u q by (auto simp: e2k_context_unsubscribe_def unsubscribe_internal_def split: option.splits sum.splits)
qed

section \<open>Handing a request to the session\<close>

lemma queue_request_ok:
  assumes c: "notifier_ok l R c"
  shows "notifier_ok l R (e2k_queue_request n c)"
proof -
  let ?f = "\<lambda>q. if queued_id q = n then q\<lparr>queued_sent := True\<rparr> else q"
  have h: "msg_handles (map ?f qs) = msg_handles qs" for qs
  proof (induction qs rule: rev_induct)
    case (snoc q qs)
    then show ?case by (simp only: map_append list.map msg_handles_simps) simp
  qed simp
  have m: "map (queued_id \<circ> ?f) qs = map queued_id qs" for qs by (rule map_cong) auto
  have "tables_ok R (e2k_queue_request n c)"
    by (rule tables_cong [where c = c]) (use ok_parts(1) [OF c] in \<open>simp_all add: e2k_queue_request_def\<close>)
  then show ?thesis using ok_parts [OF c]
    by (simp add: notifier_ok_def queue_ok_def subs_ok_def e2k_queue_request_def h m) auto
qed

end
