(* ===== verification/Notifications.thy ===== *)
theory Notifications
  imports Subscription_Events
begin

text \<open>
  The notifier as a state machine: which events can happen in a state, the states they lead to, and
  the properties of these states.
\<close>

section \<open>Runs\<close>

text \<open>
  What can happen. A subscription is for a URI the HTTP library accepts, with an interval of at most
  23 days; the server gives every subscription an id, and the responses to a POLL can be parsed;
  the clock stays below \<open>2\<^sup>31\<close>. A timer never sends a second message of one kind for a subscription, and
  the client does not unsubscribe while a message for one of the subscriptions waits or is in flight.
\<close>

definition waiting :: "notifier \<Rightarrow> nat \<Rightarrow> msg_callback \<Rightarrow> bool" where
  "waiting c a k \<longleftrightarrow> list_ex (\<lambda>q. queued_sub q = a \<and> queued_callback q = k) (async_queue c)"

fun orderly_answer :: "'w libs \<Rightarrow> prop_tables \<Rightarrow> msg_callback \<Rightarrow> soup_response \<Rightarrow> bool" where
  "orderly_answer l g Renew_cb resp \<longleftrightarrow>
     \<not> E2K_HTTP_STATUS_IS_SUCCESSFUL (status_code resp) \<or> response_header resp ''Subscription-id'' \<noteq> None"
| "orderly_answer l g Polled resp \<longleftrightarrow>
     status_code resp \<noteq> E2K_HTTP_MULTI_STATUS \<or> (case response_ids l g resp of Inl _ \<Rightarrow> False | Inr _ \<Rightarrow> True)"
| "orderly_answer l g Unsubscribed resp \<longleftrightarrow> True"

fun enabled :: "'w libs \<Rightarrow> sub_event \<Rightarrow> notifier \<Rightarrow> bool" where
  "enabled l (Subscribe uri type interval cb) c \<longleftrightarrow> uri_valid (http l) uri \<and> 0 \<le> interval \<and> interval \<le> 2000000"
| "enabled l (Unsubscribe uri) c \<longleftrightarrow>
     list_all (\<lambda>a. \<not> waiting c a Renew_cb \<and> \<not> waiting c a Polled) (subs_of_uri uri c)"
| "enabled l (Connected ip portno) c \<longleftrightarrow> notification_uri c = None"
| "enabled l (Datagram buffer) c \<longleftrightarrow> length buffer < 1024"
| "enabled l (Fire n) c \<longleftrightarrow> (case find (\<lambda>t. timer_id t = n) (timers c) of
     None \<Rightarrow> False
   | Some t \<Rightarrow> (case timer_func t of
       Renew_subscription \<Rightarrow> \<not> waiting c (timer_sub t) Renew_cb
     | Timeout_notification \<Rightarrow> \<not> waiting c (timer_sub t) Polled
     | Belated_notification \<Rightarrow> True))"
| "enabled l (Answer m resp) c \<longleftrightarrow> (case find (\<lambda>q. queued_id q = m) (async_queue c) of
     None \<Rightarrow> False
   | Some q \<Rightarrow> queued_sent q \<and> orderly_answer l (known_props c) (queued_callback q) resp)"
| "enabled l (Queue_request m) c \<longleftrightarrow> True"
| "enabled l (Tick n) c \<longleftrightarrow> clock c + int n < 2 ^ 31"

inductive reached :: "'w libs \<Rightarrow> notifier \<Rightarrow> bool" for l :: "'w libs" where
  start: "0 \<le> now \<Longrightarrow> now < 2 ^ 31 \<Longrightarrow> reached l (e2k_context_init g now)"
| event: "reached l c \<Longrightarrow> enabled l e c \<Longrightarrow> handle l e c = Inr c' \<Longrightarrow> reached l c'"

section \<open>The invariant along a run\<close>

lemma init_ok: "0 \<le> now \<Longrightarrow> now < 2 ^ 31 \<Longrightarrow> notifier_ok l {} (e2k_context_init g now)"
  by (simp add: notifier_ok_def tables_ok_def queue_ok_def subs_ok_def owned_def e2k_context_init_def)

lemma waiting_msg: "k \<noteq> Unsubscribed \<Longrightarrow> \<not> waiting c a k \<Longrightarrow> no_msg c a k"
  unfolding waiting_def idle_def msg_handles_def list_ex_iff by blast

lemma ok_take_timer:
  assumes c: "notifier_ok l R c" and f: "find (\<lambda>t. timer_id t = n) (timers c) = Some t"
  shows "\<exists>s. subscriptions c (timer_sub t) = Some s \<and> timer_field (timer_func t) s = Some n"
    "notifier_ok l R (g_source_remove n c)" "no_timer (g_source_remove n c) (timer_sub t) (timer_func t)"
    "subscriptions (g_source_remove n c) = subscriptions c" "async_queue (g_source_remove n c) = async_queue c"
proof -
  have t: "t \<in> set (timers c)" "timer_id t = n" using f by (auto simp: find_Some_iff)
  then have "(n, timer_sub t, timer_func t) \<in> timer_handles (timers c)"
    unfolding timer_handles_def by (intro image_eqI [where x = t]) simp_all
  then obtain s where s: "subscriptions c (timer_sub t) = Some s" "timer_field (timer_func t) s = Some n"
    using owned_field [OF ok_parts(4) [OF c]] by blast
  then show "\<exists>s. subscriptions c (timer_sub t) = Some s \<and> timer_field (timer_func t) s = Some n" by blast
  have n: "n \<noteq> 0" using s(2) by (cases "timer_func t") (auto split: if_splits)
  then have "timer_field (timer_func t) s = (if n = 0 then None else Some n)" using s(2) by simp
  from ok_remove_timeout [OF c s(1) this] n
  show "notifier_ok l R (g_source_remove n c)" "no_timer (g_source_remove n c) (timer_sub t) (timer_func t)"
    by (simp_all add: remove_timeout_def)
qed (simp_all add: g_source_remove_def)

lemma handle_ok:
  assumes c: "notifier_ok l {} c" and e: "enabled l e c"
  shows "\<exists>c'. handle l e c = Inr c' \<and> notifier_ok l {} c'"
proof (cases e)
  case (Subscribe uri type interval cb)
  then show ?thesis using subscribe_ok [OF c] e by simp
next
  case (Unsubscribe uri)
  have "\<forall>a \<in> set (subs_of_uri uri c). no_msg c a Renew_cb \<and> no_msg c a Polled"
    using e Unsubscribe by (auto simp: list_all_iff intro: waiting_msg)
  then show ?thesis using unsubscribe_ok [OF c, of uri] Unsubscribe by auto
next
  case (Queue_request m)
  then show ?thesis using queue_request_ok [OF c] by simp
next
  case (Connected ip portno)
  then show ?thesis using got_connection_ok [OF c, of "Some (ip, portno)"] e by simp
next
  case (Datagram buffer)
  then show ?thesis using do_notification_ok [OF c, of "Some buffer"] by auto
next
  case (Fire n)
  then obtain t where t: "find (\<lambda>t. timer_id t = n) (timers c) = Some t" using e by (auto split: option.splits)
  let ?c = "g_source_remove n c"
  note r = ok_take_timer [OF c t]
  obtain s where s: "subscriptions ?c (timer_sub t) = Some s" using r(1,4) by auto
  have w: "waiting ?c a k = waiting c a k" for a k by (simp add: waiting_def r(5))
  have h: "handle l e c = run_timer l t ?c" using Fire t by simp
  show ?thesis
  proof (cases "timer_func t")
    case Renew_subscription
    then have "no_msg ?c (timer_sub t) Renew_cb" using e Fire t w by (intro waiting_msg) simp_all
    then show ?thesis using renew_subscription_ok [OF r(2) s] r(3) Renew_subscription
      unfolding h run_timer_def by auto
  next
    case Timeout_notification
    then have "no_msg ?c (timer_sub t) Polled" using e Fire t w by (intro waiting_msg) simp_all
    then show ?thesis using timeout_notification_ok [OF r(2) s] r(3) Timeout_notification
      unfolding h run_timer_def by auto
  next
    case Belated_notification
    then show ?thesis using belated_notification_ok [OF r(2) s] r(3) unfolding h run_timer_def by auto
  qed
next
  case (Answer m resp)
  then obtain q where q: "find (\<lambda>q. queued_id q = m) (async_queue c) = Some q" using e by (auto split: option.splits)
  let ?c = "c\<lparr>async_queue := filter (\<lambda>q. queued_id q \<noteq> m) (async_queue c)\<rparr>"
  have d: "notifier_ok l {} ?c" by (rule ok_take_message(1) [OF c])
  have h: "handle l e c = run_callback l (queued_callback q) resp (queued_sub q) ?c"
    using Answer q e by (simp add: finish_message_def)
  have o: "orderly_answer l (known_props ?c) (queued_callback q) resp" using e Answer q by simp
  show ?thesis
  proof (cases "queued_callback q = Unsubscribed")
    case True
    then show ?thesis using d unfolding h run_callback_def by simp
  next
    case False
    obtain s where s: "subscriptions ?c (queued_sub q) = Some s" and n: "no_msg ?c (queued_sub q) (queued_callback q)"
      using ok_take_message(2) [OF c find_queued [OF c q False]] by blast
    show ?thesis
    proof (cases "queued_callback q")
      case Renew_cb
      then show ?thesis using renew_cb_ok(1) [OF d s, of resp] n o unfolding h run_callback_def by auto
    next
      case Polled
      then show ?thesis using polled_ok(1) [OF d s, of resp] n o
        unfolding h run_callback_def by (auto split: sum.splits)
    qed (use False in simp)
  qed
next
  case (Tick n)
  have "sub_ok l u (now + int n) s" if "sub_ok l u now s" for u now s using that by (auto simp: sub_ok_def)
  then have "subs_ok l (c\<lparr>clock := clock c + int n\<rparr>)" using ok_parts(3) [OF c] e Tick by (simp add: subs_ok_def)
  moreover have "tables_ok {} (c\<lparr>clock := clock c + int n\<rparr>)"
    by (rule tables_cong [where c = c]) (use ok_parts(1) [OF c] in simp_all)
  ultimately show ?thesis using ok_parts [OF c] Tick by (simp add: notifier_ok_def queue_ok_def)
qed

lemma reached_ok: "reached l c \<Longrightarrow> notifier_ok l {} c"
proof (induction rule: reached.induct)
  case (event c e c')
  then show ?case using handle_ok [of l c e] by auto
qed (rule init_ok)

section \<open>What a response to a POLL notifies\<close>

text \<open>The subscriptions that a list of ids names, whether one may be called now, and its call.\<close>

definition named :: "notifier \<Rightarrow> string list \<Rightarrow> nat set" where
  "named c ids = {a. \<exists>i \<in> set ids. str_lookup i (subscriptions_by_id c) = Some a}"

definition due :: "notifier \<Rightarrow> nat \<Rightarrow> bool" where
  "due c a \<longleftrightarrow> (case subscriptions c a of None \<Rightarrow> False
     | Some s \<Rightarrow> last_notification s + min_interval s \<le> clock c)"

definition call_of :: "notifier \<Rightarrow> nat \<Rightarrow> int \<times> string \<times> E2kContextChangeType \<times> nat" where
  "call_of c a = (let s = the (subscriptions c a) in (clock c, sub_uri s, sub_type s, sub_callback s))"

text \<open>
  How often a response that names the subscriptions with the ids calls one: a subscription that is due
  once, or, when it has no minimal interval, as often as it is named.
\<close>

definition naming :: "notifier \<Rightarrow> string list \<Rightarrow> nat \<Rightarrow> nat" where
  "naming c ids a = length (filter (\<lambda>i. str_lookup i (subscriptions_by_id c) = Some a) ids)"

definition interval_of :: "notifier \<Rightarrow> nat \<Rightarrow> int" where
  "interval_of c a = (case subscriptions c a of None \<Rightarrow> 0 | Some s \<Rightarrow> min_interval s)"

definition times_called :: "notifier \<Rightarrow> string list \<Rightarrow> nat \<Rightarrow> nat" where
  "times_called c ids a =
     (if due c a then (if 1 \<le> interval_of c a then min 1 (naming c ids a) else naming c ids a) else 0)"

text \<open>A belated call of a subscription is planned for the end of its interval.\<close>

definition planned :: "notifier \<Rightarrow> nat \<Rightarrow> bool" where
  "planned c a \<longleftrightarrow> (\<exists>t \<in> set (timers c). timer_sub t = a \<and> timer_func t = Belated_notification \<and>
     (case subscriptions c a of None \<Rightarrow> False
      | Some s \<Rightarrow> timer_ms t = (last_notification s + min_interval s - clock c) * 1000))"

lemma maybe_notification_effect:
  assumes c: "notifier_ok l R c" and a: "subscriptions c a = Some s"
    and d: "maybe_notification a c = Inr d"
  shows "calls d = calls c @ (if due c a then [call_of c a] else [])"
    "subscriptions_by_id d = subscriptions_by_id c" "clock d = clock c"
    "\<exists>s'. subscriptions d = (subscriptions c)(a \<mapsto> s') \<and> sub_uri s' = sub_uri s \<and> sub_type s' = sub_type s \<and>
       sub_callback s' = sub_callback s \<and> min_interval s' = min_interval s \<and>
       last_notification s' = (if due c a then clock c else last_notification s)"
    "\<not> due c a \<Longrightarrow> planned d a" "b \<noteq> a \<Longrightarrow> planned c b \<Longrightarrow> planned d b"
proof -
  note s = ok_sub [OF c a] and clock = ok_clock [OF c]
  define delay where "delay = notification_delay (clock c) s"
  have del: "delay = last_notification s + min_interval s - clock c" "delay \<le> 2000000"
    using s clock delay_exact [OF s] by (auto simp: delay_def sub_ok_def)
  have due: "due c a \<longleftrightarrow> \<not> delay > 0" using a del by (auto simp: due_def)
  let ?n = "notification_timeout s"
  let ?x = "remove_timeout ?n c"
  let ?late = "(snd (g_timeout_add (delay * 1000) Belated_notification a ?x))
      \<lparr>subscriptions := (subscriptions c)(a \<mapsto> s\<lparr>notification_timeout := next_timer ?x\<rparr>)\<rparr>"
  let ?now = "c\<lparr>subscriptions := (subscriptions c)(a \<mapsto> s\<lparr>last_notification := clock c\<rparr>),
      calls := calls c @ [(clock c, sub_uri s, sub_type s, sub_callback s)]\<rparr>"
  have d': "d = (if due c a then ?now else ?late)"
  proof (cases "due c a")
    case True
    then show ?thesis using d a due
      by (simp add: maybe_notification_def Let_def delay_def [symmetric] set_sub_eq call_def)
  next
    case False
    then show ?thesis using d a due del(2)
      by (simp add: maybe_notification_def Let_def delay_def [symmetric] g_timeout_add_def set_sub_def)
  qed
  show "calls d = calls c @ (if due c a then [call_of c a] else [])"
    "subscriptions_by_id d = subscriptions_by_id c" "clock d = clock c"
    using a by (simp_all add: d' call_of_def Let_def g_timeout_add_def remove_timeout_def g_source_remove_def)
  show "\<exists>s'. subscriptions d = (subscriptions c)(a \<mapsto> s') \<and> sub_uri s' = sub_uri s \<and> sub_type s' = sub_type s \<and>
       sub_callback s' = sub_callback s \<and> min_interval s' = min_interval s \<and>
       last_notification s' = (if due c a then clock c else last_notification s)"
    unfolding d' by (cases "due c a") (auto intro!: exI)
  show "planned d a" if "\<not> due c a"
    using that del by (simp add: d' planned_def g_timeout_add_def remove_timeout_def g_source_remove_def)
  assume b: "b \<noteq> a" and p: "planned c b"
  then obtain t sb where t: "t \<in> set (timers c)" "timer_sub t = b" "timer_func t = Belated_notification"
      and sb: "subscriptions c b = Some sb" "timer_ms t = (last_notification sb + min_interval sb - clock c) * 1000"
    unfolding planned_def by (auto split: option.splits)
  have "(timer_id t, b, Belated_notification) \<in> timer_handles (timers c)"
    using t unfolding timer_handles_def by (intro image_eqI [where x = t]) simp_all
  then have "?n = 0 \<or> timer_id t \<noteq> ?n"
    using owned_unique [OF ok_parts(4) [OF c], of "timer_id t" b Belated_notification a s Belated_notification] a b by auto
  then have "t \<in> set (timers d)" using t(1)
    by (auto simp: d' g_timeout_add_def remove_timeout_def g_source_remove_def)
  moreover have "subscriptions d b = Some sb" "clock d = clock c"
    using sb(1) b by (simp_all add: d' g_timeout_add_def remove_timeout_def g_source_remove_def)
  ultimately show "planned d b" using t sb(2) unfolding planned_def by auto
qed

lemma named_Cons: "named c (i # ids) =
    (case str_lookup i (subscriptions_by_id c) of None \<Rightarrow> {} | Some a \<Rightarrow> {a}) \<union> named c ids"
  by (auto simp: named_def split: option.splits)

lemma naming_Cons: "naming c (i # ids) a =
    (if str_lookup i (subscriptions_by_id c) = Some a then 1 else 0) + naming c ids a"
  by (simp add: naming_def)

lemma notify_ids_effect:
  "notifier_ok l R c \<Longrightarrow> notify_ids ids c = Inr d \<Longrightarrow>
     \<exists>called. calls d = calls c @ map (call_of c) called \<and> (\<forall>a. count_list called a = times_called c ids a) \<and>
       (\<forall>a. \<not> due c a \<and> (a \<in> named c ids \<or> planned c a) \<longrightarrow> planned d a)"
proof (induction ids arbitrary: c)
  case Nil
  then show ?case by (intro exI [of _ "[]"]) (simp add: named_def times_called_def naming_def)
next
  case (Cons i ids)
  show ?case
  proof (cases "str_lookup i (subscriptions_by_id c)")
    case None
    then have "times_called c (i # ids) = times_called c ids" by (simp add: times_called_def naming_Cons fun_eq_iff)
    then show ?thesis using Cons None by (simp add: named_Cons)
  next
    case (Some a)
    then obtain s where a: "subscriptions c a = Some s" using ok_by_id [OF Cons.prems(1)] by blast
    then obtain c1 where m: "maybe_notification a c = Inr c1" and c1: "notifier_ok l R c1"
      using maybe_notification_ok [OF Cons.prems(1)] by blast
    note e = maybe_notification_effect [OF Cons.prems(1) a m]
    obtain s' where s': "subscriptions c1 = (subscriptions c)(a \<mapsto> s')" "sub_uri s' = sub_uri s" "sub_type s' = sub_type s"
        "sub_callback s' = sub_callback s" "min_interval s' = min_interval s"
        "last_notification s' = (if due c a then clock c else last_notification s)" using e(4) by blast
    have n: "named c1 ids = named c ids" "naming c1 ids = naming c ids" by (simp_all add: named_def naming_def e(2) fun_eq_iff)
    have du: "due c1 b \<longleftrightarrow> due c b \<and> (b \<noteq> a \<or> \<not> 1 \<le> min_interval s)" for b
      using s' e(3) a by (cases "b = a") (auto simp: due_def split: option.splits)
    have iv: "interval_of c1 b = interval_of c b" for b using s' a by (simp add: interval_of_def)
    have ia: "interval_of c a = min_interval s" using a by (simp add: interval_of_def)
    have ca: "call_of c1 b = call_of c b" for b using s' e(3) a by (simp add: call_of_def)
    have "notify_ids ids c1 = Inr d" using Cons.prems(2) Some m by simp
    from Cons.IH [OF c1 this] obtain called where called: "calls d = calls c1 @ map (call_of c1) called"
        "\<forall>b. count_list called b = times_called c1 ids b"
        "\<forall>b. \<not> due c1 b \<and> (b \<in> named c1 ids \<or> planned c1 b) \<longrightarrow> planned d b" by blast
    have "map (call_of c1) called = map (call_of c) called" by (simp add: ca)
    then have "calls d = calls c @ map (call_of c) ((if due c a then [a] else []) @ called)"
      using called(1) e(1) by simp
    moreover have "count_list ((if due c a then [a] else []) @ called) b = times_called c (i # ids) b" for b
    proof (cases "b = a")
      case True
      then show ?thesis using called(2) Some by (simp add: times_called_def du iv ia n naming_Cons)
    next
      case False
      then show ?thesis using called(2) Some by (simp add: times_called_def du iv n naming_Cons)
    qed
    moreover have "planned d b" if "\<not> due c b" "b \<in> named c (i # ids) \<or> planned c b" for b
    proof -
      have "b \<in> named c1 ids \<or> planned c1 b" using that e(5,6) Some n by (cases "b = a") (auto simp: named_Cons)
      then show ?thesis using called(3) that(1) du by blast
    qed
    ultimately show ?thesis by blast
  qed
qed

section \<open>A notifier\<close>

definition sample_libs :: "bool \<Rightarrow> unit libs" where
  "sample_libs reaches =
     \<lparr>http = \<lparr>uri_valid = (\<lambda>_. True), op_cancelled = (\<lambda>_. False), transport = (\<lambda>msg w. (cancelled_response, w))\<rparr>,
      xml = \<lparr>base64_decode = (\<lambda>_. []), parse_xml = (\<lambda>s. Some
        [Elem ''multistatus'' (Some ''DAV:'') []
          [Elem ''response'' (Some ''DAV:'') []
            [Elem ''href'' (Some ''DAV:'') [] [Text ''u''],
             Elem ''subscriptionID'' (Some ''http://schemas.microsoft.com/Exchange/'') []
               [Elem ''li'' (Some ''DAV:'') [] [Text ''7'']]]]])\<rparr>,
      cancel_reaches = reaches\<rparr>"

definition poll_response :: soup_response where
  "poll_response = \<lparr>status_code = E2K_HTTP_MULTI_STATUS, response_header = (\<lambda>_. None), response_body = ''x''\<rparr>"

definition sample_sub :: "nat \<Rightarrow> nat \<Rightarrow> E2kSubscription" where
  "sample_sub poll late =
     \<lparr>sub_uri = ''u'', sub_id = Some ''7'', sub_type = E2K_CONTEXT_OBJECT_ADDED, lifetime = 3600, min_interval = 30,
      last_notification = 999980, sub_callback = 5, renew_timeout = 1, renew_msg = None, poll_timeout = poll,
      poll_msg = Some 1, notification_timeout = late\<rparr>"

text \<open>One subscription, whose change is being asked for, with more timers.\<close>

definition sample_polling :: "nat \<Rightarrow> nat \<Rightarrow> int \<Rightarrow> notifier" where
  "sample_polling poll late now =
     \<lparr>subscriptions = [0 \<mapsto> sample_sub poll late], next_sub = 1, subscriptions_by_id = [(''7'', 0)],
      subscriptions_by_uri = [(''u'', [0])], notification_uri = Some ''httpu://h:2000/'',
      timers = filter (\<lambda>t. timer_id t \<noteq> 0)
        [\<lparr>timer_id = 1, timer_ms = 3540000, timer_func = Renew_subscription, timer_sub = 0\<rparr>,
         \<lparr>timer_id = poll, timer_ms = 1000, timer_func = Timeout_notification, timer_sub = 0\<rparr>,
         \<lparr>timer_id = late, timer_ms = 10000, timer_func = Belated_notification, timer_sub = 0\<rparr>],
      next_timer = 5,
      async_queue = [\<lparr>queued_id = 1, queued_msg = \<lparr>msg_method = ''POLL'', msg_uri = ''u'', request_headers = [],
          request_type = None, request_body = [], no_redirect = False\<rparr>, queued_callback = Polled, queued_sub = 0,
          queued_sent = True\<rparr>],
      next_msg = 2, clock = now, calls = [], known_props = initial_tables\<rparr>"

lemma sample_ok:
  assumes "poll \<in> {0, 3}" "late \<in> {0, 4}" "now \<in> {1000000, 1000010}"
  shows "notifier_ok (sample_libs reaches) {} (sample_polling poll late now)"
proof -
  have heap: "subscriptions (sample_polling poll late now) = [0 \<mapsto> sample_sub poll late]" by (simp add: sample_polling_def)
  have "tables_ok {} (sample_polling poll late now)"
    by (auto simp: tables_ok_def sample_polling_def sample_sub_def subs_of_uri_def table_lookup split: if_splits)
  moreover have "queue_ok (sample_polling poll late now)" by (simp add: queue_ok_def sample_polling_def)
  moreover have "subs_ok (sample_libs reaches) (sample_polling poll late now)"
    using assms by (auto simp: subs_ok_def sub_ok_def sample_polling_def sample_sub_def sample_libs_def split: if_splits)
  moreover have "owned (timer_handles (timers (sample_polling poll late now))) timer_field
      (subscriptions (sample_polling poll late now)) (next_timer (sample_polling poll late now))"
    unfolding heap
  proof (rule ownedI)
    fix i a :: nat and k assume "(i, a, k) \<in> timer_handles (timers (sample_polling poll late now))"
    then have "a = 0 \<and> timer_field k (sample_sub poll late) = Some i"
      using assms by (auto simp: sample_polling_def timer_handles_def sample_sub_def split: if_splits)
    then show "\<exists>s. [0 \<mapsto> sample_sub poll late] a = Some s \<and> timer_field k s = Some i" by simp
  next
    fix a i :: nat and s k assume "[0 \<mapsto> sample_sub poll late] a = Some s" "timer_field k s = Some i"
    then show "i < next_timer (sample_polling poll late now)" using assms
      by (cases k) (auto simp: sample_polling_def sample_sub_def split: if_splits)
  next
    fix i a b :: nat and k s l
    assume "(i, a, k) \<in> timer_handles (timers (sample_polling poll late now))"
      "[0 \<mapsto> sample_sub poll late] b = Some s" "timer_field l s = Some i"
    then show "b = a \<and> l = k"
      using assms by (cases l) (auto simp: sample_polling_def timer_handles_def sample_sub_def split: if_splits)
  qed
  moreover have "owned (msg_handles (async_queue (sample_polling poll late now))) msg_field
      (subscriptions (sample_polling poll late now)) (next_msg (sample_polling poll late now))"
    unfolding heap
  proof (rule ownedI)
    fix i a :: nat and k assume "(i, a, k) \<in> msg_handles (async_queue (sample_polling poll late now))"
    then have "a = 0 \<and> msg_field k (sample_sub poll late) = Some i"
      by (auto simp: sample_polling_def msg_handles_def sample_sub_def)
    then show "\<exists>s. [0 \<mapsto> sample_sub poll late] a = Some s \<and> msg_field k s = Some i" by simp
  next
    fix a i :: nat and s k assume "[0 \<mapsto> sample_sub poll late] a = Some s" "msg_field k s = Some i"
    then show "i < next_msg (sample_polling poll late now)"
      by (cases k) (auto simp: sample_polling_def sample_sub_def split: if_splits)
  next
    fix i a b :: nat and k s l
    assume "(i, a, k) \<in> msg_handles (async_queue (sample_polling poll late now))"
      "[0 \<mapsto> sample_sub poll late] b = Some s" "msg_field l s = Some i"
    then show "b = a \<and> l = k"
      by (cases l) (auto simp: sample_polling_def msg_handles_def sample_sub_def split: if_splits)
  qed
  ultimately show ?thesis by (simp add: notifier_ok_def)
qed

section \<open>Properties\<close>

text \<open>
  C3. Along every run in which no message overlaps another one of its kind and the client unsubscribes
  only when no message for the subscriptions waits or is in flight, nothing that happens follows a
  pointer to a subscription that was freed, formats a null pointer or overflows: a call of the client,
  a timer, a datagram, the hand-over of a request and an answer of the server are all defined, and
  lead to a state in which every timer, every message and every entry of both tables belongs to a
  subscription that is there and knows it. The runs are those of \<open>enabled\<close>: subscriptions are for URIs
  the HTTP library accepts and have an interval from 0 to 2000000 seconds, the listener is set up once,
  a datagram is shorter than its buffer, the server sends an id with a successful answer to a SUBSCRIBE
  and answers to a POLL that can be parsed, and the clock stays below \<open>2^31\<close>. Nothing is assumed of what
  cancelling a message does.
\<close>

theorem subscriptions_safe:
  assumes "reached l c" and "enabled l e c"
  shows "\<exists>c'. handle l e c = Inr c' \<and> notifier_ok l {} c'"
  using reached_ok [OF assms(1)] assms(2) by (rule handle_ok)

definition renewed_response :: soup_response where
  "renewed_response = \<lparr>status_code = E2K_HTTP_OK, response_header = [''Subscription-id'' \<mapsto> ''7''], response_body = []\<rparr>"

lemmas first_events = e2k_context_init_def e2k_context_subscribe_def renew_subscription_def subscribe_msg_def
  new_subscription_def E2K_SUBSCRIPTION_INITIAL_LIFETIME_def renewed_lifetime_def E2K_SUBSCRIPTION_MAX_LIFETIME_def
  e2k_soup_message_new_def new_message_def e2k_context_queue_message_def g_timeout_add_def set_sub_def sub_at_def
  e2k_queue_request_def finish_message_def run_callback_def renew_cb_def renewed_response_def
  E2K_HTTP_STATUS_IS_SUCCESSFUL_def E2K_HTTP_OK_def sample_libs_def subs_of_uri_def table_lookup Let_def

text \<open>Subscribing, the request handed over and answered, and unsubscribing.\<close>

theorem subscriptions_safe_witness:
  "\<exists>c1 c2 c3 c4 c5. reached (sample_libs True) c5 \<and>
     handle (sample_libs True) (Connected ''h'' 2000) (e2k_context_init initial_tables 1000000) = Inr c1 \<and>
     handle (sample_libs True) (Subscribe ''u'' E2K_CONTEXT_OBJECT_MOVED 30 5) c1 = Inr c2 \<and>
     handle (sample_libs True) (Queue_request 0) c2 = Inr c3 \<and>
     handle (sample_libs True) (Answer 0 renewed_response) c3 = Inr c4 \<and>
     handle (sample_libs True) (Unsubscribe ''u'') c4 = Inr c5 \<and> subscriptions c4 0 \<noteq> None \<and> subscriptions c5 0 = None"
proof -
  let ?l = "sample_libs True" and ?c = "e2k_context_init initial_tables 1000000"
  have r: "reached ?l ?c" by (rule reached.start) simp_all
  have e: "enabled ?l (Connected ''h'' 2000) ?c" by (simp add: e2k_context_init_def)
  obtain c1 where c1: "handle ?l (Connected ''h'' 2000) ?c = Inr c1" using subscriptions_safe [OF r e] by blast
  note r1 = reached.event [OF r e c1]
  have e1: "enabled ?l (Subscribe ''u'' E2K_CONTEXT_OBJECT_MOVED 30 5) c1" by (simp add: sample_libs_def)
  obtain c2 where c2: "handle ?l (Subscribe ''u'' E2K_CONTEXT_OBJECT_MOVED 30 5) c1 = Inr c2"
    using subscriptions_safe [OF r1 e1] by blast
  note r2 = reached.event [OF r1 e1 c2]
  have e2: "enabled ?l (Queue_request 0) c2" by simp
  obtain c3 where c3: "handle ?l (Queue_request 0) c2 = Inr c3" using subscriptions_safe [OF r2 e2] by blast
  note r3 = reached.event [OF r2 e2 c3]
  have c1': "c1 = ?c\<lparr>notification_uri := Some ''httpu://h:2000/''\<rparr>"
  proof -
    have "fmt_u 2000 = ''2000''" by code_simp
    then show ?thesis using c1 by (simp add: got_connection_def e2k_context_init_def)
  qed
  have "enabled ?l (Answer 0 renewed_response) c3"
    using c2 c3 unfolding c1' by (auto simp: first_events)
  note e3 = this
  obtain c4 where c4: "handle ?l (Answer 0 renewed_response) c3 = Inr c4" using subscriptions_safe [OF r3 e3] by blast
  note r4 = reached.event [OF r3 e3 c4]
  have s: "async_queue c4 = [] \<and> subs_of_uri ''u'' c4 = [0] \<and> subscriptions c4 0 \<noteq> None"
    using c2 c3 c4 unfolding c1' by (auto simp: first_events)
  have e4: "enabled ?l (Unsubscribe ''u'') c4" using s by (simp add: waiting_def)
  obtain c5 where c5: "handle ?l (Unsubscribe ''u'') c4 = Inr c5" "notifier_ok ?l {} c5"
    using subscriptions_safe [OF r4 e4] by blast
  have "no_msg c4 0 k" for k using s by (simp add: idle_def)
  then have "subscriptions c5 0 = None" using unsubscribe_ok [OF reached_ok [OF r4], of "''u''"] s c5(1) by auto
  then show ?thesis using c1 c2 c3 c4 c5(1) s reached.event [OF r4 e4 c5(1)] by blast
qed

text \<open>
  C6. In a state with the invariant of the notifier, the answer to a POLL that can be parsed calls back the subscriptions that it names, that are known and whose
  interval since the last call is over, each exactly once however often it is named, or as often as it
  is named when it was made without a minimal interval; with the URI, the type and the data it was
  made with, and nobody else. Each other subscription it names has its belated call planned for the
  end of its interval.
\<close>

theorem poll_notifies:
  assumes "notifier_ok l {} c" and "find (\<lambda>q. queued_id q = m) (async_queue c) = Some q" and "queued_sent q"
    and "queued_callback q = Polled" and "status_code resp = E2K_HTTP_MULTI_STATUS"
    and "response_ids l (known_props c) resp = Inr (ids, g)"
  shows "\<exists>d called. handle l (Answer m resp) c = Inr d \<and> calls d = calls c @ map (call_of c) called \<and>
     (\<forall>a. count_list called a = times_called c ids a) \<and>
     (\<forall>a \<in> named c ids. due c a \<or> planned d a)"
proof -
  let ?c = "c\<lparr>async_queue := filter (\<lambda>q. queued_id q \<noteq> m) (async_queue c)\<rparr>" and ?a = "queued_sub q"
  have k: "queued_callback q \<noteq> Unsubscribed" using assms(4) by simp
  have ok: "notifier_ok l {} ?c" by (rule ok_take_message(1) [OF assms(1)])
  obtain s where s: "subscriptions ?c ?a = Some s" and n: "no_msg ?c ?a Polled"
    using ok_take_message(2) [OF assms(1) find_queued [OF assms(1,2) k]] assms(4) by auto
  let ?x = "?c\<lparr>subscriptions := (subscriptions ?c)(?a \<mapsto> s\<lparr>poll_msg := None\<rparr>), known_props := g\<rparr>"
  have "notifier_ok l {} (?c\<lparr>subscriptions := (subscriptions ?c)(?a \<mapsto> s\<lparr>poll_msg := None\<rparr>)\<rparr>)"
    using ok_sub [OF ok s] n by (intro ok_update [OF ok s, where h = Polled]) (simp_all add: sub_ok_def)
  then have x: "notifier_ok l {} ?x" using ok_known_props by fastforce
  obtain d where d: "notify_ids ids ?x = Inr d" using notify_ids_ok [OF x] by blast
  have h: "handle l (Answer m resp) c = Inr d"
    using assms(2-6) s d by (simp add: finish_message_def run_callback_def polled_def set_sub_eq)
  have same: "due ?x a = due c a" "named ?x ids = named c ids" "naming ?x ids a = naming c ids a"
      "interval_of ?x a = interval_of c a" "a \<in> named c ids \<Longrightarrow> call_of ?x a = call_of c a" for a
    using s ok_by_id [OF assms(1)]
    by (auto simp: due_def named_def naming_def interval_of_def call_of_def Let_def split: option.splits)
  obtain called where called: "calls d = calls ?x @ map (call_of ?x) called" "\<forall>a. count_list called a = times_called ?x ids a"
      "\<forall>a. \<not> due ?x a \<and> (a \<in> named ?x ids \<or> planned ?x a) \<longrightarrow> planned d a"
    using notify_ids_effect [OF x d] by blast
  have cnt: "count_list called a = times_called c ids a" for a using called(2) same by (simp add: times_called_def)
  have "a \<in> named c ids" if "a \<in> set called" for a
  proof -
    have "times_called c ids a \<noteq> 0" using that cnt [of a] by (metis count_list_0_iff)
    then have "naming c ids a \<noteq> 0" by (auto simp: times_called_def split: if_splits)
    then have "filter (\<lambda>i. str_lookup i (subscriptions_by_id c) = Some a) ids \<noteq> []" by (auto simp: naming_def)
    then show ?thesis by (auto simp: named_def filter_empty_conv)
  qed
  then have "map (call_of ?x) called = map (call_of c) called" using same(5) by (intro map_cong) auto
  then have "calls d = calls c @ map (call_of c) called" using called(1) by simp
  then show ?thesis using h cnt called(3) same by auto
qed

theorem poll_notifies_witness:
  "\<exists>d. handle (sample_libs True) (Answer 1 poll_response) (sample_polling 0 0 1000010) = Inr d \<and>
     calls d = [(1000010, ''u'', E2K_CONTEXT_OBJECT_ADDED, 5)]"
proof -
  let ?l = "sample_libs True" and ?c = "sample_polling 0 0 1000010"
  have "case response_ids ?l initial_tables poll_response of Inr (ids, g) \<Rightarrow> ids = [''7''] | Inl _ \<Rightarrow> False"
    by code_simp
  then obtain g where g: "response_ids ?l (known_props ?c) poll_response = Inr ([''7''], g)"
    by (auto simp: sample_polling_def split: sum.splits)
  obtain q where q: "find (\<lambda>q. queued_id q = 1) (async_queue ?c) = Some q" "queued_sent q" "queued_callback q = Polled"
    by (simp add: sample_polling_def)
  have ok: "notifier_ok ?l {} ?c" by (rule sample_ok) simp_all
  have st: "status_code poll_response = E2K_HTTP_MULTI_STATUS" by (simp add: poll_response_def)
  obtain d called where d: "handle ?l (Answer 1 poll_response) ?c = Inr d"
      "calls d = calls ?c @ map (call_of ?c) called" "\<forall>a. count_list called a = times_called ?c [''7''] a"
    using poll_notifies [OF ok q st g] by blast
  have cnt: "count_list called a = (if a = 0 then 1 else 0)" for a
    using d(3) by (simp add: times_called_def naming_def due_def interval_of_def sample_polling_def sample_sub_def table_lookup)
  then have "set called \<subseteq> {0}" by (metis count_list_0_iff insertI1 subsetI)
  then have "length called = 1" using sum_count_set [of called "{0}"] cnt by simp
  then have "called = [0]" using \<open>set called \<subseteq> {0}\<close> by (auto simp: length_Suc_conv)
  then show ?thesis using d(1,2) by (simp add: call_of_def sample_polling_def sample_sub_def)
qed

lemma string_match: "hash_match (=) hash (k :: string) e \<longleftrightarrow> fst e = k"
  by (auto simp: hash_match_def)

lemmas run_simps = string_match table_lookup subs_of_uri_def hash_remove_def set_sub_def sub_at_def
  remove_timeout_def g_source_remove_def g_timeout_add_def e2k_context_queue_message_def
  finish_message_def cancel_message_def run_callback_def

lemmas run_defs = sample_polling_def sample_sub_def sample_libs_def e2k_context_unsubscribe_def
  unsubscribe_internal_def free_subscription_def add_id_def e2k_soup_message_new_def new_message_def run_timer_def
  timeout_notification_def polled_def cancelled_response_def http_status_defs Let_def

lemma overlapping_polls:
  "\<exists>d q. handle_all (sample_libs True) [Fire 3, Unsubscribe ''u''] (sample_polling 3 0 1000000) = Inr d \<and>
     subscriptions d 0 = None \<and> find (\<lambda>q. queued_id q = 1) (async_queue d) = Some q \<and> queued_sub q = 0 \<and>
     queued_callback q = Polled \<and> queued_sent q"
  by (simp add: run_simps run_defs)

lemma uncancelled_poll:
  "\<exists>d q. handle_all (sample_libs False) [Unsubscribe ''u''] (sample_polling 0 0 1000000) = Inr d \<and>
     subscriptions d 0 = None \<and> find (\<lambda>q. queued_id q = 1) (async_queue d) = Some q \<and> queued_sub q = 0 \<and>
     queued_callback q = Polled \<and> queued_sent q"
  by (simp add: run_simps run_defs)

lemma answer_freed:
  assumes "find (\<lambda>q. queued_id q = m) (async_queue d) = Some q" "queued_callback q = Polled" "queued_sent q"
    and "subscriptions d (queued_sub q) = None"
  shows "handle l (Answer m resp) d = Inl Undefined"
  using assms by (simp add: finish_message_def run_callback_def polled_def sub_at_def)

lemma handle_all_append: "handle_all l (es @ fs) c = ok_bind (handle_all l es c) (handle_all l fs)"
  by (induction es arbitrary: c) (simp_all add: ok_bind_def split: sum.splits)

text \<open>
  C25. When a POLL is still unanswered and the timer of the same subscription sends another one, the
  subscription forgets the first: freeing it cancels the second at most, and the answer to the first
  follows the freed pointer. When cancelling on the synchronous session, which is where the code
  looks, does not end messages of the asynchronous one, a single unanswered POLL is enough.
\<close>

theorem freed_subscription_used:
  "(\<exists>c. notifier_ok (sample_libs True) {} c \<and>
      (\<exists>d. handle_all (sample_libs True) [Fire 3, Unsubscribe ''u''] c = Inr d) \<and>
      handle_all (sample_libs True) [Fire 3, Unsubscribe ''u'', Answer 1 resp] c = Inl Undefined) \<and>
   (\<exists>c. notifier_ok (sample_libs False) {} c \<and>
      handle_all (sample_libs False) [Unsubscribe ''u'', Answer 1 resp] c = Inl Undefined)"
proof -
  obtain d q where d: "handle_all (sample_libs True) [Fire 3, Unsubscribe ''u''] (sample_polling 3 0 1000000) = Inr d"
    and q: "find (\<lambda>q. queued_id q = 1) (async_queue d) = Some q" "queued_callback q = Polled" "queued_sent q"
      "subscriptions d (queued_sub q) = None" using overlapping_polls by metis
  have two: "handle_all (sample_libs True) [Fire 3, Unsubscribe ''u'', Answer 1 resp] (sample_polling 3 0 1000000) = Inl Undefined"
    using handle_all_append [of "sample_libs True" "[Fire 3, Unsubscribe ''u'']" "[Answer 1 resp]"] d answer_freed [OF q, of "sample_libs True" resp]
    by (simp del: handle.simps)
  obtain d' q' where d': "handle_all (sample_libs False) [Unsubscribe ''u''] (sample_polling 0 0 1000000) = Inr d'"
    and q': "find (\<lambda>q. queued_id q = 1) (async_queue d') = Some q'" "queued_callback q' = Polled" "queued_sent q'"
      "subscriptions d' (queued_sub q') = None" using uncancelled_poll by metis
  have one: "handle_all (sample_libs False) [Unsubscribe ''u'', Answer 1 resp] (sample_polling 0 0 1000000) = Inl Undefined"
    using handle_all_append [of "sample_libs False" "[Unsubscribe ''u'']" "[Answer 1 resp]"] d' answer_freed [OF q', of "sample_libs False" resp]
    by (simp del: handle.simps)
  have ok: "notifier_ok (sample_libs True) {} (sample_polling 3 0 1000000)"
    "notifier_ok (sample_libs False) {} (sample_polling 0 0 1000000)" by (rule sample_ok; simp)+
  show ?thesis using d one two ok by blast
qed

text \<open>
  C27. The interval between two calls of a subscription is not kept: a belated call does not count as
  its last one, so when the server names the subscription again it is called at once, in the same
  second if need be.
\<close>

theorem min_interval_violated:
  assumes "notifier_ok l {} c" and "find (\<lambda>t. timer_id t = n) (timers c) = Some t"
    and "timer_func t = Belated_notification" and "due c (timer_sub t)"
  shows "\<exists>d e. handle l (Fire n) c = Inr d \<and> maybe_notification (timer_sub t) d = Inr e \<and> clock e = clock c \<and>
     calls e = calls c @ [call_of c (timer_sub t), call_of c (timer_sub t)]"
proof -
  let ?c = "g_source_remove n c" and ?a = "timer_sub t"
  note r = ok_take_timer [OF assms(1,2)]
  obtain s where s: "subscriptions c ?a = Some s" using r(1) by blast
  have s': "subscriptions ?c ?a = Some s" using s r(4) by simp
  let ?s = "s\<lparr>notification_timeout := 0\<rparr>"
  let ?d = "call s (?c\<lparr>subscriptions := (subscriptions ?c)(?a \<mapsto> ?s)\<rparr>)"
  have h: "handle l (Fire n) c = Inr ?d"
    using assms(2,3) s' by (simp add: run_timer_def belated_notification_def set_sub_eq)
  have "\<not> notification_delay (clock c) s > 0"
    using assms(4) s delay_exact [OF ok_sub [OF assms(1) s]] ok_clock [OF assms(1)] by (simp add: due_def)
  then have "\<exists>e. maybe_notification ?a ?d = Inr e \<and> clock e = clock c \<and> calls e = calls c @ [call_of c ?a, call_of c ?a]"
    using s s' by (simp add: maybe_notification_def call_def g_source_remove_def notification_delay_def set_sub_def call_of_def)
  then show ?thesis using h by blast
qed

theorem min_interval_violated_witness:
  "\<exists>d e. handle (sample_libs True) (Fire 4) (sample_polling 0 4 1000010) = Inr d \<and> maybe_notification 0 d = Inr e \<and>
     calls e = [(1000010, ''u'', E2K_CONTEXT_OBJECT_ADDED, 5), (1000010, ''u'', E2K_CONTEXT_OBJECT_ADDED, 5)]"
proof -
  let ?c = "sample_polling 0 4 1000010"
  have ok: "notifier_ok (sample_libs True) {} ?c" by (rule sample_ok) simp_all
  obtain t where t: "find (\<lambda>t. timer_id t = 4) (timers ?c) = Some t" "timer_func t = Belated_notification" "timer_sub t = 0"
    by (simp add: sample_polling_def)
  have "due ?c (timer_sub t)" by (simp add: due_def t(3) sample_polling_def sample_sub_def)
  then show ?thesis using min_interval_violated [OF ok t(1,2)]
    by (auto simp: t(3) call_of_def sample_polling_def sample_sub_def)
qed

text \<open>From 2038 on the delay of a first notification does not fit in an \<open>int\<close>.\<close>

lemma first_notification_2038:
  assumes a: "subscriptions c a = Some s" and s: "last_notification s = 0" "min_interval s = 0"
    and clock: "clock c = 2 ^ 31 + 1"
  shows "maybe_notification a c = Inl Undefined"
proof -
  have "notification_delay (clock c) s = 2 ^ 31 - 1" unfolding notification_delay_def s clock int_of_long_def by simp
  then show ?thesis using a by (simp add: maybe_notification_def)
qed

end
