(* ===== verification/Virtual_Path.thy ===== *)
theory Virtual_Path
  imports C_Text
begin

text \<open>
  Virtual folder paths (server/lib/e2k-path.c): the file system path of a folder, with a
  \<open>subfolders\<close> directory between any two components, the walk over all folders below a directory,
  and the removal of a folder. A directory of the file system is the list of its entries; removing a
  directory is an argument.
\<close>

section \<open>From virtual to physical paths\<close>

definition SUBFOLDER_DIR_NAME :: string where "SUBFOLDER_DIR_NAME = ''subfolders''"
definition SUBFOLDER_DIR_NAME_LEN :: nat where "SUBFOLDER_DIR_NAME_LEN = 10"

text \<open>The first loop adds up the space for the inserted directories, the second one copies.\<close>

function inserted_len :: "string \<Rightarrow> nat" where
  "inserted_len p = (case strchr p CHR ''/'' of
     None \<Rightarrow> 0
   | Some i \<Rightarrow> SUBFOLDER_DIR_NAME_LEN + 1 + inserted_len (dropWhile (\<lambda>c. c = CHR ''/'') (drop i p)))"
  by pat_completeness auto

lemma slash_progress: "strchr p CHR ''/'' = Some i \<Longrightarrow> length (dropWhile (\<lambda>c. c = CHR ''/'') (drop i p)) < length p"
proof -
  assume i: "strchr p CHR ''/'' = Some i"
  then have d: "drop i p = CHR ''/'' # drop (Suc i) p" by (auto dest!: strchr_SomeD simp: Cons_nth_drop_Suc [symmetric])
  have "length (dropWhile (\<lambda>c. c = CHR ''/'') (drop (Suc i) p)) \<le> length (drop (Suc i) p)" by (rule length_dropWhile_le)
  then show ?thesis using i d by (auto dest!: strchr_SomeD)
qed

termination inserted_len
  by (relation "measure length") (auto dest: slash_progress)

function mangle :: "string \<Rightarrow> string" where
  "mangle p = (case strchr p CHR ''/'' of
     None \<Rightarrow> p
   | Some i \<Rightarrow> take (Suc i) p @ SUBFOLDER_DIR_NAME @ ''/'' @ mangle (dropWhile (\<lambda>c. c = CHR ''/'') (drop i p)))"
  by pat_completeness auto
termination
  by (relation "measure length") (auto dest: slash_progress)

declare inserted_len.simps [simp del] mangle.simps [simp del]

definition prefix_text :: "string option \<Rightarrow> string" where
  "prefix_text prefix = (case prefix of None \<Rightarrow> [] | Some s \<Rightarrow> s)"

definition ppath_len :: "string option \<Rightarrow> string \<Rightarrow> nat" where
  "ppath_len prefix vpath = length vpath + 1 + length (prefix_text prefix) + 1 + inserted_len vpath"

text \<open>The result is written into a buffer of the computed length, with its final NUL.\<close>

definition e_path_to_physical :: "string option \<Rightarrow> string \<Rightarrow> string result" where
  "e_path_to_physical prefix vpath =
     (let vpath = dropWhile (\<lambda>c. c = CHR ''/'') vpath;
          ppath = prefix_text prefix @ ''/'' @ mangle vpath
      in if length ppath + 1 \<le> ppath_len prefix vpath then Inr ppath else Inl Undefined)"

section \<open>Walking over folders\<close>

datatype dirent = File | Dir "(string \<times> dirent) list"

text \<open>A callback gets the physical and the virtual path of a folder and says whether to go on.\<close>

type_synonym 's find_callback = "string \<Rightarrow> string \<Rightarrow> 's \<Rightarrow> bool \<times> 's"

function find_folders_recursive :: "'s find_callback \<Rightarrow> string \<Rightarrow> string \<Rightarrow> dirent \<Rightarrow> 's \<Rightarrow> bool \<times> 's"
  and scan_folders :: "'s find_callback \<Rightarrow> string \<Rightarrow> string \<Rightarrow> (string \<times> dirent) list \<Rightarrow> 's \<Rightarrow> bool \<times> 's" where
  "find_folders_recursive cb physical_path path File s =
     (if path \<noteq> [] then cb physical_path path s else (True, s))"
| "find_folders_recursive cb physical_path path (Dir es) s =
     (if path \<noteq> [] then
        let (ok, s) = cb physical_path path s
        in if \<not> ok then (False, s)
           else case map_of es SUBFOLDER_DIR_NAME of
                  Some (Dir ds) \<Rightarrow> scan_folders cb (physical_path @ ''/'' @ SUBFOLDER_DIR_NAME) path ds s
                | _ \<Rightarrow> (True, s)
      else scan_folders cb physical_path path es s)"
| "scan_folders cb dir path [] s = (True, s)"
| "scan_folders cb dir path ((name, File) # es) s = scan_folders cb dir path es s"
| "scan_folders cb dir path ((name, Dir ds) # es) s =
     (let (ok, s) = find_folders_recursive cb (dir @ ''/'' @ name) (path @ ''/'' @ name) (Dir ds) s
      in if ok then scan_folders cb dir path es s else (False, s))"
  by pat_completeness auto

fun dirent_size :: "dirent \<Rightarrow> nat" where
  "dirent_size File = 1"
| "dirent_size (Dir es) = Suc (sum_list (map (\<lambda>e. Suc (dirent_size (snd e))) es))"

lemma dirent_size_pos: "0 < dirent_size d"
  by (cases d) auto

lemma map_of_dirent_size: "map_of es n = Some d \<Longrightarrow> Suc (dirent_size d) \<le> sum_list (map (\<lambda>e. Suc (dirent_size (snd e))) es)"
  by (induction es) (auto split: if_splits)

termination find_folders_recursive
  by (relation "measure (\<lambda>x. case x of Inl (cb, p, q, d, s) \<Rightarrow> dirent_size d
      | Inr (cb, p, q, es, s) \<Rightarrow> sum_list (map (\<lambda>e. Suc (dirent_size (snd e))) es))")
    (auto dest: map_of_dirent_size)

definition e_path_find_folders :: "string \<Rightarrow> 's find_callback \<Rightarrow> dirent \<Rightarrow> 's \<Rightarrow> bool \<times> 's" where
  "e_path_find_folders prefix cb root s = find_folders_recursive cb prefix [] root s"

section \<open>Removing a folder\<close>

text \<open>The argument removes a directory of the file system and says whether it did.\<close>

definition e_path_rmdir :: "(string \<Rightarrow> 'fs \<Rightarrow> bool \<times> 'fs) \<Rightarrow> string option \<Rightarrow> string \<Rightarrow> 'fs \<Rightarrow> (int \<times> 'fs) result" where
  "e_path_rmdir rmdir prefix vpath fs = ok_bind (e_path_to_physical prefix vpath) (\<lambda>physical_path.
     let (ok, fs) = rmdir physical_path fs
     in if \<not> ok then Inr (-1, fs)
        else case strrchr physical_path CHR ''/'' of
          None \<Rightarrow> Inl Undefined
        | Some i \<Rightarrow>
            if drop (Suc i) physical_path = [] then Inr (0, fs)
            else (let parent = take i physical_path
                  in case strrchr parent CHR ''/'' of
                       None \<Rightarrow> Inr (0, fs)
                     | Some j \<Rightarrow> if drop (Suc j) parent \<noteq> SUBFOLDER_DIR_NAME then Inr (0, fs)
                                 else Inr (0, snd (rmdir parent fs))))"

section \<open>What a physical path is\<close>

abbreviation parts :: "string \<Rightarrow> string list" where
  "parts p \<equiv> strtok ''/'' p"

text \<open>The components with a \<open>subfolders\<close> directory in between, and behind a path that ends in a slash.\<close>

fun with_subfolders :: "string list \<Rightarrow> string" where
  "with_subfolders [] = []"
| "with_subfolders [n] = n"
| "with_subfolders (n # ns) = n @ ''/subfolders/'' @ with_subfolders ns"

definition physical :: "string \<Rightarrow> string \<Rightarrow> string" where
  "physical prefix vpath = prefix @ ''/'' @ with_subfolders (parts vpath) @
     (if parts vpath \<noteq> [] \<and> last vpath = CHR ''/'' then ''/subfolders/'' else [])"

lemma strtok_Nil [simp]: "strtok d [] = []"
  by (subst strtok.simps) simp

lemma mangle_Nil [simp]: "mangle [] = []"
  by (subst mangle.simps) simp

lemma parts_slashes: "parts (dropWhile (\<lambda>c. c = CHR ''/'') p) = parts p"
  by (simp add: strtok.simps [of _ p] strtok.simps [of _ "dropWhile _ p"] dropWhile_idem)

lemma parts_step:
  assumes "strchr p CHR ''/'' = Some i" "0 < i"
  shows "parts p = take i p # parts (drop i p)"
proof -
  note s = strchr_SomeD [OF assms(1)]
  have p: "p = take i p @ CHR ''/'' # drop (Suc i) p" using s by (metis id_take_nth_drop)
  have ne: "take i p \<noteq> []" using s assms(2) by auto
  have hd: "hd (take i p) \<noteq> CHR ''/''" using s ne by (metis hd_in_set)
  then have dw: "dropWhile (\<lambda>c. c \<in> set ''/'') p = p" using ne by (cases p) auto
  have "takeWhile (\<lambda>c. c \<notin> set ''/'') p = take i p" using s by (subst p, subst takeWhile_append2) auto
  moreover have "dropWhile (\<lambda>c. c \<notin> set ''/'') p = drop i p"
    using s by (subst p, subst dropWhile_append2) (auto simp: Cons_nth_drop_Suc [symmetric])
  ultimately show ?thesis using dw ne by (subst strtok.simps) (auto simp: Let_def)
qed

lemma parts_word: "CHR ''/'' \<notin> set p \<Longrightarrow> parts p = (if p = [] then [] else [p])"
proof -
  assume p: "CHR ''/'' \<notin> set p"
  then have "dropWhile (\<lambda>c. c \<in> set ''/'') p = p" by (cases p) auto
  moreover have "takeWhile (\<lambda>c. c \<notin> set ''/'') p = p" "dropWhile (\<lambda>c. c \<notin> set ''/'') p = []"
    using p by (auto simp: takeWhile_eq_all_conv dropWhile_eq_Nil_conv)
  ultimately show ?thesis by (subst strtok.simps) (simp add: Let_def del: dropWhile_eq_Nil_conv)
qed

lemma last_dropWhile: "dropWhile P xs \<noteq> [] \<Longrightarrow> last (dropWhile P xs) = last xs"
  using last_appendR [of "dropWhile P xs" "takeWhile P xs"] by simp

lemma mangle_parts:
  "p = [] \<or> hd p \<noteq> CHR ''/'' \<Longrightarrow>
     mangle p = with_subfolders (parts p) @ (if parts p \<noteq> [] \<and> last p = CHR ''/'' then ''/subfolders/'' else [])"
proof (induction p rule: mangle.induct)
  case (1 p)
  show ?case
  proof (cases "strchr p CHR ''/''")
    case None
    then have n: "CHR ''/'' \<notin> set p" by simp
    then have "p \<noteq> [] \<Longrightarrow> last p \<noteq> CHR ''/''" using last_in_set by metis
    then show ?thesis using n by (subst mangle.simps, subst None) (auto simp: parts_word)
  next
    case (Some i)
    note s = strchr_SomeD [OF Some]
    let ?q = "dropWhile (\<lambda>c. c = CHR ''/'') (drop i p)"
    have i: "0 < i" using s 1(2) by (cases i) (auto simp: hd_conv_nth)
    have t: "take (Suc i) p = take i p @ ''/''" using s by (simp add: take_Suc_conv_app_nth)
    have parts: "parts p = take i p # parts ?q" using parts_step [OF Some i] by (simp add: parts_slashes)
    have q: "?q = [] \<or> hd ?q \<noteq> CHR ''/''" using hd_dropWhile [of "\<lambda>c. c = CHR ''/''" "drop i p"] by blast
    note IH = "1.IH" [OF Some q]
    have m: "mangle p = take i p @ ''/subfolders/'' @ mangle ?q"
      using Some t by (subst mangle.simps) (simp add: SUBFOLDER_DIR_NAME_def)
    show ?thesis
    proof (cases "?q = []")
      case True
      then have "\<forall>c \<in> set (drop i p). c = CHR ''/''" by (simp add: dropWhile_eq_Nil_conv)
      moreover have "last p \<in> set (drop i p)" using s by (metis drop_eq_Nil last_drop last_in_set not_le)
      ultimately have "last p = CHR ''/''" by blast
      then show ?thesis unfolding m parts True by simp
    next
      case False
      have "last p = last ?q" using last_dropWhile [OF False] s by (metis last_drop)
      moreover have "parts ?q \<noteq> []"
        using False q by (subst strtok.simps) (auto simp: Let_def dropWhile_eq_Nil_conv neq_Nil_conv)
      ultimately show ?thesis using m IH parts by (cases "parts ?q") auto
    qed
  qed
qed

lemma inserted_enough: "length (mangle p) \<le> length p + inserted_len p"
proof (induction p rule: mangle.induct)
  case (1 p)
  show ?case
  proof (cases "strchr p CHR ''/''")
    case (Some i)
    let ?q = "dropWhile (\<lambda>c. c = CHR ''/'') (drop i p)"
    note s = strchr_SomeD [OF Some]
    have "length (dropWhile (\<lambda>c. c = CHR ''/'') (drop (Suc i) p)) \<le> length p - Suc i"
      using length_dropWhile_le [of _ "drop (Suc i) p"] by simp
    moreover have "drop i p = CHR ''/'' # drop (Suc i) p" using s by (auto simp: Cons_nth_drop_Suc [symmetric])
    ultimately have "length ?q + Suc i \<le> length p" using s by (simp, linarith)
    moreover have "length (mangle p) = Suc i + 11 + length (mangle ?q)"
      using Some s by (subst mangle.simps) (simp add: SUBFOLDER_DIR_NAME_def)
    moreover have "inserted_len p = 11 + inserted_len ?q"
      using Some by (subst inserted_len.simps) (simp add: SUBFOLDER_DIR_NAME_LEN_def)
    ultimately show ?thesis using "1.IH" [OF Some] by simp
  next
    case None
    show ?thesis by (subst mangle.simps, subst None) simp
  qed
qed

lemma physical_correct:
  "e_path_to_physical prefix vpath = Inr (physical (prefix_text prefix) vpath)"
proof -
  let ?v = "dropWhile (\<lambda>c. c = CHR ''/'') vpath"
  have "?v = [] \<or> hd ?v \<noteq> CHR ''/''" using hd_dropWhile [of "\<lambda>c. c = CHR ''/''" vpath] by blast
  note m = mangle_parts [OF this]
  have parts: "parts ?v = parts vpath" by (rule parts_slashes)
  have "last ?v = last vpath" if "parts vpath \<noteq> []"
  proof -
    have "?v \<noteq> []" using that parts by (metis strtok_Nil)
    then show ?thesis by (rule last_dropWhile)
  qed
  then have p: "prefix_text prefix @ ''/'' @ mangle ?v = physical (prefix_text prefix) vpath"
    using m parts by (auto simp: physical_def)
  have "length (prefix_text prefix @ ''/'' @ mangle ?v) + 1 \<le> ppath_len prefix ?v"
    using inserted_enough [of ?v] by (simp add: ppath_len_def)
  then show ?thesis using p by (simp add: e_path_to_physical_def Let_def)
qed

section \<open>Which folders are found\<close>

text \<open>The folders below a directory in the order of the walk, each as the list of its names.\<close>

function folders :: "(string \<times> dirent) list \<Rightarrow> string list list" where
  "folders [] = []"
| "folders ((name, File) # es) = folders es"
| "folders ((name, Dir ds) # es) =
     ([name] # map ((#) name) (case map_of ds SUBFOLDER_DIR_NAME of Some (Dir ss) \<Rightarrow> folders ss | _ \<Rightarrow> [])) @ folders es"
  by pat_completeness auto
termination
  by (relation "measure (\<lambda>es. sum_list (map (\<lambda>e. Suc (dirent_size (snd e))) es))")
    (auto dest: map_of_dirent_size)

definition virtual_path :: "string list \<Rightarrow> string" where
  "virtual_path ns = concat (map (\<lambda>n. ''/'' @ n) ns)"

text \<open>Calling back until the callback says no.\<close>

fun call_until :: "'s find_callback \<Rightarrow> (string \<times> string) list \<Rightarrow> 's \<Rightarrow> bool \<times> 's" where
  "call_until cb [] s = (True, s)"
| "call_until cb ((p, v) # fs) s = (let (ok, s) = cb p v s in if ok then call_until cb fs s else (False, s))"

lemma call_until_append: "call_until cb (fs @ gs) s =
    (let (ok, s) = call_until cb fs s in if ok then call_until cb gs s else (False, s))"
  by (induction fs arbitrary: s) (auto simp: split_beta Let_def)

definition visit :: "string \<Rightarrow> string \<Rightarrow> string list \<Rightarrow> string \<times> string" where
  "visit dir path ns = (dir @ ''/'' @ with_subfolders ns, path @ virtual_path ns)"

lemma visit_single: "visit dir path [n] = (dir @ ''/'' @ n, path @ ''/'' @ n)"
  by (simp add: visit_def virtual_path_def)

lemma visit_Cons: "ns \<noteq> [] \<Longrightarrow> visit dir path (n # ns) =
    visit (dir @ ''/'' @ n @ ''/'' @ SUBFOLDER_DIR_NAME) (path @ ''/'' @ n) ns"
  by (cases ns) (simp_all add: visit_def virtual_path_def SUBFOLDER_DIR_NAME_def)

lemma folders_nonempty: "ns \<in> set (folders es) \<Longrightarrow> ns \<noteq> []"
  by (induction es rule: folders.induct) auto

lemma scan_folders_visits:
  "scan_folders cb dir path es s = call_until cb (map (visit dir path) (folders es)) s"
proof (induction es arbitrary: dir path s rule: folders.induct)
  case (3 name ds es)
  let ?dir = "dir @ ''/'' @ name" and ?path = "path @ ''/'' @ name"
  let ?below = "case map_of ds SUBFOLDER_DIR_NAME of Some (Dir ss) \<Rightarrow> folders ss | _ \<Rightarrow> []"
  have IH: "scan_folders cb d p ss s = call_until cb (map (visit d p) (folders ss)) s"
    if "map_of ds SUBFOLDER_DIR_NAME = Some (Dir ss)" for d p ss s
    using "3.IH"(1) that by simp
  have below: "ns \<noteq> []" if "ns \<in> set ?below" for ns
    using that by (auto split: option.splits dirent.splits dest: folders_nonempty)
  have vis: "map (visit dir path) (map ((#) name) ?below) = map (visit (?dir @ ''/'' @ SUBFOLDER_DIR_NAME) ?path) ?below"
    using below by (simp add: visit_Cons)
  have "find_folders_recursive cb ?dir ?path (Dir ds) s =
      call_until cb (visit dir path [name] # map (visit (?dir @ ''/'' @ SUBFOLDER_DIR_NAME) ?path) ?below) s" for s
    using IH by (auto simp: visit_single split_beta Let_def split: option.splits dirent.splits)
  then show ?case unfolding folders.simps map_append call_until_append list.map vis
    by (simp add: "3.IH"(2) split_beta Let_def)
qed simp_all

lemma find_folders_visits:
  "e_path_find_folders prefix cb (Dir es) s = call_until cb (map (visit prefix []) (folders es)) s"
  by (simp add: e_path_find_folders_def scan_folders_visits)

lemma parts_virtual_path: "\<forall>n \<in> set ns. n \<noteq> [] \<and> CHR ''/'' \<notin> set n \<Longrightarrow> parts (virtual_path ns) = ns"
proof (induction ns)
  case (Cons n ns)
  have n: "n \<noteq> []" "CHR ''/'' \<notin> set n" using Cons.prems by auto
  have slash: "parts (CHR ''/'' # s) = parts s" for s using parts_slashes [of "CHR ''/'' # s"] parts_slashes [of s] by simp
  show ?case
  proof (cases ns)
    case Nil
    then show ?thesis using n by (simp add: virtual_path_def slash parts_word)
  next
    case (Cons m ms)
    have v: "virtual_path (n # ns) = CHR ''/'' # n @ virtual_path ns" by (simp add: virtual_path_def)
    have "\<exists>u. virtual_path ns = CHR ''/'' # u" by (simp add: virtual_path_def Cons)
    then obtain u where u: "virtual_path ns = CHR ''/'' # u" by blast
    have "strchr (n @ CHR ''/'' # u) CHR ''/'' = Some (length n)" using n(2) by (induction n) auto
    from parts_step [OF this] n(1) have "parts (n @ virtual_path ns) = n # parts (virtual_path ns)" by (simp add: u)
    then show ?thesis using Cons.IH Cons.prems unfolding v slash by simp
  qed
qed (simp add: virtual_path_def)

lemma last_virtual_path:
  assumes "\<forall>n \<in> set ns. n \<noteq> [] \<and> CHR ''/'' \<notin> set n" "ns \<noteq> []"
  shows "last (virtual_path ns) \<noteq> CHR ''/''"
proof -
  obtain ms n where ns: "ns = ms @ [n]" using assms(2) by (metis append_butlast_last_id)
  then have "n \<noteq> []" "CHR ''/'' \<notin> set n" using assms(1) by auto
  then have "last n \<noteq> CHR ''/''" by (metis last_in_set)
  then show ?thesis using \<open>n \<noteq> []\<close> by (simp add: ns virtual_path_def)
qed

lemma physical_names:
  assumes "\<forall>n \<in> set ns. n \<noteq> [] \<and> CHR ''/'' \<notin> set n" "ns \<noteq> []"
  shows "e_path_to_physical (Some prefix) (virtual_path ns) = Inr (prefix @ ''/'' @ with_subfolders ns)"
  using assms last_virtual_path [OF assms]
  by (simp add: physical_correct physical_def parts_virtual_path prefix_text_def)

text \<open>A path that ends in a slash gives one that ends in \<open>/subfolders/\<close>, not in \<open>/subfolders\<close>.\<close>

lemma trailing_slash: "e_path_to_physical (Some ''p'') ''/a/'' = Inr ''p/a/subfolders/''"
  by code_simp

text \<open>Removing a folder below another one removes its directory and then tries to remove its parent.\<close>

lemma rmdir_parent:
  assumes p: "e_path_to_physical prefix vpath = Inr (w @ CHR ''/'' # n)" and n: "CHR ''/'' \<notin> set n" "n \<noteq> []"
    and w: "w = u @ CHR ''/'' # SUBFOLDER_DIR_NAME" and ok: "rmdir (w @ CHR ''/'' # n) fs = (True, fs1)"
  shows "e_path_rmdir rmdir prefix vpath fs = Inr (0, snd (rmdir w fs1))"
proof -
  have i: "strrchr (w @ CHR ''/'' # n) CHR ''/'' = Some (length w)" using n(1) by (rule strrchr_append_tail)
  have j: "strrchr w CHR ''/'' = Some (length u)" unfolding w
    by (rule strrchr_append_tail) (simp add: SUBFOLDER_DIR_NAME_def)
  have d: "drop (Suc (length u)) w = SUBFOLDER_DIR_NAME" by (simp add: w)
  show ?thesis using p ok i j d n(2) by (simp add: e_path_rmdir_def)
qed

lemma rmdir_tries:
  assumes n: "\<forall>n \<in> set (ms @ [n]). n \<noteq> [] \<and> CHR ''/'' \<notin> set n" "ms \<noteq> []"
    and ok: "rmdir (prefix @ ''/'' @ with_subfolders (ms @ [n])) fs = (True, fs1)"
  shows "e_path_rmdir rmdir (Some prefix) (virtual_path (ms @ [n])) fs =
    Inr (0, snd (rmdir (prefix @ ''/'' @ with_subfolders ms @ ''/subfolders'') fs1))"
proof -
  have w: "with_subfolders (ms @ [n]) = with_subfolders ms @ ''/subfolders/'' @ n"
    using n(2) by (induction ms rule: with_subfolders.induct) simp_all
  let ?w = "prefix @ ''/'' @ with_subfolders ms @ ''/subfolders''"
  have "e_path_to_physical (Some prefix) (virtual_path (ms @ [n])) = Inr (?w @ CHR ''/'' # n)"
    using physical_names [OF n(1)] w by simp
  moreover have "CHR ''/'' \<notin> set n" "n \<noteq> []" using n(1) by auto
  moreover have "?w = (prefix @ ''/'' @ with_subfolders ms) @ CHR ''/'' # SUBFOLDER_DIR_NAME"
    by (simp add: SUBFOLDER_DIR_NAME_def)
  moreover have "rmdir (?w @ CHR ''/'' # n) fs = (True, fs1)" using ok w by simp
  ultimately show ?thesis by (rule rmdir_parent)
qed

section \<open>Properties\<close>

text \<open>
  C23. The physical path of a virtual one is the prefix, a slash and its components, with
  \<open>/subfolders/\<close> between any two of them however many slashes separate them. Behind a path that has a
  component and ends in a slash comes \<open>/subfolders/\<close>, with a slash at its end, where the documentation
  of the function says \<open>/subfolders\<close>. The length computed first is enough, so the copy stays inside its
  buffer.
\<close>

theorem path_to_physical:
  "e_path_to_physical prefix vpath =
     Inr (prefix_text prefix @ ''/'' @ with_subfolders (parts vpath) @
       (if parts vpath \<noteq> [] \<and> last vpath = CHR ''/'' then ''/subfolders/'' else []))"
  by (simp add: physical_correct physical_def)

text \<open>
  C22. The walk calls back for every folder below the prefix exactly once, parents first, with its
  virtual path and with the physical path that \<open>e_path_to_physical\<close> gives for it, until a callback
  says no.
\<close>

theorem find_folders_all:
  assumes "\<forall>ns \<in> set (folders es). \<forall>n \<in> set ns. n \<noteq> [] \<and> CHR ''/'' \<notin> set n"
  shows "\<exists>phys. (\<forall>ns \<in> set (folders es). e_path_to_physical (Some prefix) (virtual_path ns) = Inr (phys ns)) \<and>
     e_path_find_folders prefix cb (Dir es) s = call_until cb (map (\<lambda>ns. (phys ns, virtual_path ns)) (folders es)) s"
proof (intro exI conjI)
  show "\<forall>ns \<in> set (folders es). e_path_to_physical (Some prefix) (virtual_path ns) = Inr (prefix @ ''/'' @ with_subfolders ns)"
    using assms by (intro ballI physical_names) (auto dest: folders_nonempty)
  show "e_path_find_folders prefix cb (Dir es) s =
      call_until cb (map (\<lambda>ns. (prefix @ ''/'' @ with_subfolders ns, virtual_path ns)) (folders es)) s"
    by (simp add: find_folders_visits visit_def [abs_def])
qed

definition sample_dir :: "(string \<times> dirent) list" where
  "sample_dir = [(''a'', Dir [(''mbox'', File), (''subfolders'', Dir [(''b'', Dir []), (''x'', File)])]), (''c'', Dir [])]"

definition record_visit :: "(string \<times> string) list find_callback" where
  "record_visit p v s = (v \<noteq> ''/a/b'', s @ [(p, v)])"

theorem find_folders_all_witness:
  "e_path_find_folders ''d'' record_visit (Dir sample_dir) [] = (False, [(''d/a'', ''/a''), (''d/a/subfolders/b'', ''/a/b'')])"
proof -
  have f: "folders sample_dir = [[''a''], [''a'', ''b''], [''c'']]" by (simp add: sample_dir_def SUBFOLDER_DIR_NAME_def)
  then have "\<forall>ns \<in> set (folders sample_dir). \<forall>n \<in> set ns. n \<noteq> [] \<and> CHR ''/'' \<notin> set n" by simp
  from find_folders_all [OF this, of "''d''" record_visit "[]"] obtain phys where
    p: "\<forall>ns \<in> set (folders sample_dir). e_path_to_physical (Some ''d'') (virtual_path ns) = Inr (phys ns)" and
    e: "e_path_find_folders ''d'' record_visit (Dir sample_dir) [] =
      call_until record_visit (map (\<lambda>ns. (phys ns, virtual_path ns)) (folders sample_dir)) []" by blast
  have "e_path_to_physical (Some ''d'') (virtual_path [''a'']) = Inr ''d/a''"
    "e_path_to_physical (Some ''d'') (virtual_path [''a'', ''b'']) = Inr ''d/a/subfolders/b''" by code_simp+
  then have "phys [''a''] = ''d/a''" "phys [''a'', ''b''] = ''d/a/subfolders/b''" using p f by simp_all
  then show ?thesis using e f by (simp add: virtual_path_def record_visit_def)
qed

end
