(* ===== verification/Operation.thy ===== *)
theory Operation
  imports Hash_Table
begin

text \<open>
  Cancellable operations (server/lib/e2k-operation.c). An operation is memory of its caller that one
  thread starts and finishes and another one may cancel. What happens under the mutex is one step;
  the call of the canceller is a step of its own, because the code makes it after it let the mutex go.
  Using an operation whose memory is gone is \<open>Undefined\<close>.
\<close>

section \<open>State\<close>

text \<open>A canceller stands for the function, its owner and its data; \<open>None\<close> is the null pointer.\<close>

record E2kOperation =
  canceller :: "nat option"
  cancelled :: bool

record operations =
  op_memory :: "nat \<Rightarrow> E2kOperation option"
  active_ops :: "(nat, nat) ghash"
  canceller_calls :: "nat list"

definition op_at :: "nat \<Rightarrow> operations \<Rightarrow> E2kOperation result" where
  "op_at op w = (case op_memory w op of None \<Rightarrow> Inl Undefined | Some x \<Rightarrow> Inr x)"

definition put_op :: "nat \<Rightarrow> E2kOperation \<Rightarrow> operations \<Rightarrow> operations" where
  "put_op op x w = w\<lparr>op_memory := (op_memory w)(op \<mapsto> x)\<rparr>"

definition op_hash :: "nat \<Rightarrow> u32" where
  "op_hash op = of_nat op"

section \<open>Operations\<close>

definition e2k_operation_init :: "nat \<Rightarrow> operations \<Rightarrow> operations result" where
  "e2k_operation_init op w = Inr (put_op op \<lparr>canceller = None, cancelled = False\<rparr>
     (w\<lparr>active_ops := hash_insert (=) op_hash op op (active_ops w)\<rparr>))"

definition e2k_operation_free :: "nat \<Rightarrow> operations \<Rightarrow> operations result" where
  "e2k_operation_free op w = Inr (w\<lparr>active_ops := hash_remove (=) op_hash op (active_ops w)\<rparr>)"

text \<open>The call of the canceller that an operation has, outside the mutex.\<close>

definition call_canceller :: "nat \<Rightarrow> operations \<Rightarrow> operations result" where
  "call_canceller op w = ok_bind (op_at op w) (\<lambda>x. case canceller x of
     None \<Rightarrow> Inr w | Some c \<Rightarrow> Inr (w\<lparr>canceller_calls := canceller_calls w @ [c]\<rparr>))"

text \<open>The parts under the mutex; the result says whether the canceller is to be called.\<close>

definition start_locked :: "nat option \<Rightarrow> nat option \<Rightarrow> operations \<Rightarrow> (bool \<times> operations) result" where
  "start_locked opt c w = (case opt of
     None \<Rightarrow> Inr (False, w)
   | Some op \<Rightarrow> ok_bind (op_at op w) (\<lambda>x.
       let w = put_op op (x\<lparr>canceller := c\<rparr>) w in Inr (cancelled x \<and> c \<noteq> None, w)))"

definition e2k_operation_start :: "nat option \<Rightarrow> nat option \<Rightarrow> operations \<Rightarrow> operations result" where
  "e2k_operation_start opt c w = ok_bind (start_locked opt c w) (\<lambda>(yes, w).
     case opt of None \<Rightarrow> Inr w | Some op \<Rightarrow> if yes then call_canceller op w else Inr w)"

definition e2k_operation_finish :: "nat option \<Rightarrow> operations \<Rightarrow> operations result" where
  "e2k_operation_finish opt w = (case opt of
     None \<Rightarrow> Inr w
   | Some op \<Rightarrow> ok_bind (op_at op w) (\<lambda>x. Inr (put_op op (x\<lparr>canceller := None\<rparr>) w)))"

definition cancel_locked :: "nat \<Rightarrow> operations \<Rightarrow> (bool \<times> operations) result" where
  "cancel_locked op w =
     (if hash_lookup (=) op_hash op (active_ops w) = None then Inr (False, w)
      else ok_bind (op_at op w) (\<lambda>x.
        if cancelled x then Inr (False, w)
        else Inr (True, put_op op (x\<lparr>cancelled := True\<rparr>)
               (w\<lparr>active_ops := hash_remove (=) op_hash op (active_ops w)\<rparr>))))"

definition e2k_operation_cancel :: "nat \<Rightarrow> operations \<Rightarrow> operations result" where
  "e2k_operation_cancel op w = ok_bind (cancel_locked op w) (\<lambda>(yes, w).
     if yes then call_canceller op w else Inr w)"

definition e2k_operation_is_cancelled :: "nat option \<Rightarrow> operations \<Rightarrow> bool result" where
  "e2k_operation_is_cancelled opt w = (case opt of
     None \<Rightarrow> Inr False | Some op \<Rightarrow> ok_bind (op_at op w) (\<lambda>x. Inr (cancelled x)))"

section \<open>Runs\<close>

text \<open>
  The steps of the two threads. The memory of an operation goes when its function returns, which is
  after \<open>e2k_operation_free\<close>.
\<close>

datatype op_step =
    Start nat | Start_call | Finish | Free | Return | Cancel | Cancel_call

text \<open>What a thread still has to do: the call that a step under the mutex decided on.\<close>

record op_threads =
  world :: operations
  start_pending :: bool
  cancel_pending :: bool

fun op_do :: "nat \<Rightarrow> op_step \<Rightarrow> op_threads \<Rightarrow> op_threads result" where
  "op_do op (Start c) t = ok_bind (start_locked (Some op) (Some c) (world t)) (\<lambda>(yes, w). Inr (t\<lparr>world := w, start_pending := yes\<rparr>))"
| "op_do op Start_call t =
     (if start_pending t then ok_bind (call_canceller op (world t)) (\<lambda>w. Inr (t\<lparr>world := w, start_pending := False\<rparr>)) else Inr t)"
| "op_do op Finish t = ok_bind (e2k_operation_finish (Some op) (world t)) (\<lambda>w. Inr (t\<lparr>world := w\<rparr>))"
| "op_do op Free t = ok_bind (e2k_operation_free op (world t)) (\<lambda>w. Inr (t\<lparr>world := w\<rparr>))"
| "op_do op Return t = Inr (t\<lparr>world := (world t)\<lparr>op_memory := (op_memory (world t))(op := None)\<rparr>\<rparr>)"
| "op_do op Cancel t = ok_bind (cancel_locked op (world t)) (\<lambda>(yes, w). Inr (t\<lparr>world := w, cancel_pending := yes \<or> cancel_pending t\<rparr>))"
| "op_do op Cancel_call t =
     (if cancel_pending t then ok_bind (call_canceller op (world t)) (\<lambda>w. Inr (t\<lparr>world := w, cancel_pending := False\<rparr>)) else Inr t)"

fun op_run :: "nat \<Rightarrow> op_step list \<Rightarrow> op_threads \<Rightarrow> op_threads result" where
  "op_run op [] t = Inr t"
| "op_run op (e # es) t = ok_bind (op_do op e t) (op_run op es)"

text \<open>An operation of an initialised system, with nothing to do.\<close>

definition fresh_op :: "nat \<Rightarrow> op_threads \<Rightarrow> bool" where
  "fresh_op op t \<longleftrightarrow> (\<exists>w. Inr (world t) = e2k_operation_init op w \<and> canceller_calls w = []) \<and>
     \<not> start_pending t \<and> \<not> cancel_pending t"

section \<open>Whole calls\<close>

text \<open>Calls of the API one after the other, as when every call keeps the mutex to its end.\<close>

datatype op_call = Starts nat | Finishes | Cancels

fun call_op :: "nat \<Rightarrow> op_call \<Rightarrow> operations \<Rightarrow> operations result" where
  "call_op op (Starts c) w = e2k_operation_start (Some op) (Some c) w"
| "call_op op Finishes w = e2k_operation_finish (Some op) w"
| "call_op op Cancels w = e2k_operation_cancel op w"

fun call_ops :: "nat \<Rightarrow> op_call list \<Rightarrow> operations \<Rightarrow> operations result" where
  "call_ops op [] w = Inr w"
| "call_ops op (e # es) w = ok_bind (call_op op e w) (call_ops op es)"

text \<open>The canceller in force after some calls, and the cancellers of all starts.\<close>

fun in_force :: "op_call list \<Rightarrow> nat option \<Rightarrow> nat option" where
  "in_force [] c = c"
| "in_force (Starts d # es) c = in_force es (Some d)"
| "in_force (Finishes # es) c = in_force es None"
| "in_force (Cancels # es) c = in_force es c"

fun started :: "op_call list \<Rightarrow> nat list" where
  "started [] = []"
| "started (Starts d # es) = d # started es"
| "started (_ # es) = started es"

lemma op_lookup: "hash_lookup (=) op_hash op t = map_of t op"
  by (rule table_lookup)

lemmas operation_simps = e2k_operation_start_def start_locked_def e2k_operation_finish_def e2k_operation_cancel_def
  cancel_locked_def call_canceller_def op_at_def put_op_def op_lookup Let_def

lemma call_ops_append: "call_ops op (es @ fs) w = ok_bind (call_ops op es w) (call_ops op fs)"
  by (induction es arbitrary: w) (auto simp: ok_bind_def split: sum.splits)

lemma before_cancel:
  assumes "Cancels \<notin> set es" "op_memory w op = Some \<lparr>canceller = c, cancelled = False\<rparr>"
  shows "\<exists>w'. call_ops op es w = Inr w' \<and> canceller_calls w' = canceller_calls w \<and> active_ops w' = active_ops w \<and>
    op_memory w' op = Some \<lparr>canceller = in_force es c, cancelled = False\<rparr>"
  using assms
proof (induction es arbitrary: w c)
  case (Cons e es)
  then show ?case
  proof (cases e)
    case (Starts d)
    let ?w = "put_op op \<lparr>canceller = Some d, cancelled = False\<rparr> w"
    have "op_memory ?w op = Some \<lparr>canceller = Some d, cancelled = False\<rparr>" by (simp add: put_op_def)
    then show ?thesis using Cons.IH [of ?w "Some d"] Cons.prems Starts by (simp add: operation_simps)
  next
    case Finishes
    let ?w = "put_op op \<lparr>canceller = None, cancelled = False\<rparr> w"
    have "op_memory ?w op = Some \<lparr>canceller = None, cancelled = False\<rparr>" by (simp add: put_op_def)
    then show ?thesis using Cons.IH [of ?w None] Cons.prems Finishes by (simp add: operation_simps)
  qed simp
qed simp

lemma after_cancel:
  assumes "op_memory w op = Some \<lparr>canceller = c, cancelled = True\<rparr>" "map_of (active_ops w) op = None"
  shows "\<exists>w'. call_ops op es w = Inr w' \<and> canceller_calls w' = canceller_calls w @ started es"
  using assms
proof (induction es arbitrary: w c)
  case (Cons e es)
  then show ?case
  proof (cases e)
    case (Starts d)
    let ?w = "(put_op op \<lparr>canceller = Some d, cancelled = True\<rparr> w)\<lparr>canceller_calls := canceller_calls w @ [d]\<rparr>"
    have "op_memory ?w op = Some \<lparr>canceller = Some d, cancelled = True\<rparr>" "map_of (active_ops ?w) op = None"
      using Cons.prems by (simp_all add: put_op_def)
    from Cons.IH [OF this] show ?thesis using Cons.prems Starts by (simp add: operation_simps)
  next
    case Finishes
    let ?w = "put_op op \<lparr>canceller = None, cancelled = True\<rparr> w"
    have "op_memory ?w op = Some \<lparr>canceller = None, cancelled = True\<rparr>" "map_of (active_ops ?w) op = None"
      using Cons.prems by (simp_all add: put_op_def)
    from Cons.IH [OF this] show ?thesis using Cons.prems Finishes by (simp add: operation_simps)
  qed (simp add: operation_simps)
qed simp

section \<open>Properties\<close>

text \<open>
  C24. Cancelling an operation calls the canceller of what is in progress, if anything is, and every
  later start calls its own canceller at once; each is called exactly once, in order, however often
  and whenever the operation is cancelled again.
\<close>

theorem cancel_calls:
  assumes "e2k_operation_init op w0 = Inr w" and "Cancels \<notin> set es"
  shows "\<exists>w'. call_ops op (es @ Cancels # fs) w = Inr w' \<and>
     canceller_calls w' = canceller_calls w @ (case in_force es None of None \<Rightarrow> [] | Some c \<Rightarrow> [c]) @ started fs"
proof -
  have w: "op_memory w op = Some \<lparr>canceller = None, cancelled = False\<rparr>" "map_of (active_ops w) op = Some op"
    using assms(1) by (auto simp: e2k_operation_init_def put_op_def map_of_table_insert)
  obtain w1 where w1: "call_ops op es w = Inr w1" "canceller_calls w1 = canceller_calls w" "active_ops w1 = active_ops w"
      "op_memory w1 op = Some \<lparr>canceller = in_force es None, cancelled = False\<rparr>"
    using before_cancel [OF assms(2) w(1)] by blast
  let ?w2 = "put_op op \<lparr>canceller = in_force es None, cancelled = True\<rparr>
      (w1\<lparr>active_ops := hash_remove (=) op_hash op (active_ops w1),
          canceller_calls := canceller_calls w @ (case in_force es None of None \<Rightarrow> [] | Some c \<Rightarrow> [c])\<rparr>)"
  have c: "call_op op Cancels w1 = Inr ?w2"
    using w1 w(2) by (simp add: operation_simps split: option.splits)
  have "op_memory ?w2 op = Some \<lparr>canceller = in_force es None, cancelled = True\<rparr>" "map_of (active_ops ?w2) op = None"
    by (simp_all add: put_op_def map_of_table_remove)
  from after_cancel [OF this, of fs] show ?thesis
    using w1(1) c by (auto simp: call_ops_append put_op_def simp del: call_op.simps)
qed

definition sample_operations :: operations where
  "sample_operations = \<lparr>op_memory = Map.empty, active_ops = [], canceller_calls = []\<rparr>"

theorem cancel_calls_witness:
  "\<exists>w w'. e2k_operation_init 1 sample_operations = Inr w \<and>
     call_ops 1 [Starts 7, Cancels, Cancels, Finishes, Starts 8] w = Inr w' \<and> canceller_calls w' = [7, 8]"
proof -
  obtain w where w: "e2k_operation_init 1 sample_operations = Inr w" by (simp add: e2k_operation_init_def)
  have "canceller_calls w = []" using w by (auto simp: e2k_operation_init_def put_op_def sample_operations_def)
  then show ?thesis using cancel_calls [OF w, of "[Starts 7]" "[Cancels, Finishes, Starts 8]"] w by auto
qed

text \<open>
  C26. Between the threads this is lost, because the canceller is called after the mutex was let go:
  a start that finds the operation cancelled and the cancelling thread both call the same canceller,
  and a cancelling thread can find the memory of an operation gone that was finished in time.
\<close>

theorem cancel_race:
  assumes "fresh_op op t"
  shows "(\<exists>t1. op_run op [Cancel, Start c, Start_call, Cancel_call] t = Inr t1 \<and> canceller_calls (world t1) = [c, c]) \<and>
    op_run op [Start c, Cancel, Finish, Free, Return, Cancel_call] t = Inl Undefined"
proof -
  have w: "op_memory (world t) op = Some \<lparr>canceller = None, cancelled = False\<rparr>" "map_of (active_ops (world t)) op = Some op"
      "canceller_calls (world t) = []" "\<not> start_pending t" "\<not> cancel_pending t"
    using assms by (auto simp: fresh_op_def e2k_operation_init_def put_op_def map_of_table_insert)
  have "\<exists>t1. op_run op [Cancel, Start c, Start_call, Cancel_call] t = Inr t1 \<and> canceller_calls (world t1) = [c, c]"
    using w by (simp add: operation_simps)
  moreover have "op_run op [Start c, Cancel, Finish, Free, Return, Cancel_call] t = Inl Undefined"
    using w by (simp add: operation_simps e2k_operation_free_def)
  ultimately show ?thesis by blast
qed

theorem cancel_race_witness:
  "\<exists>t t1. op_run 1 [Cancel, Start 7, Start_call, Cancel_call] t = Inr t1 \<and> canceller_calls (world t1) = [7, 7]"
proof -
  obtain w where "e2k_operation_init 1 sample_operations = Inr w" by (simp add: e2k_operation_init_def)
  moreover have "canceller_calls sample_operations = []" by (simp add: sample_operations_def)
  ultimately have "fresh_op 1 \<lparr>world = w, start_pending = False, cancel_pending = False\<rparr>"
    unfolding fresh_op_def by (intro conjI exI [of _ sample_operations]) simp_all
  from cancel_race [OF this, of 7] show ?thesis by blast
qed

end
