(* ===== verification/Spec2Isabelle.thy ===== *)
theory Spec2Isabelle
  imports Rules Sql Ntlm Descriptor_Binary Freebusy Utils Property_Store Folder_Store Search_Order
    Bulk_Results Requests Notifications Virtual_Path Operation
begin

text \<open>
  Verification of the protocol core of the Ximian Connector for Microsoft Exchange, an Evolution
  plugin that talks WebDAV to an Exchange 2000 or 2003 server (sources under \<open>src/\<close>).

  \<^bold>\<open>The program\<close> has a server library (\<open>server/lib\<close>), a layer of folders and accounts over it
  (\<open>server/storage\<close>), and backends of Evolution on top (\<open>camel\<close>, \<open>calendar\<close>, \<open>addressbook\<close>,
  \<open>eplugin\<close>, \<open>tools\<close>). The library builds WebDAV requests (\<open>e2k-context.c\<close>) out of properties
  (\<open>e2k-properties.c\<close>), restrictions (\<open>e2k-restriction.c\<close>, exported to SQL) and URIs, parses the
  Multi-Status responses into results (\<open>e2k-result.c\<close>) and hands them out through iterators. Some
  properties are binary objects with formats of their own: rules and their actions (\<open>e2k-rule.c\<close>,
  \<open>e2k-action.c\<close>), security descriptors with their SIDs (\<open>e2k-security-descriptor.c\<close>,
  \<open>e2k-sid.c\<close>), entry ids (\<open>e2k-utils.c\<close>) and free/busy lists (\<open>e2k-freebusy.c\<close>). Authentication is
  NTLM with its own MD4 and DES (\<open>xntlm\<close>). Changes on the server arrive as datagrams and lead to
  POLL requests (the end of \<open>e2k-context.c\<close>).

  \<^bold>\<open>Conventions.\<close> Prelude has the result type: \<open>Inr\<close> a value, or \<open>Inl\<close> a fault. \<open>Rejected\<close> is an
  error the C code reports, \<open>Undefined\<close> a run that C gives no meaning to (a read outside an object, a
  null or dangling pointer, a value used as another type, a signed overflow), and \<open>Out_of_fuel\<close>
  belongs to the model alone. A function that the code does not call through such a test has no
  fault. Machine integers are words where they wrap; a C string is a list of characters without NUL.
  Pointers whose sharing matters are addresses of a heap (Sid, Permissions, Folder_Tree,
  Subscription); elsewhere an object is a value. C_Text has the C string functions, Cursor the
  reading of little-endian data from a buffer that knows where it ends, Hash_Table GLib's hash
  tables with the laws of their key functions (locale \<open>ghash_key\<close>), Handles the ownership of timers
  and messages by the cells of a heap.

  \<^bold>\<open>Theories and sources.\<close>
  \<^item> Properties, Property_Store (\<open>e2k-properties.c\<close>): names, proptags, namespaces, property stores. A
    setter keeps every value at the C type of its property; a copy is exact except for the cases
    the code forgets, in which it is undefined; namespaces that differ in more than case have
    different abbreviations.
  \<^item> Times (the time functions of \<open>e2k-utils.c\<close>): printing and parsing invert each other.
  \<^item> Uri, Utils (\<open>e2k-uri.c\<close>, \<open>e2k-utils.c\<close>): a URI printed with the code's encoding is parsed back; a
    permanent URL is converted back exactly when its counters have 24 bits; the test for folders is
    sound for restrictions without negation and without the comparisons it does not tell apart.
  \<^item> Rule_Codec, Restriction, Action, Rules (\<open>e2k-rule.c\<close>, \<open>e2k-restriction.c\<close>, \<open>e2k-action.c\<close>): the
    binary rule format. Writing and reading back gives the canonical form of every rule set,
    restriction and action; the decoder of restrictions never leaves its buffer, and loading ends.
  \<^item> Sql (\<open>e2k_restriction_to_sql\<close>): the clause is the compositional translation, and a quoted
    value cannot end its literal.
  \<^item> Des, Md4, Ntlm (\<open>xntlm\<close>): DES decryption inverts encryption; MD4 is that of RFC 1320 except for
    one length; the authenticate message describes its own fields.
  \<^item> Sid, Security_Descriptor, Ace_Order, Permissions, Descriptor_Binary (\<open>e2k-sid.c\<close>,
    \<open>e2k-security-descriptor.c\<close>): the sorted array of entries refines a map from SIDs to permissions;
    setting and reading agree; a written descriptor is read back.
  \<^item> Freebusy (\<open>e2k-freebusy.c\<close>): adding, clearing and importing intervals changes exactly the time
    they cover, with the exceptions that are findings.
  \<^item> Xml, Http, Multistatus, Result_Iter (\<open>e2k-xml-utils.c\<close>, \<open>e2k-http-utils.c\<close>, \<open>e2k-result.c\<close>):
    responses and the iterator over batches of results. Its contract with a source of batches is the
    locale \<open>chunk_source\<close>.
  \<^item> Webdav, Bulk, Search_Order, Bulk_Results, Requests (\<open>e2k-context.c\<close>): the requests. The searches
    and the bulk requests are interpretations of \<open>chunk_source\<close>: a search hands out every row once
    and in order; a bulk deletion sends the messages of its batches and nothing else, and hands out one
    result for each of its targets. What a PROPPATCH writes is read
    back as the same property.
  \<^item> Subscription, Subscription_Safety, Subscription_Events, Notifications (\<open>e2k-context.c\<close>, from
    \<open>E2kSubscription\<close> on): change notifications as a state machine of timers, messages and datagrams,
    whose events come in any order; a request waits for the idle source that puts it on the session.
    No timer, message or table entry outlives its subscription as long as no two messages of one kind
    overlap and none is outstanding when its subscription is cancelled; nothing is assumed of cancelling a
    message. A POLL calls back exactly the subscriptions that are due.
  \<^item> Operation (\<open>e2k-operation.c\<close>): cancellation, as whole calls and as the steps of two threads.
  \<^item> Virtual_Path (\<open>e2k-path.c\<close>): physical paths of folders, and the walk over them.
  \<^item> Folder_Tree, Folder_Shape, Folder_Store (\<open>storage/e-folder-tree.c\<close>): the heap of folders with its
    two hash tables refines a map from paths to data.

  \<^bold>\<open>Fuel.\<close> The loops of the code are structural or have a measure. Fuel is used where the data is a
  heap or the number of rounds depends on a server: walks over the folder tree get the number of
  folders ever made, which bounds their depth (Folder_Store); the search of an XML document the number of
  its nodes; the repair of a response its length; the decoder of restrictions its buffer. Each has a
  lemma that this is enough. The name of a new object may take any number of tries, so the theorem on
  \<open>e2k_context_put_new\<close> says that there is fuel that finds the first free name.

  \<^bold>\<open>Parameters.\<close> The HTTP library is a session: which URIs it takes, whether an operation was
  cancelled, and the answer to a message. The parsers of libxml2, base64, the conversion between
  UTF-8 and UTF-16, \<open>xmlCopyNode\<close>, \<open>e_mktime_utc\<close>, \<open>rmdir\<close> and the file system are arguments too,
  and so is whether cancelling on one session reaches a message of the other. Theorems that
  need something of them say so.

  \<^bold>\<open>Not modelled.\<close> Set-up of connections and forms-based authentication, LDAP and the global catalog,
  Kerberos, autoconfiguration, and reference counts. The classes of \<open>server/storage\<close> other than the
  folder tree mirror what the server says in GObjects and are driven by the main loop. The
  backends subclass libraries (Camel, Evolution data server, libical, Berkeley DB) whose types and
  functions are not part of the repository, and the plugin is user interface code. Locks are modelled for operations only: the
  tables of the notifier have none, which is a finding.
\<close>

end
